(* ===== verification/Prelude.thy ===== *)
theory Prelude
  imports
    Complex_Main
    "HOL-Library.AList"
    "HOL-Library.Multiset"
    "HOL-Library.Char_ord"
    "HOL-Library.List_Lexorder"
begin

text \<open>
  The vocabulary the component theories share: Go's \<open>float64\<close>, \<open>time.Time\<close>, maps, the
  order of a \<open>range\<close> statement, and the pieces of the packages \<open>slices\<close>, \<open>cmp\<close> and
  \<open>errors\<close> the code calls, with the lemmas that carry the component proofs.

  \<^item> A \<open>float64\<close> is a real number or one of the special values. Addition, multiplication,
    division and the comparisons treat the special values as IEEE 754 does (every comparison
    with NaN is false); rounding of finite results and the sign of zero are not modelled.
  \<^item> A \<open>time.Time\<close> is the number of nanoseconds since Go's zero time, so the zero value is
    \<open>0\<close>; \<open>Sub\<close> saturates at the ends of the 64-bit \<open>Duration\<close> as the package does.
  \<^item> A Go map is an association list with distinct keys. The position of an entry has no
    meaning: wherever the result of a \<open>range\<close> over a map can depend on the order, the
    definition takes an \<open>order\<close>, an arbitrary rearrangement of the keys, and the theorems
    hold for every one.
  \<^item> A Go set (\<open>map[string]struct{}\<close>) is a list without duplicates.
\<close>

named_theorems gomap_simps \<open>lookups, updates and key sets of Go maps\<close>
named_theorems float_simps \<open>float64 arithmetic on finite values\<close>

section \<open>float64\<close>

datatype float64 = Fin real | PosInf | NegInf | NaN

fun float_add :: "float64 \<Rightarrow> float64 \<Rightarrow> float64" where
  "float_add (Fin a) (Fin b) = Fin (a + b)"
| "float_add NaN _ = NaN"
| "float_add _ NaN = NaN"
| "float_add PosInf NegInf = NaN"
| "float_add NegInf PosInf = NaN"
| "float_add PosInf _ = PosInf"
| "float_add _ PosInf = PosInf"
| "float_add NegInf _ = NegInf"
| "float_add _ NegInf = NegInf"

fun float_neg :: "float64 \<Rightarrow> float64" where
  "float_neg (Fin a) = Fin (- a)"
| "float_neg PosInf = NegInf"
| "float_neg NegInf = PosInf"
| "float_neg NaN = NaN"

text \<open>The sign of a non-NaN value, and the infinity of a given sign (NaN for \<open>0\<close>).\<close>

fun float_sgn :: "float64 \<Rightarrow> real" where
  "float_sgn (Fin a) = sgn a"
| "float_sgn PosInf = 1"
| "float_sgn NegInf = - 1"
| "float_sgn NaN = 0"

definition float_inf :: "real \<Rightarrow> float64" where
  "float_inf s = (if 0 < s then PosInf else if s < 0 then NegInf else NaN)"

fun float_mul :: "float64 \<Rightarrow> float64 \<Rightarrow> float64" where
  "float_mul (Fin a) (Fin b) = Fin (a * b)"
| "float_mul x y = float_inf (float_sgn x * float_sgn y)"

fun float_div :: "float64 \<Rightarrow> float64 \<Rightarrow> float64" where
  "float_div NaN _ = NaN"
| "float_div _ NaN = NaN"
| "float_div (Fin a) (Fin b) = (if b = 0 then float_inf a else Fin (a / b))"
| "float_div (Fin a) _ = Fin 0"
| "float_div x (Fin b) = float_inf (float_sgn x * (if b < 0 then - 1 else 1))"
| "float_div _ _ = NaN"

fun float_less :: "float64 \<Rightarrow> float64 \<Rightarrow> bool" where
  "float_less (Fin a) (Fin b) = (a < b)"
| "float_less NaN _ = False"
| "float_less _ NaN = False"
| "float_less NegInf NegInf = False"
| "float_less NegInf _ = True"
| "float_less PosInf _ = False"
| "float_less (Fin _) PosInf = True"
| "float_less (Fin _) NegInf = False"

fun float_eq :: "float64 \<Rightarrow> float64 \<Rightarrow> bool" where
  "float_eq NaN _ = False"
| "float_eq _ NaN = False"
| "float_eq x y = (x = y)"

instantiation float64 :: "{comm_monoid_add, minus, uminus, times, inverse, ord}"
begin

definition zero_float64 :: float64 where "zero_float64 = Fin 0"
definition plus_float64 :: "float64 \<Rightarrow> float64 \<Rightarrow> float64" where "plus_float64 = float_add"
definition uminus_float64 :: "float64 \<Rightarrow> float64" where "uminus_float64 = float_neg"
definition minus_float64 :: "float64 \<Rightarrow> float64 \<Rightarrow> float64" where
  "minus_float64 x y = float_add x (float_neg y)"
definition times_float64 :: "float64 \<Rightarrow> float64 \<Rightarrow> float64" where "times_float64 = float_mul"
definition divide_float64 :: "float64 \<Rightarrow> float64 \<Rightarrow> float64" where "divide_float64 = float_div"
definition inverse_float64 :: "float64 \<Rightarrow> float64" where "inverse_float64 = float_div (Fin 1)"
definition less_float64 :: "float64 \<Rightarrow> float64 \<Rightarrow> bool" where "less_float64 = float_less"
definition less_eq_float64 :: "float64 \<Rightarrow> float64 \<Rightarrow> bool" where
  "less_eq_float64 x y = (float_less x y \<or> float_eq x y)"

instance
proof
  fix a b c :: float64
  show "a + b + c = a + (b + c)"
    by (cases a; cases b; cases c) (simp_all add: plus_float64_def)
  show "a + b = b + a"
    by (cases a; cases b) (simp_all add: plus_float64_def)
  show "0 + a = a"
    by (cases a) (simp_all add: plus_float64_def zero_float64_def)
qed

end

definition is_fin :: "float64 \<Rightarrow> bool" where
  "is_fin x = (case x of Fin _ \<Rightarrow> True | _ \<Rightarrow> False)"

fun the_fin :: "float64 \<Rightarrow> real" where
  "the_fin (Fin a) = a"
| "the_fin _ = 0"

text \<open>\<open>math.IsNaN\<close>, \<open>math.IsInf(x, 0)\<close>, \<open>math.Ceil\<close>, \<open>math.MaxFloat64\<close>, \<open>float64(n)\<close>.\<close>

definition IsNaN :: "float64 \<Rightarrow> bool" where "IsNaN x = (x = NaN)"
definition IsInf :: "float64 \<Rightarrow> bool" where "IsInf x = (x = PosInf \<or> x = NegInf)"
definition MaxFloat64 :: float64 where "MaxFloat64 = Fin ((2 ^ 53 - 1) * 2 ^ 971)"
definition float_of_nat :: "nat \<Rightarrow> float64" where "float_of_nat n = Fin (real n)"

fun Ceil :: "float64 \<Rightarrow> float64" where
  "Ceil (Fin a) = Fin (of_int \<lceil>a\<rceil>)"
| "Ceil x = x"

text \<open>
  \<open>int(x)\<close> of a float: truncation inside the range of \<open>int64\<close>. Outside it the language
  leaves the result to the implementation; \<open>- 2 ^ 63\<close> is what amd64 gives.
\<close>

fun int_of_float :: "float64 \<Rightarrow> int" where
  "int_of_float (Fin a) =
     (let n = (if a < 0 then \<lceil>a\<rceil> else \<lfloor>a\<rfloor>)
      in if - (2 ^ 63) \<le> n \<and> n < 2 ^ 63 then n else - (2 ^ 63))"
| "int_of_float _ = - (2 ^ 63)"

text \<open>
  \<open>cmp.Compare(x, y) \<le> 0\<close> and \<open>cmp.Compare(x, y) = 0\<close> on floats: NaN is equal to itself and
  less than everything else.
\<close>

definition cmp_le :: "float64 \<Rightarrow> float64 \<Rightarrow> bool" where
  "cmp_le x y = (x = NaN \<or> x \<le> y)"

section \<open>time.Time and time.Duration\<close>

type_synonym gotime = int
type_synonym duration = int

definition minDuration :: duration where "minDuration = - (2 ^ 63)"
definition maxDuration :: duration where "maxDuration = 2 ^ 63 - 1"

definition time_Sub :: "gotime \<Rightarrow> gotime \<Rightarrow> duration" where
  "time_Sub t u = max minDuration (min maxDuration (t - u))"

abbreviation IsZero :: "gotime \<Rightarrow> bool" where "IsZero t \<equiv> t = 0"
abbreviation Before :: "gotime \<Rightarrow> gotime \<Rightarrow> bool" where "Before t u \<equiv> t < u"

section \<open>Maps\<close>

type_synonym ('k, 'v) gomap = "('k \<times> 'v) list"
type_synonym gostrset = "string list"
type_synonym order = "string list \<Rightarrow> string list"

definition wf_map :: "('k, 'v) gomap \<Rightarrow> bool" where
  "wf_map m = distinct (map fst m)"

abbreviation mkeys :: "('k, 'v) gomap \<Rightarrow> 'k list" where "mkeys m \<equiv> map fst m"
abbreviation mget :: "('k, 'v) gomap \<Rightarrow> 'k \<Rightarrow> 'v option" where "mget m k \<equiv> map_of m k"
abbreviation mput :: "'k \<Rightarrow> 'v \<Rightarrow> ('k, 'v) gomap \<Rightarrow> ('k, 'v) gomap" where
  "mput k v m \<equiv> AList.update k v m"
abbreviation mdel :: "'k \<Rightarrow> ('k, 'v) gomap \<Rightarrow> ('k, 'v) gomap" where
  "mdel k m \<equiv> AList.delete k m"
definition mhas :: "('k, 'v) gomap \<Rightarrow> 'k \<Rightarrow> bool" where "mhas m k = (mget m k \<noteq> None)"

text \<open>\<open>m[k]\<close> read as a value: the type's zero value when the key is absent.\<close>

definition mzero :: "'v \<Rightarrow> ('k, 'v) gomap \<Rightarrow> 'k \<Rightarrow> 'v" where
  "mzero z m k = (case mget m k of None \<Rightarrow> z | Some v \<Rightarrow> v)"

abbreviation slice :: "('k, 'v list) gomap \<Rightarrow> 'k \<Rightarrow> 'v list" where
  "slice m k \<equiv> mzero [] m k"

text \<open>The entries of a map in the order in which a \<open>range\<close> visits the keys.\<close>

definition mrange :: "order \<Rightarrow> (string, 'v) gomap \<Rightarrow> (string \<times> 'v) list" where
  "mrange ord m = List.map_filter (\<lambda>k. map_option (Pair k) (mget m k)) (ord (mkeys m))"

definition is_order :: "order \<Rightarrow> bool" where
  "is_order ord = (\<forall>xs. mset (ord xs) = mset xs)"

text \<open>All elements of the slices of a \<open>map[string][]string\<close>, with their multiplicities.\<close>

definition all_shards :: "('k, 'v list) gomap \<Rightarrow> 'v multiset" where
  "all_shards m = mset (concat (map snd m))"

section \<open>slices\<close>

fun insort_by :: "('a \<Rightarrow> 'a \<Rightarrow> bool) \<Rightarrow> 'a \<Rightarrow> 'a list \<Rightarrow> 'a list" where
  "insort_by le x [] = [x]"
| "insort_by le x (y # ys) = (if le x y then x # y # ys else y # insort_by le x ys)"

text \<open>
  \<open>slices.SortFunc\<close>: the elements in ascending order of the comparison. The package does not
  say in which order equal elements come out; a caller that sorts a list of unspecified order
  passes it through an \<open>order\<close> first.
\<close>

definition sort_by :: "('a \<Rightarrow> 'a \<Rightarrow> bool) \<Rightarrow> 'a list \<Rightarrow> 'a list" where
  "sort_by le xs = foldr (insort_by le) xs []"

text \<open>\<open>slices.MinFunc\<close>: the first minimal element. It panics on an empty slice.\<close>

fun MinFunc :: "('a \<Rightarrow> 'a \<Rightarrow> bool) \<Rightarrow> 'a list \<Rightarrow> 'a option" where
  "MinFunc lt [] = None"
| "MinFunc lt (x # xs) = Some (fold (\<lambda>y m. if lt y m then y else m) xs x)"

text \<open>\<open>slices.Index\<close>: the position of the first occurrence.\<close>

fun slices_Index :: "'a list \<Rightarrow> 'a \<Rightarrow> nat option" where
  "slices_Index [] v = None"
| "slices_Index (x # xs) v = (if x = v then Some 0 else map_option Suc (slices_Index xs v))"

text \<open>
  Removal by swapping with the last element: \<open>s[i] = s[len(s)-1]; s = s[:len(s)-1]\<close>, for an
  index in range.
\<close>

definition swap_remove :: "nat \<Rightarrow> 'a list \<Rightarrow> 'a list" where
  "swap_remove i xs = butlast (xs[i := last xs])"

section \<open>Lemmas on floats\<close>

lemma float_Fin_simps [simp, float_simps]:
  "Fin a + Fin b = Fin (a + b)"
  "Fin a - Fin b = Fin (a - b)"
  "Fin a * Fin b = Fin (a * b)"
  "(Fin a < Fin b) = (a < b)"
  "(Fin a \<le> Fin b) = (a \<le> b)"
  by (auto simp: zero_float64_def plus_float64_def minus_float64_def times_float64_def
      less_float64_def less_eq_float64_def)

lemma float_zero_simps [simp]:
  "(0 \<le> Fin b) = (0 \<le> b)" "(Fin a \<le> 0) = (a \<le> 0)"
  "(0 < Fin b) = (0 < b)" "(Fin a < 0) = (a < 0)"
  "(Fin a = 0) = (a = 0)" "(0 = Fin a) = (a = 0)" "the_fin 0 = 0" "(0 :: float64) \<le> 0"
  by (auto simp: zero_float64_def)

lemma float_zero_Fin [float_simps]: "(0 :: float64) = Fin 0"
  by (simp add: zero_float64_def)

lemma float_less_pos: "x < y \<Longrightarrow> \<not> y \<le> 0 \<Longrightarrow> 0 < (y :: float64)"
  by (cases x; cases y) (auto simp: less_float64_def less_eq_float64_def zero_float64_def)

lemma float_Fin_divide [simp, float_simps]: "b \<noteq> 0 \<Longrightarrow> Fin a / Fin b = Fin (a / b)"
  by (simp add: divide_float64_def)

lemma float_NaN_simps [simp]:
  "\<not> NaN < x" "\<not> x < NaN" "\<not> NaN \<le> x" "\<not> x \<le> NaN" "NaN + x = NaN" "x + NaN = NaN"
  by (cases x; simp add: less_float64_def less_eq_float64_def plus_float64_def)+

lemma is_finE: "is_fin x \<Longrightarrow> (\<And>a. x = Fin a \<Longrightarrow> P) \<Longrightarrow> P"
  by (cases x) (auto simp: is_fin_def)

lemma is_fin_Fin [simp]: "is_fin (Fin a)"
  by (simp add: is_fin_def)

lemma is_fin_zero [simp]: "is_fin 0"
  by (simp add: zero_float64_def)

lemma Fin_the_fin: "is_fin x \<Longrightarrow> Fin (the_fin x) = x"
  by (auto elim: is_finE)

lemma is_fin_add: "is_fin x \<Longrightarrow> is_fin y \<Longrightarrow> is_fin (x + y)"
  by (auto elim!: is_finE)

lemma is_fin_sub: "is_fin x \<Longrightarrow> is_fin y \<Longrightarrow> is_fin (x - y)"
  by (auto elim!: is_finE)

lemma is_fin_not_NaN: "is_fin x = (\<not> IsNaN x \<and> \<not> IsInf x)"
  by (cases x) (auto simp: is_fin_def IsNaN_def IsInf_def)

lemma cmp_le_total: "cmp_le x y \<or> cmp_le y x"
  by (cases x; cases y) (auto simp: cmp_le_def less_eq_float64_def)

lemma cmp_le_trans: "cmp_le x y \<Longrightarrow> cmp_le y z \<Longrightarrow> cmp_le x z"
  by (cases x; cases y; cases z) (auto simp: cmp_le_def less_eq_float64_def)

section \<open>Lemmas on maps\<close>

lemma wf_map_Nil [simp]: "wf_map []"
  by (simp add: wf_map_def)

lemma wf_map_Cons [simp]: "wf_map ((k, v) # m) = (k \<notin> set (mkeys m) \<and> wf_map m)"
  by (auto simp: wf_map_def)

lemma wf_map_mput [simp]: "wf_map m \<Longrightarrow> wf_map (mput k v m)"
  by (simp add: wf_map_def distinct_update)

lemma wf_map_mdel [simp]: "wf_map m \<Longrightarrow> wf_map (mdel k m)"
  by (simp add: wf_map_def distinct_delete)

lemma mget_mput [gomap_simps]: "mget (mput k v m) k' = (if k' = k then Some v else mget m k')"
  by (simp add: update_conv')

lemma mget_mdel [gomap_simps]: "mget (mdel k m) k' = (if k' = k then None else mget m k')"
  by (simp add: delete_conv')

lemma mkeys_mput [gomap_simps]: "set (mkeys (mput k v m)) = insert k (set (mkeys m))"
  by (simp add: dom_update)

lemma mkeys_mput_in: "k \<in> set (mkeys m) \<Longrightarrow> mkeys (mput k v m) = mkeys m"
  by (induction m) auto

lemma mhas_mkeys: "mhas m k = (k \<in> set (mkeys m))"
  by (simp add: mhas_def map_of_eq_None_iff)

lemma mhas_simps [simp, gomap_simps]:
  "mhas [] k = False"
  "mhas ((k', v) # m) k = (k = k' \<or> mhas m k)"
  "mhas (mput k' v m) k = (k = k' \<or> mhas m k)"
  "mhas (mdel k' m) k = (k \<noteq> k' \<and> mhas m k)"
  by (auto simp: mhas_def update_conv' delete_conv')

lemma mhasI [intro]: "mget m k = Some v \<Longrightarrow> mhas m k"
  by (simp add: mhas_def)

lemma mhasE [elim]: "mhas m k \<Longrightarrow> (\<And>v. mget m k = Some v \<Longrightarrow> P) \<Longrightarrow> P"
  by (auto simp: mhas_def)

lemma mget_in_mkeys: "mget m k = Some v \<Longrightarrow> k \<in> set (mkeys m)"
  by (force dest: map_of_SomeD)

lemma mzero_mput [gomap_simps]:
  "mzero z (mput k v m) k' = (if k' = k then v else mzero z m k')"
  by (simp add: mzero_def mget_mput)

lemma mzero_absent: "k \<notin> set (mkeys m) \<Longrightarrow> mzero z m k = z"
  by (simp add: mzero_def map_of_eq_None_iff [THEN iffD2])

lemma mget_eq_iff: "wf_map m \<Longrightarrow> mget m k = Some v \<longleftrightarrow> (k, v) \<in> set m"
  by (simp add: wf_map_def)

lemma mget_perm: "wf_map m \<Longrightarrow> mset m' = mset m \<Longrightarrow> mget m' = mget m"
proof -
  assume wf: "wf_map m" and p: "mset m' = mset m"
  then have "mset (map fst m') = mset (map fst m)" by (metis mset_map)
  then have "distinct (map fst m')" using wf by (metis wf_map_def mset_eq_imp_distinct_iff)
  then show "mget m' = mget m"
    using wf p by (metis map_of_inject_set mset_eq_setD wf_map_def)
qed

subsection \<open>Loops that store into a map\<close>

text \<open>
  The shape of most loops over a map: for each entry, either \<open>continue\<close> or store a value under
  a key. With distinct keys the result at a key depends on that key's entry only.
\<close>

definition store_loop ::
    "('k \<Rightarrow> 'v \<Rightarrow> 'w option) \<Rightarrow> ('k \<times> 'v) list \<Rightarrow> ('k, 'w) gomap \<Rightarrow> ('k, 'w) gomap" where
  "store_loop f = fold (\<lambda>(k, v) m. case f k v of None \<Rightarrow> m | Some w \<Rightarrow> mput k w m)"

lemma store_loop_simps [simp]:
  "store_loop f [] m = m"
  "store_loop f ((k, v) # xs) m =
     store_loop f xs (case f k v of None \<Rightarrow> m | Some w \<Rightarrow> mput k w m)"
  by (simp_all add: store_loop_def)

lemma mget_store_loop_notin: "k \<notin> set (mkeys xs) \<Longrightarrow> mget (store_loop f xs m) k = mget m k"
  by (induction xs arbitrary: m) (auto simp: gomap_simps split: option.splits)

lemma mget_store_loop:
  "wf_map xs \<Longrightarrow> mget (store_loop f xs m) k =
     (case mget xs k of None \<Rightarrow> mget m k
      | Some v \<Rightarrow> (case f k v of None \<Rightarrow> mget m k | Some w \<Rightarrow> Some w))"
proof (induction xs arbitrary: m)
  case (Cons p xs)
  obtain k' v where p: "p = (k', v)" by force
  show ?case
  proof (cases "k = k'")
    case True
    then show ?thesis
      using Cons.prems by (auto simp: p mget_store_loop_notin gomap_simps split: option.splits)
  next
    case False
    then have "mget (store_loop f (p # xs) m) k = mget (store_loop f xs
        (case f k' v of None \<Rightarrow> m | Some w \<Rightarrow> mput k' w m)) k" by (simp add: p)
    also have "\<dots> = (case mget xs k of None \<Rightarrow> mget m k
        | Some v \<Rightarrow> (case f k v of None \<Rightarrow> mget m k | Some w \<Rightarrow> Some w))"
      using False Cons.prems by (auto simp: p Cons.IH gomap_simps split: option.splits)
    finally show ?thesis using False by (simp add: p)
  qed
qed simp

lemma wf_store_loop [simp]: "wf_map m \<Longrightarrow> wf_map (store_loop f xs m)"
proof (induction xs arbitrary: m)
  case (Cons p xs)
  then show ?case by (cases p) (simp split: option.splits)
qed simp

lemma keys_store_loop:
  "set (mkeys (store_loop f xs m)) \<subseteq> set (mkeys m) \<union> set (mkeys xs)"
proof
  fix k assume "k \<in> set (mkeys (store_loop f xs m))"
  then have "mhas (store_loop f xs m) k" by (simp add: mhas_mkeys)
  then have "mhas m k \<or> k \<in> set (mkeys xs)"
    by (metis mget_store_loop_notin mhas_def)
  then show "k \<in> set (mkeys m) \<union> set (mkeys xs)" by (auto simp: mhas_mkeys)
qed

lemma mput_notin: "k \<notin> set (mkeys m) \<Longrightarrow> mput k v m = m @ [(k, v)]"
  by (induction m) auto

text \<open>Storing a value for each of a list of new keys.\<close>

lemma fold_mput_map:
  "distinct ks \<Longrightarrow> set ks \<inter> set (mkeys m) = {} \<Longrightarrow>
     fold (\<lambda>k m. mput k (f k) m) ks m = m @ map (\<lambda>k. (k, f k)) ks"
  by (induction ks arbitrary: m) (auto simp: mput_notin)

lemma store_loop_map:
  "wf_map xs \<Longrightarrow> set (mkeys xs) \<inter> set (mkeys m) = {} \<Longrightarrow>
     store_loop (\<lambda>k v. Some (f k v)) xs m = m @ map (\<lambda>(k, v). (k, f k v)) xs"
proof (induction xs arbitrary: m)
  case (Cons p xs)
  then show ?case by (cases p) (simp add: mput_notin)
qed simp

lemma fold_plus: "fold (\<lambda>x a. a + f x) xs (a :: 'a :: comm_monoid_add) = a + sum_list (map f xs)"
  by (induction xs arbitrary: a) (simp_all add: add.assoc)

lemma mzero_map [simp]: "k \<in> set ks \<Longrightarrow> mzero z (map (\<lambda>k. (k, f k)) ks) k = f k"
  by (induction ks) (auto simp: mzero_def)

subsection \<open>The order of a range statement\<close>

lemma is_orderD: "is_order ord \<Longrightarrow> mset (ord xs) = mset xs"
  by (simp add: is_order_def)

lemma is_order_set: "is_order ord \<Longrightarrow> set (ord xs) = set xs"
  by (metis is_orderD mset_eq_setD)

lemma is_order_length: "is_order ord \<Longrightarrow> length (ord xs) = length xs"
  by (metis is_orderD size_mset)

lemma is_order_distinct: "is_order ord \<Longrightarrow> distinct (ord xs) = distinct xs"
  by (metis is_orderD mset_eq_imp_distinct_iff)

lemma is_order_id [simp]: "is_order (\<lambda>xs. xs)" and is_order_rev [simp]: "is_order rev"
  by (simp_all add: is_order_def)

lemma map_filter_all_Some:
  "(\<And>x. x \<in> set xs \<Longrightarrow> f x = Some (g x)) \<Longrightarrow> List.map_filter f xs = map g xs"
  by (induction xs) (auto simp: List.map_filter_simps)

lemma mrange_map:
  assumes "is_order ord"
  shows "mrange ord m = map (\<lambda>k. (k, the (mget m k))) (ord (mkeys m))"
  unfolding mrange_def
proof (rule map_filter_all_Some)
  fix k assume "k \<in> set (ord (mkeys m))"
  then have "mhas m k" using assms mhas_mkeys [of m k] by (simp add: is_order_set)
  then show "map_option (Pair k) (mget m k) = Some (k, the (mget m k))" by (auto simp: mhas_def)
qed

lemma mkeys_mrange: "is_order ord \<Longrightarrow> mkeys (mrange ord m) = ord (mkeys m)"
  by (simp add: mrange_map comp_def)

lemma mset_mrange:
  assumes "is_order ord" and "wf_map m"
  shows "mset (mrange ord m) = mset m"
proof -
  have "mset (mrange ord m) = image_mset (\<lambda>k. (k, the (mget m k))) (mset (mkeys m))"
    by (simp add: mrange_map assms(1) is_orderD)
  also have "\<dots> = mset (map (\<lambda>p. (fst p, the (mget m (fst p)))) m)"
    by (simp add: multiset.map_comp comp_def)
  also have "map (\<lambda>p. (fst p, the (mget m (fst p)))) m = m"
    using assms(2) by (intro map_idI) (auto simp: wf_map_def)
  finally show ?thesis .
qed

lemma set_mrange: "is_order ord \<Longrightarrow> wf_map m \<Longrightarrow> set (mrange ord m) = set m"
  by (metis mset_mrange mset_eq_setD)

lemma wf_mrange: "is_order ord \<Longrightarrow> wf_map m \<Longrightarrow> wf_map (mrange ord m)"
  by (simp add: wf_map_def mkeys_mrange is_order_distinct)

lemma mget_mrange: "is_order ord \<Longrightarrow> wf_map m \<Longrightarrow> mget (mrange ord m) = mget m"
  by (rule mget_perm [OF _ mset_mrange])

subsection \<open>Maps of slices\<close>

lemma all_shards_Nil [simp]: "all_shards [] = {#}"
  by (simp add: all_shards_def)

lemma all_shards_Cons [simp]: "all_shards ((k, xs) # m) = mset xs + all_shards m"
  by (simp add: all_shards_def)

lemma all_shards_mput:
  "wf_map m \<Longrightarrow> all_shards (mput k xs m) + mset (slice m k) = all_shards m + mset xs"
proof (induction m)
  case Nil
  then show ?case by (simp add: mzero_def)
next
  case (Cons p m)
  obtain k' ys where p: "p = (k', ys)" by force
  show ?case
  proof (cases "k' = k")
    case True
    then show ?thesis by (simp add: p mzero_def)
  next
    case False
    then have "slice (p # m) k = slice m k" by (simp add: p mzero_def)
    with False Cons show ?thesis by (simp add: p add.assoc)
  qed
qed

lemma all_shards_append:
  assumes "wf_map m"
  shows "all_shards (mput k (slice m k @ xs) m) = all_shards m + mset xs"
  using all_shards_mput [OF assms, of k "slice m k @ xs"] by simp

lemma slice_subset_all_shards:
  assumes "wf_map m"
  shows "mset (slice m k) \<subseteq># all_shards m"
proof -
  have "all_shards m = all_shards (mput k [] m) + mset (slice m k)"
    using all_shards_mput [OF assms, of k "[]"] by simp
  then show ?thesis by (metis mset_subset_eq_add_right)
qed

lemma all_shards_sum: "all_shards m = \<Sum>\<^sub># (image_mset (mset \<circ> snd) (mset m))"
  by (induction m) (auto simp: all_shards_def)

lemma all_shards_perm: "mset m' = mset m \<Longrightarrow> all_shards m' = all_shards m"
  by (simp add: all_shards_sum)

lemma in_all_shards: "s \<in># all_shards m \<longleftrightarrow> (\<exists>(k, xs) \<in> set m. s \<in> set xs)"
  by (force simp: all_shards_def)

text \<open>Without duplicates overall, an element lies in the slice of one key only.\<close>

definition disjoint_slices :: "('k, 'v list) gomap \<Rightarrow> bool" where
  "disjoint_slices m = distinct (concat (map snd m))"

lemma disjoint_slices_count: "disjoint_slices m \<longleftrightarrow> (\<forall>s. count (all_shards m) s \<le> 1)"
proof -
  have "(count (mset xs) s = (if s \<in> set xs then 1 else 0)) = (count (mset xs) s \<le> 1)"
    for xs and s :: 'b
    using count_eq_zero_iff [of "mset xs" s] by (cases "s \<in> set xs") (auto simp: le_Suc_eq)
  then show ?thesis
    unfolding disjoint_slices_def all_shards_def distinct_count_atmost_1 by (simp only:)
qed

section \<open>Lemmas on slices\<close>

lemma mset_insort_by: "mset (insort_by le x xs) = add_mset x (mset xs)"
  by (induction xs) auto

lemma mset_sort_by [simp]: "mset (sort_by le xs) = mset xs"
  by (induction xs) (simp_all add: sort_by_def mset_insort_by)

lemma set_sort_by [simp]: "set (sort_by le xs) = set xs"
  by (metis mset_sort_by mset_eq_setD)

lemma sorted_insort_by:
  assumes total: "\<And>x y. le x y \<or> le y x" and trans: "\<And>x y z. le x y \<Longrightarrow> le y z \<Longrightarrow> le x z"
    and "sorted_wrt le xs"
  shows "sorted_wrt le (insort_by le x xs)"
  using assms(3)
proof (induction xs)
  case Nil
  then show ?case by simp
next
  case (Cons y ys)
  have set: "set (insort_by le x ys) = insert x (set ys)"
    by (metis mset_insort_by set_mset_add_mset_insert set_mset_mset)
  have ys: "sorted_wrt le ys" "\<forall>z \<in> set ys. le y z" using Cons.prems by auto
  show ?case
  proof (cases "le x y")
    case True
    then have "\<forall>z \<in> set ys. le x z" using ys(2) trans by blast
    with True ys show ?thesis by simp
  next
    case False
    then have "le y x" using total by blast
    with False ys Cons.IH show ?thesis by (simp add: set)
  qed
qed

lemma sorted_sort_by:
  assumes "\<And>x y. le x y \<or> le y x" and "\<And>x y z. le x y \<Longrightarrow> le y z \<Longrightarrow> le x z"
  shows "sorted_wrt le (sort_by le xs)"
proof (induction xs)
  case (Cons x xs)
  then show ?case
    using sorted_insort_by [of le "sort_by le xs" x, OF assms] by (simp add: sort_by_def)
qed (simp add: sort_by_def)

lemma MinFunc_None [simp]: "MinFunc lt xs = None \<longleftrightarrow> xs = []"
  by (cases xs) auto

lemma fold_min_in: "fold (\<lambda>y m. if lt y m then y else m) xs x \<in> insert x (set xs)"
  by (induction xs arbitrary: x) (auto split: if_splits)

lemma MinFunc_in: "MinFunc lt xs = Some y \<Longrightarrow> y \<in> set xs"
  using fold_min_in by (cases xs) fastforce+

lemma fold_min_le:
  assumes total: "\<And>x y. le x y \<or> le y x" and trans: "\<And>x y z. le x y \<Longrightarrow> le y z \<Longrightarrow> le x z"
    and lt: "\<And>x y. lt x y = (\<not> le y x)"
    and "z \<in> insert x (set xs)"
  shows "le (fold (\<lambda>y m. if lt y m then y else m) xs x) z"
  using assms(4)
proof (induction xs arbitrary: x z)
  case Nil
  then show ?case using total by auto
next
  case (Cons y ys)
  define x' where "x' = (if lt y x then y else x)"
  have le: "le (fold (\<lambda>y m. if lt y m then y else m) ys x') w" if "w \<in> insert x' (set ys)" for w
    using Cons.IH that .
  have "le x' x" and "le x' y" using lt total by (auto simp: x'_def)
  then have "le (fold (\<lambda>y m. if lt y m then y else m) ys x') z" if "z \<in> {x, y}"
    using that le [of x'] trans by blast
  moreover have "le (fold (\<lambda>y m. if lt y m then y else m) ys x') z" if "z \<in> set ys"
    using that le by blast
  ultimately show ?case using Cons.prems by (auto simp: x'_def)
qed

lemma MinFunc_le:
  assumes "\<And>x y. le x y \<or> le y x" and "\<And>x y z. le x y \<Longrightarrow> le y z \<Longrightarrow> le x z"
    and "\<And>x y. lt x y = (\<not> le y x)"
    and "MinFunc lt xs = Some y" and "z \<in> set xs"
  shows "le y z"
proof (cases xs)
  case Nil
  then show ?thesis using assms(4) by simp
next
  case (Cons x ys)
  then show ?thesis
    using assms(4,5) fold_min_le [of le lt z x ys, OF assms(1-3)] by simp
qed

lemma slices_Index_Some:
  "slices_Index xs v = Some i \<Longrightarrow> i < length xs \<and> xs ! i = v"
  by (induction xs arbitrary: i) (auto split: if_splits)

lemma slices_Index_None: "slices_Index xs v = None \<longleftrightarrow> v \<notin> set xs"
  by (induction xs) auto

lemma slices_Index_nth:
  assumes "distinct xs" and "i < length xs"
  shows "slices_Index xs (xs ! i) = Some i"
proof (cases "slices_Index xs (xs ! i)")
  case None
  then show ?thesis using assms by (simp add: slices_Index_None)
next
  case (Some j)
  then have "j < length xs" "xs ! j = xs ! i" using slices_Index_Some [OF Some] by simp_all
  then have "j = i" using assms by (metis nth_eq_iff_index_eq)
  with Some show ?thesis by simp
qed

lemma mset_swap_remove:
  assumes "i < length xs"
  shows "mset (swap_remove i xs) = mset xs - {#xs ! i#}"
proof -
  let ?ys = "xs[i := last xs]"
  have ne: "?ys \<noteq> []" using assms by auto
  have "last ?ys = last xs"
    using assms ne last_conv_nth [OF ne] last_conv_nth [of xs] by (auto simp: nth_list_update)
  then have "mset (butlast ?ys @ [last xs]) = mset ?ys"
    using append_butlast_last_id [OF ne] by metis
  then have "mset (butlast ?ys) + {#last xs#} = mset ?ys" by simp
  also have "\<dots> = mset xs - {#xs ! i#} + {#last xs#}"
    using assms by (simp add: mset_update)
  finally show ?thesis by (simp add: swap_remove_def)
qed

lemma length_swap_remove: "length (swap_remove i xs) = length xs - 1"
  by (simp add: swap_remove_def)

end
