(* ===== verification/Types.thy ===== *)
theory Types
  imports Prelude
begin

text \<open>
  The data types of \<open>common/types/sharddistributor.go\<close> the service works on, the error values
  of \<open>store/store.go\<close> and \<open>common/types\<close>, and the namespace configuration of
  \<open>config/config.go\<close>. Enumerations are datatypes with the source's constants: the proto
  mappers produce no other value. Maps of pointers hold no nil entry.
\<close>

section \<open>Enumerations\<close>

datatype ExecutorStatus =
    ExecutorStatusINVALID | ExecutorStatusACTIVE | ExecutorStatusDRAINING | ExecutorStatusDRAINED

datatype ShardStatus = ShardStatusINVALID | ShardStatusREADY | ShardStatusDONE

datatype AssignmentStatus = AssignmentStatusINVALID | AssignmentStatusREADY

datatype HandoverType = HandoverTypeINVALID | HandoverTypeGRACEFUL | HandoverTypeEMERGENCY

datatype MigrationMode =
    MigrationModeINVALID | MigrationModeLOCALPASSTHROUGH | MigrationModeONBOARDED

datatype LoadBalancingMode =
    LoadBalancingModeINVALID | LoadBalancingModeNAIVE | LoadBalancingModeGREEDY

section \<open>Structures\<close>

record HostMetadata =
  HostName :: string

record ShardStatusReport =
  ssr_Status :: ShardStatus
  ShardLoad :: float64

record ShardAssignment =
  sa_Status :: AssignmentStatus

section \<open>Errors\<close>

text \<open>
  The sentinel errors of the store and of the placement strategies, the API errors, plain
  messages (\<open>errors.New\<close>, \<open>fmt.Errorf\<close> without \<open>%w\<close>), wrapped errors (\<open>fmt.Errorf\<close> with
  \<open>%w\<close>), joined errors (\<open>errors.Join\<close>), the two context errors, a status of the RPC framework, a runtime panic, and errors of the
  packages the code calls. \<open>BadRequestValue\<close> is a \<open>BadRequestError\<close> that is returned as a value and
  not as a pointer, which is another type to a type switch. The message of an
  \<open>InternalServiceError\<close> is a prefix and the error printed after it.
\<close>

datatype err =
    ErrExecutorNotFound
  | ErrShardNotFound
  | ErrShardDrained
  | ErrVersionConflict
  | ErrExecutorNotRunning
  | ErrNoActiveExecutors
  | NamespaceNotFoundError string
  | ShardNotFoundError string string
  | ShardDrainedError string string
  | BadRequestError string
  | BadRequestValue string
  | AccessDeniedError string
  | EntityNotExistsError string
  | InternalServiceError string "err option"
  | ServiceBusyError string
  | ErrorString string
  | Errorf string err
  | ContextCanceled
  | DeadlineExceeded
  | JoinError err err
  | StatusError string
  | RuntimeError
  | ExternalError nat

type_synonym 'a result = "err + 'a"

text \<open>\<open>errors.Is\<close>: the target is the error itself or one it wraps.\<close>

fun errors_Is :: "err \<Rightarrow> err \<Rightarrow> bool" where
  "errors_Is (Errorf msg e) target = (Errorf msg e = target \<or> errors_Is e target)"
| "errors_Is (JoinError e\<^sub>1 e\<^sub>2) target =
     (JoinError e\<^sub>1 e\<^sub>2 = target \<or> errors_Is e\<^sub>1 target \<or> errors_Is e\<^sub>2 target)"
| "errors_Is e target = (e = target)"

section \<open>Namespace configuration\<close>

record Namespace =
  Name :: string
  NsType :: string
  ShardNum :: int

definition NamespaceTypeFixed :: string where "NamespaceTypeFixed = ''fixed''"
definition NamespaceTypeEphemeral :: string where "NamespaceTypeEphemeral = ''ephemeral''"

definition EffectiveNamespace :: "Namespace \<Rightarrow> int \<Rightarrow> Namespace" where
  "EffectiveNamespace ns fixedShardNum =
     (if fixedShardNum \<le> 0 then ns
      else ns\<lparr>NsType := NamespaceTypeFixed, ShardNum := fixedShardNum\<rparr>)"

text \<open>
  The dynamic configuration read by the load balancers, with the value each property has for
  the namespace at hand, fixed for the duration of one call of the balancer. The smoothing
  constant is \<open>None\<close> when the configuration has no such property.
\<close>

record LoadBalancingNaiveConfig =
  MaxDeviation :: float64

record LoadBalancingGreedyConfig =
  PerShardCooldown :: duration
  LoadSmoothingTimeConstant :: "duration option"
  MoveBudgetProportion :: float64
  HysteresisUpperBand :: float64
  HysteresisLowerBand :: float64
  SevereImbalanceRatio :: float64

record Config =
  cfg_LoadBalancingMode :: string
  LoadBalancingNaive :: LoadBalancingNaiveConfig
  LoadBalancingGreedy :: LoadBalancingGreedyConfig

definition LoadBalancingMode_table :: "(string, LoadBalancingMode) gomap" where
  "LoadBalancingMode_table =
     [(''invalid'', LoadBalancingModeINVALID),
      (''naive'', LoadBalancingModeNAIVE),
      (''greedy'', LoadBalancingModeGREEDY)]"

definition GetLoadBalancingMode :: "Config \<Rightarrow> LoadBalancingMode" where
  "GetLoadBalancingMode c =
     (case mget LoadBalancingMode_table (cfg_LoadBalancingMode c) of
        None \<Rightarrow> LoadBalancingModeINVALID
      | Some mode \<Rightarrow> mode)"

record LeaderProcess =
  Period :: duration
  RebalanceCooldown :: duration
  Timeout :: duration
  HeartbeatTTL :: duration

section \<open>Lemmas\<close>

lemma errors_Is_refl [simp]: "errors_Is e e"
  by (cases e) auto

lemma errors_Is_Errorf: "errors_Is e t \<Longrightarrow> errors_Is (Errorf msg e) t"
  by simp

lemma EffectiveNamespace_Name [simp]: "Name (EffectiveNamespace ns n) = Name ns"
  by (simp add: EffectiveNamespace_def)

lemma EffectiveNamespace_fixed:
  "0 < n \<Longrightarrow> NsType (EffectiveNamespace ns n) = NamespaceTypeFixed
     \<and> ShardNum (EffectiveNamespace ns n) = n"
  by (simp add: EffectiveNamespace_def)

lemma namespace_types_differ [simp]: "NamespaceTypeFixed \<noteq> NamespaceTypeEphemeral"
  by (simp add: NamespaceTypeFixed_def NamespaceTypeEphemeral_def)

end
