(* ===== verification/EtcdKeys.thy ===== *)
theory EtcdKeys
  imports Types "HOL-Library.Sublist"
begin

text \<open>
  The keys the store uses in etcd (\<open>store/etcd/etcdkeys/etcdkeys.go\<close>) and the host names that
  are part of them (\<open>hostname/hostname.go\<close>): builders, parsers and their round trips.

  \<^item> A key is a string; \<open>fmt.Sprintf\<close> with \<open>%s\<close> verbs is concatenation.
  \<^item> \<open>ExecutorKeyType\<close> is a string type in the code, with constants for the known values.
  \<^item> The text of an error message is kept up to the values it prints.
\<close>

section \<open>Strings\<close>

text \<open>\<open>strings.Split\<close> with a separator of one character, \<open>strings.HasPrefix\<close> with
  \<open>strings.TrimPrefix\<close>, and \<open>strings.ReplaceAll\<close> of one character by another.\<close>

fun Split :: "char \<Rightarrow> string \<Rightarrow> string list" where
  "Split c [] = [[]]"
| "Split c (x # xs) =
     (if x = c then [] # Split c xs
      else case Split c xs of [] \<Rightarrow> [[x]] | p # ps \<Rightarrow> (x # p) # ps)"

definition TrimPrefix :: "string \<Rightarrow> string \<Rightarrow> string" where
  "TrimPrefix s p = (if prefix p s then drop (length p) s else s)"

definition ReplaceAll :: "char \<Rightarrow> char \<Rightarrow> string \<Rightarrow> string" where
  "ReplaceAll old new s = map (\<lambda>c. if c = old then new else c) s"

lemma Split_not_Nil [simp]: "Split c s \<noteq> []"
  by (induction s) (auto split: list.splits)

lemma Split_no_sep: "c \<notin> set s \<Longrightarrow> Split c s = [s]"
  by (induction s) auto

lemma Split_append: "c \<notin> set a \<Longrightarrow> Split c (a @ c # b) = a # Split c b"
  by (induction a) auto

lemma Split_parts: "p \<in> set (Split c s) \<Longrightarrow> c \<notin> set p"
proof (induction s arbitrary: p)
  case (Cons x s)
  then show ?case by (cases "Split c s") (auto split: if_splits)
qed simp

lemma Split_two: "Split c s = [a, b] \<longleftrightarrow> s = a @ c # b \<and> c \<notin> set a \<and> c \<notin> set b"
proof
  assume two: "Split c s = [a, b]"
  then have "c \<notin> set a" "c \<notin> set b" using Split_parts [of _ c s] by simp_all
  moreover from two have "s = a @ c # b"
  proof (induction s arbitrary: a)
    case (Cons x s)
    show ?case
    proof (cases "x = c")
      case True
      then have "a = []" "Split c s = [b]" using Cons.prems by auto
      moreover have "Split c s = [b] \<Longrightarrow> s = b" for s b
        by (induction s arbitrary: b) (auto split: if_splits list.splits)
      ultimately show ?thesis using True by simp
    next
      case False
      then show ?thesis
        using Cons by (auto split: list.splits)
    qed
  qed simp
  ultimately show "s = a @ c # b \<and> c \<notin> set a \<and> c \<notin> set b" by simp
qed (auto simp: Split_append Split_no_sep)

lemma Split_Cons: "Split c s = a # b # ps \<Longrightarrow> \<exists>r. s = a @ c # r \<and> c \<notin> set a \<and> Split c r = b # ps"
proof (induction s arbitrary: a)
  case (Cons x s)
  show ?case
  proof (cases "x = c")
    case False
    then obtain a' where a': "a = x # a'" "Split c s = a' # b # ps"
      using Cons.prems by (auto split: list.splits)
    then obtain r where "s = a' @ c # r \<and> c \<notin> set a' \<and> Split c r = b # ps" using Cons.IH by blast
    then show ?thesis using a' False by auto
  qed (use Cons.prems in auto)
qed simp

lemma TrimPrefix_append [simp]: "TrimPrefix (p @ s) p = s"
  by (simp add: TrimPrefix_def)

section \<open>Host names\<close>

definition MaxLength :: nat where "MaxLength = 128"

definition Normalize :: "string \<Rightarrow> string" where
  "Normalize raw =
     (let raw = ReplaceAll CHR ''/'' CHR ''_'' raw;
          raw = ReplaceAll CHR ''@'' CHR ''_'' raw
      in if MaxLength < length raw then take MaxLength raw else raw)"

definition Validate :: "string \<Rightarrow> unit result" where
  "Validate name =
     (if name = [] then Inl (ErrorString ''hostname must not be empty'')
      else if MaxLength < length name then Inl (ErrorString ''hostname exceeds 128 bytes'')
      else if CHR ''/'' \<in> set name then Inl (ErrorString ''hostname must not contain /'')
      else if CHR ''@'' \<in> set name then Inl (ErrorString ''hostname must not contain @'')
      else Inr ())"

section \<open>Keys\<close>

definition BuildNamespacePrefix :: "string \<Rightarrow> string \<Rightarrow> string" where
  "BuildNamespacePrefix pre namespace = pre @ ''/'' @ namespace @ ''/''"

definition BuildExecutorsPrefix :: "string \<Rightarrow> string \<Rightarrow> string" where
  "BuildExecutorsPrefix pre namespace = BuildNamespacePrefix pre namespace @ ''executors/''"

definition BuildExecutorIDPrefix :: "string \<Rightarrow> string \<Rightarrow> string \<Rightarrow> string" where
  "BuildExecutorIDPrefix pre namespace executorID =
     BuildExecutorsPrefix pre namespace @ executorID @ ''/''"

type_synonym ExecutorKeyType = string

definition ExecutorHeartbeatKey :: ExecutorKeyType where "ExecutorHeartbeatKey = ''heartbeat''"
definition ExecutorStatusKey :: ExecutorKeyType where "ExecutorStatusKey = ''status''"
definition ExecutorReportedShardsKey :: ExecutorKeyType where "ExecutorReportedShardsKey = ''reported_shards''"
definition ExecutorAssignedStateKey :: ExecutorKeyType where "ExecutorAssignedStateKey = ''assigned_state''"
definition ExecutorMetadataKey :: ExecutorKeyType where "ExecutorMetadataKey = ''metadata''"
definition ExecutorShardStatisticsKey :: ExecutorKeyType where "ExecutorShardStatisticsKey = ''statistics''"
definition ExecutorHostMetadataKey :: ExecutorKeyType where "ExecutorHostMetadataKey = ''host_metadata''"

lemmas key_type_defs = ExecutorHeartbeatKey_def ExecutorStatusKey_def ExecutorReportedShardsKey_def
  ExecutorAssignedStateKey_def ExecutorMetadataKey_def ExecutorShardStatisticsKey_def
  ExecutorHostMetadataKey_def

definition BuildExecutorKey :: "string \<Rightarrow> string \<Rightarrow> string \<Rightarrow> ExecutorKeyType \<Rightarrow> string" where
  "BuildExecutorKey pre namespace executorID keyType =
     BuildExecutorIDPrefix pre namespace executorID @ keyType"

definition ParseExecutorKey :: "string \<Rightarrow> string \<Rightarrow> string \<Rightarrow> (string \<times> ExecutorKeyType) result" where
  "ParseExecutorKey pre namespace key =
     (let pre = BuildExecutorsPrefix pre namespace
      in if \<not> prefix pre key then Inl (ErrorString (''key does not have expected prefix: '' @ key))
         else let remainder = TrimPrefix key pre;
                  parts = Split CHR ''/'' remainder
           in if length parts < 2 then Inl (ErrorString (''unexpected key format: '' @ key))
              else if 2 < length parts \<and> parts ! 1 = ExecutorMetadataKey
              then Inr (parts ! 0, ExecutorMetadataKey)
              else if length parts \<noteq> 2 then Inl (ErrorString (''unexpected key format: '' @ key))
              else Inr (parts ! 0, parts ! 1))"

definition BuildMetadataKey :: "string \<Rightarrow> string \<Rightarrow> string \<Rightarrow> string \<Rightarrow> string" where
  "BuildMetadataKey pre namespace executorID metadataKey =
     BuildExecutorKey pre namespace executorID ExecutorMetadataKey @ ''/'' @ metadataKey"

definition AssignmentVersionsDir :: string where "AssignmentVersionsDir = ''_assignment_versions''"

definition BuildAssignmentVersionKey :: "string \<Rightarrow> string \<Rightarrow> string" where
  "BuildAssignmentVersionKey pre namespace = pre @ ''/'' @ AssignmentVersionsDir @ ''/'' @ namespace"

definition BuildDrainedShardsPrefix :: "string \<Rightarrow> string \<Rightarrow> string" where
  "BuildDrainedShardsPrefix pre namespace = BuildNamespacePrefix pre namespace @ ''drained_shards/''"

definition BuildDrainedShardKey :: "string \<Rightarrow> string \<Rightarrow> string \<Rightarrow> string" where
  "BuildDrainedShardKey pre namespace shardID = BuildDrainedShardsPrefix pre namespace @ shardID"

definition ValidateShardID :: "string \<Rightarrow> unit result" where
  "ValidateShardID shardID =
     (if shardID = [] then Inl (ErrorString ''shard ID must not be empty'')
      else if CHR ''/'' \<in> set shardID
      then Inl (ErrorString (''shard ID must not contain /: '' @ shardID))
      else Inr ())"

definition ParseDrainedShardKey :: "string \<Rightarrow> string \<Rightarrow> string \<Rightarrow> string result" where
  "ParseDrainedShardKey pre namespace key =
     (let drainedPrefix = BuildDrainedShardsPrefix pre namespace
      in if \<not> prefix drainedPrefix key
         then Inl (ErrorString (''key does not have expected drained shards prefix: '' @ key))
         else let shardID = TrimPrefix key drainedPrefix
           in case ValidateShardID shardID of
                Inl e \<Rightarrow> Inl (Errorf (''unexpected drained shard key format '' @ key) e)
              | Inr _ \<Rightarrow> Inr shardID)"

definition BuildDrainedHostsPrefix :: "string \<Rightarrow> string \<Rightarrow> string" where
  "BuildDrainedHostsPrefix pre namespace = BuildNamespacePrefix pre namespace @ ''drained_hosts/''"

definition BuildDrainedHostKey :: "string \<Rightarrow> string \<Rightarrow> string \<Rightarrow> string" where
  "BuildDrainedHostKey pre namespace hostname = BuildDrainedHostsPrefix pre namespace @ hostname"

definition ParseDrainedHostKey :: "string \<Rightarrow> string \<Rightarrow> string \<Rightarrow> string result" where
  "ParseDrainedHostKey pre namespace key =
     (let drainedPrefix = BuildDrainedHostsPrefix pre namespace
      in if \<not> prefix drainedPrefix key
         then Inl (ErrorString (''key does not have expected drained hosts prefix: '' @ key))
         else let parsed = TrimPrefix key drainedPrefix
           in case Validate parsed of
                Inl e \<Rightarrow> Inl (Errorf (''unexpected drained host key format '' @ key) e)
              | Inr _ \<Rightarrow> Inr parsed)"

section \<open>Lemmas\<close>

lemma ReplaceAll_not_in: "old \<noteq> new \<Longrightarrow> old \<notin> set (ReplaceAll old new s)"
  by (auto simp: ReplaceAll_def)

lemma ReplaceAll_keeps: "c \<noteq> new \<Longrightarrow> c \<notin> set s \<Longrightarrow> c \<notin> set (ReplaceAll old new s)"
  by (auto simp: ReplaceAll_def)

lemma length_ReplaceAll [simp]: "length (ReplaceAll old new s) = length s"
  by (simp add: ReplaceAll_def)

lemma ReplaceAll_id: "old \<notin> set s \<Longrightarrow> ReplaceAll old new s = s"
  by (induction s) (auto simp: ReplaceAll_def)

lemma Validate_Inr: "Validate name = Inr u \<longleftrightarrow>
    name \<noteq> [] \<and> length name \<le> MaxLength \<and> CHR ''/'' \<notin> set name \<and> CHR ''@'' \<notin> set name"
  by (auto simp: Validate_def)

lemma ValidateShardID_Inr: "ValidateShardID s = Inr u \<longleftrightarrow> s \<noteq> [] \<and> CHR ''/'' \<notin> set s"
  by (auto simp: ValidateShardID_def)

lemma ParseDrainedShardKey_iff:
  "ParseDrainedShardKey pre ns key = Inr s \<longleftrightarrow>
     key = BuildDrainedShardKey pre ns s \<and> s \<noteq> [] \<and> CHR ''/'' \<notin> set s"
  by (auto simp: ParseDrainedShardKey_def Let_def BuildDrainedShardKey_def ValidateShardID_def prefix_def
      split: sum.splits)

lemma ParseDrainedHostKey_iff:
  "ParseDrainedHostKey pre ns key = Inr h \<longleftrightarrow> key = BuildDrainedHostKey pre ns h \<and> Validate h = Inr ()"
  by (auto simp: ParseDrainedHostKey_def Let_def BuildDrainedHostKey_def prefix_def split: sum.splits)

lemma ParseExecutorKey_iff:
  "ParseExecutorKey pre ns key = Inr (e, t) \<longleftrightarrow> CHR ''/'' \<notin> set e \<and>
     (key = BuildExecutorKey pre ns e t \<and> CHR ''/'' \<notin> set t
      \<or> t = ExecutorMetadataKey \<and> (\<exists>m. key = BuildMetadataKey pre ns e m))"
proof -
  let ?P = "BuildExecutorsPrefix pre ns"
  have slash: "CHR ''/'' \<notin> set ExecutorMetadataKey" by (simp add: ExecutorMetadataKey_def)
  have built: "BuildExecutorKey pre ns e t = ?P @ e @ CHR ''/'' # t"
    "BuildMetadataKey pre ns e m = ?P @ e @ CHR ''/'' # ExecutorMetadataKey @ CHR ''/'' # m" for e t m
    by (simp_all add: BuildExecutorKey_def BuildMetadataKey_def BuildExecutorIDPrefix_def)
  show ?thesis
  proof (cases "prefix ?P key")
    case False
    then show ?thesis by (auto simp: ParseExecutorKey_def built prefix_def)
  next
    case True
    then obtain r where key: "key = ?P @ r" by (auto simp: prefix_def)
    let ?S = "Split CHR ''/'' r"
    have parse: "ParseExecutorKey pre ns key = Inr (e, t) \<longleftrightarrow>
        ?S = [e, t] \<or> t = ExecutorMetadataKey \<and> (\<exists>p ps. ?S = e # t # p # ps)"
      unfolding ParseExecutorKey_def key Let_def by (cases ?S; cases "tl ?S"; cases "tl (tl ?S)") auto
    have "(\<exists>p ps. ?S = e # ExecutorMetadataKey # p # ps) \<longleftrightarrow>
        CHR ''/'' \<notin> set e \<and> (\<exists>m. r = e @ CHR ''/'' # ExecutorMetadataKey @ CHR ''/'' # m)"
    proof
      assume "\<exists>p ps. ?S = e # ExecutorMetadataKey # p # ps"
      then obtain p ps where "?S = e # ExecutorMetadataKey # p # ps" by blast
      then obtain r' where r': "r = e @ CHR ''/'' # r'" "CHR ''/'' \<notin> set e"
        "Split CHR ''/'' r' = ExecutorMetadataKey # p # ps" using Split_Cons by blast
      then obtain m where "r' = ExecutorMetadataKey @ CHR ''/'' # m" using Split_Cons by blast
      with r' show "CHR ''/'' \<notin> set e \<and> (\<exists>m. r = e @ CHR ''/'' # ExecutorMetadataKey @ CHR ''/'' # m)"
        by auto
    next
      assume "CHR ''/'' \<notin> set e \<and> (\<exists>m. r = e @ CHR ''/'' # ExecutorMetadataKey @ CHR ''/'' # m)"
      then show "\<exists>p ps. ?S = e # ExecutorMetadataKey # p # ps"
        using slash by (auto simp: Split_append) (metis Split_not_Nil list.exhaust)
    qed
    then show ?thesis unfolding parse unfolding built key Split_two by auto
  qed
qed

lemma BuildExecutorKey_inj:
  assumes "BuildExecutorKey pre ns e t = BuildExecutorKey pre ns e' t'"
    and "CHR ''/'' \<notin> set e" "CHR ''/'' \<notin> set e'" "CHR ''/'' \<notin> set t" "CHR ''/'' \<notin> set t'"
  shows "e = e' \<and> t = t'"
proof -
  have "Split CHR ''/'' (e @ CHR ''/'' # t) = Split CHR ''/'' (e' @ CHR ''/'' # t')"
    using assms(1) by (simp add: BuildExecutorKey_def BuildExecutorIDPrefix_def)
  then show ?thesis using assms(2-5) by (simp add: Split_append Split_no_sep)
qed

text \<open>
  The key spaces: a namespace without a slash has its own prefix, and the version keys, the
  executors, the drained shards and the drained hosts do not overlap.
\<close>

lemma slash_free_prefix:
  assumes "a @ CHR ''/'' # xs = b @ CHR ''/'' # ys" "CHR ''/'' \<notin> set a" "CHR ''/'' \<notin> set b"
  shows "a = b \<and> xs = ys"
  using assms by (induction a arbitrary: b) (auto simp: Cons_eq_append_conv append_eq_Cons_conv)

lemma prefix_append_iff: "prefix (a @ xs) (a @ ys) = prefix xs ys"
  by (simp add: prefix_def)

lemma namespace_prefixes:
  assumes "prefix (BuildNamespacePrefix pre ns) key" "prefix (BuildNamespacePrefix pre ns') key"
    and "CHR ''/'' \<notin> set ns" "CHR ''/'' \<notin> set ns'"
  shows "ns = ns'"
proof -
  from assms(1,2) obtain xs ys where "key = BuildNamespacePrefix pre ns @ xs" "key = BuildNamespacePrefix pre ns' @ ys"
    unfolding prefix_def by blast
  then have "ns @ CHR ''/'' # xs = ns' @ CHR ''/'' # ys" by (simp add: BuildNamespacePrefix_def)
  then show ?thesis using slash_free_prefix assms(3,4) by blast
qed

lemma version_key_outside:
  assumes "CHR ''/'' \<notin> set ns" "ns \<noteq> AssignmentVersionsDir"
  shows "\<not> prefix (BuildNamespacePrefix pre ns) (BuildAssignmentVersionKey pre ns')"
proof
  assume "prefix (BuildNamespacePrefix pre ns) (BuildAssignmentVersionKey pre ns')"
  then obtain xs where "BuildAssignmentVersionKey pre ns' = BuildNamespacePrefix pre ns @ xs"
    by (auto simp: prefix_def)
  then have "AssignmentVersionsDir @ CHR ''/'' # ns' = ns @ CHR ''/'' # xs"
    by (simp add: BuildAssignmentVersionKey_def BuildNamespacePrefix_def)
  moreover have "CHR ''/'' \<notin> set AssignmentVersionsDir" by (simp add: AssignmentVersionsDir_def)
  ultimately show False using slash_free_prefix assms by blast
qed

lemma key_spaces_disjoint:
  "prefix (BuildExecutorsPrefix pre ns) key \<Longrightarrow> \<not> prefix (BuildDrainedShardsPrefix pre ns) key"
  "prefix (BuildExecutorsPrefix pre ns) key \<Longrightarrow> \<not> prefix (BuildDrainedHostsPrefix pre ns) key"
  "prefix (BuildDrainedShardsPrefix pre ns) key \<Longrightarrow> \<not> prefix (BuildDrainedHostsPrefix pre ns) key"
  by (auto simp: BuildExecutorsPrefix_def BuildDrainedShardsPrefix_def BuildDrainedHostsPrefix_def prefix_def)

lemma namespace_prefix_of:
  "prefix (BuildNamespacePrefix pre ns) (BuildExecutorsPrefix pre ns)"
  "prefix (BuildNamespacePrefix pre ns) (BuildDrainedShardsPrefix pre ns)"
  "prefix (BuildNamespacePrefix pre ns) (BuildDrainedHostsPrefix pre ns)"
  "prefix (BuildExecutorsPrefix pre ns) (BuildExecutorIDPrefix pre ns e)"
  "prefix (BuildExecutorIDPrefix pre ns e) (BuildExecutorKey pre ns e t)"
  "prefix (BuildExecutorIDPrefix pre ns e) (BuildMetadataKey pre ns e m)"
  "prefix (BuildDrainedShardsPrefix pre ns) (BuildDrainedShardKey pre ns s)"
  "prefix (BuildDrainedHostsPrefix pre ns) (BuildDrainedHostKey pre ns h)"
  by (simp_all add: BuildExecutorsPrefix_def BuildDrainedShardsPrefix_def BuildDrainedHostsPrefix_def
      BuildExecutorIDPrefix_def BuildExecutorKey_def BuildMetadataKey_def BuildDrainedShardKey_def
      BuildDrainedHostKey_def)

lemma executor_prefixes:
  assumes "prefix (BuildExecutorIDPrefix pre ns e) key" "prefix (BuildExecutorIDPrefix pre ns e') key"
    and "CHR ''/'' \<notin> set e" "CHR ''/'' \<notin> set e'"
  shows "e = e'"
proof -
  from assms(1,2) obtain xs ys where "key = BuildExecutorIDPrefix pre ns e @ xs" "key = BuildExecutorIDPrefix pre ns e' @ ys"
    unfolding prefix_def by blast
  then have "e @ CHR ''/'' # xs = e' @ CHR ''/'' # ys" by (simp add: BuildExecutorIDPrefix_def)
  then show ?thesis using slash_free_prefix assms(3,4) by blast
qed

section \<open>Properties\<close>


text \<open>
  Draining keys survive a round trip: exactly the keys built from valid shard IDs and host
  names parse, to that ID or name; and a normalised host name is valid unless it is empty.
\<close>
theorem drained_key_roundtrip:
  "(ParseDrainedShardKey pre ns key = Inr s \<longleftrightarrow>
      key = BuildDrainedShardKey pre ns s \<and> ValidateShardID s = Inr ())
   \<and> (ParseDrainedHostKey pre ns key = Inr h \<longleftrightarrow> key = BuildDrainedHostKey pre ns h \<and> Validate h = Inr ())
   \<and> (Validate (Normalize raw) = Inr () \<longleftrightarrow> raw \<noteq> []) \<and> Normalize (Normalize raw) = Normalize raw"
proof -
  have "CHR ''/'' \<notin> set (Normalize raw)" "CHR ''@'' \<notin> set (Normalize raw)" "length (Normalize raw) \<le> MaxLength"
    "Normalize raw = [] \<longleftrightarrow> raw = []"
    using ReplaceAll_not_in [of "CHR ''/''" "CHR ''_''" raw]
      ReplaceAll_not_in [of "CHR ''@''" "CHR ''_''" "ReplaceAll CHR ''/'' CHR ''_'' raw"]
      ReplaceAll_keeps [of "CHR ''/''" "CHR ''_''" "ReplaceAll CHR ''/'' CHR ''_'' raw" "CHR ''@''"]
    by (auto simp: Normalize_def Let_def MaxLength_def dest: in_set_takeD)
       (auto simp: ReplaceAll_def)
  moreover from this have "Normalize (Normalize raw) = Normalize raw"
    by (simp add: Normalize_def [of "Normalize raw"] ReplaceAll_id)
  ultimately show ?thesis
    by (auto simp: ParseDrainedShardKey_iff ParseDrainedHostKey_iff ValidateShardID_Inr Validate_Inr)
qed

end
