(* ===== verification/Etcd.thy ===== *)
theory Etcd
  imports EtcdKeys
begin

text \<open>
  The part of the etcd client the store calls (\<open>clientv3.KV\<close>, third-party): the values that
  cross the interface, the client as a record of functions over a database state, and what the
  code relies on, as the locale \<open>etcd_client\<close>.

  \<^item> A value is an opaque byte string of type \<open>'v\<close>.
  \<^item> The laws are etcd's documented key-value API: a transaction is atomic, it compares against
    the state it starts from, a missing key has revision 0, every writing transaction advances
    the store revision by one and stamps the keys it puts with it, and a prefix read returns
    the keys with that prefix in ascending order.
  \<^item> A call that returns an error may or may not have taken effect.
\<close>

section \<open>The interface\<close>

record 'v KeyValue =
  kv_Key :: string
  kv_Value :: 'v
  kv_ModRevision :: int

datatype 'v Cmp = CmpModRevision string int | CmpValue string 'v

datatype 'v Op =
    OpGet string
  | OpGetPrefix string
  | OpPut string 'v
  | OpDelete string
  | OpDeletePrefix string
  | OpTxn "'v Cmp list" "'v Op list" "'v Op list"

datatype 'v OpResponse =
    ResponseRange "'v KeyValue list"
  | ResponsePut
  | ResponseDeleteRange int
  | ResponseTxn bool "'v OpResponse list"

record 'v Txn =
  If :: "'v Cmp list"
  Then :: "'v Op list"
  Else :: "'v Op list"

definition empty_Txn :: "'v Txn" where
  "empty_Txn = \<lparr>If = [], Then = [], Else = []\<rparr>"

record 'v TxnResponse =
  Succeeded :: bool
  Responses :: "'v OpResponse list"
  HeaderRevision :: int

record ('db, 'v) Client =
  Commit :: "'v Txn \<Rightarrow> 'db \<Rightarrow> 'v TxnResponse result \<times> 'db"
  GetPrefix :: "string \<Rightarrow> 'db \<Rightarrow> 'v KeyValue list result"
  Put :: "string \<Rightarrow> 'v \<Rightarrow> 'db \<Rightarrow> unit result \<times> 'db"
  Delete :: "string \<Rightarrow> 'db \<Rightarrow> unit result \<times> 'db"

section \<open>The state of the store and the meaning of a transaction\<close>

type_synonym 'v kvs = "(string, 'v \<times> int) gomap"

record 'v etcd =
  et_kvs :: "'v kvs"
  et_revision :: int

definition mod_revision :: "'v kvs \<Rightarrow> string \<Rightarrow> int" where
  "mod_revision m k = (case mget m k of None \<Rightarrow> 0 | Some (_, r) \<Rightarrow> r)"

fun holds_cmp :: "'v kvs \<Rightarrow> 'v Cmp \<Rightarrow> bool" where
  "holds_cmp m (CmpModRevision k r) = (mod_revision m k = r)"
| "holds_cmp m (CmpValue k v) = (map_option fst (mget m k) = Some v)"

definition range_prefix :: "string \<Rightarrow> 'v kvs \<Rightarrow> 'v KeyValue list" where
  "range_prefix p m =
     map (\<lambda>(k, v, r). \<lparr>kv_Key = k, kv_Value = v, kv_ModRevision = r\<rparr>)
       (sort_key fst (filter (\<lambda>(k, _). prefix p k) m))"

definition range_key :: "string \<Rightarrow> 'v kvs \<Rightarrow> 'v KeyValue list" where
  "range_key k m = (case mget m k of None \<Rightarrow> []
     | Some (v, r) \<Rightarrow> [\<lparr>kv_Key = k, kv_Value = v, kv_ModRevision = r\<rparr>])"

definition delete_prefix :: "string \<Rightarrow> 'v kvs \<Rightarrow> 'v kvs" where
  "delete_prefix p m = filter (\<lambda>(k, _). \<not> prefix p k) m"

text \<open>
  The effect of an operation at revision \<open>r\<close>; \<open>m\<^sub>0\<close> is the state at the start of the
  transaction, which the comparisons of nested transactions read.
\<close>

fun run_op :: "'v kvs \<Rightarrow> int \<Rightarrow> 'v Op \<Rightarrow> 'v kvs \<Rightarrow> 'v OpResponse \<times> 'v kvs"
  and run_ops :: "'v kvs \<Rightarrow> int \<Rightarrow> 'v Op list \<Rightarrow> 'v kvs \<Rightarrow> 'v OpResponse list \<times> 'v kvs" where
  "run_op m\<^sub>0 r (OpGet k) m = (ResponseRange (range_key k m), m)"
| "run_op m\<^sub>0 r (OpGetPrefix p) m = (ResponseRange (range_prefix p m), m)"
| "run_op m\<^sub>0 r (OpPut k v) m = (ResponsePut, mput k (v, r) m)"
| "run_op m\<^sub>0 r (OpDelete k) m = (ResponseDeleteRange (if mhas m k then 1 else 0), mdel k m)"
| "run_op m\<^sub>0 r (OpDeletePrefix p) m =
     (ResponseDeleteRange (int (length (filter (\<lambda>(k, _). prefix p k) m))), delete_prefix p m)"
| "run_op m\<^sub>0 r (OpTxn cmps ops\<^sub>1 ops\<^sub>2) m =
     (if list_all (holds_cmp m\<^sub>0) cmps
      then (case run_ops m\<^sub>0 r ops\<^sub>1 m of (rs, m') \<Rightarrow> (ResponseTxn True rs, m'))
      else (case run_ops m\<^sub>0 r ops\<^sub>2 m of (rs, m') \<Rightarrow> (ResponseTxn False rs, m')))"
| "run_ops m\<^sub>0 r [] m = ([], m)"
| "run_ops m\<^sub>0 r (op # ops) m =
     (case run_op m\<^sub>0 r op m of (x, m') \<Rightarrow>
        (case run_ops m\<^sub>0 r ops m' of (xs, m'') \<Rightarrow> (x # xs, m'')))"

text \<open>A transaction that writes nothing keeps the revision.\<close>

fun wrote :: "'v OpResponse \<Rightarrow> bool" where
  "wrote (ResponseRange _) = False"
| "wrote ResponsePut = True"
| "wrote (ResponseDeleteRange n) = (0 < n)"
| "wrote (ResponseTxn _ rs) = list_ex wrote rs"

definition run_txn :: "'v Txn \<Rightarrow> 'v etcd \<Rightarrow> 'v TxnResponse \<times> 'v etcd" where
  "run_txn t s =
     (let m = et_kvs s;
          ok = list_all (holds_cmp m) (If t);
          (rs, m') = run_ops m (et_revision s + 1) (if ok then Then t else Else t) m;
          r = (if list_ex wrote rs then et_revision s + 1 else et_revision s)
      in (\<lparr>Succeeded = ok, Responses = rs, HeaderRevision = r\<rparr>, \<lparr>et_kvs = m', et_revision = r\<rparr>))"

text \<open>Revisions of keys lie between 1 and the revision of the store.\<close>

definition wf_etcd :: "'v etcd \<Rightarrow> bool" where
  "wf_etcd s = (wf_map (et_kvs s) \<and> 0 \<le> et_revision s
     \<and> list_all (\<lambda>(_, _, r). 0 < r \<and> r \<le> et_revision s) (et_kvs s))"

abbreviation single_op :: "'v Op \<Rightarrow> 'v Txn" where
  "single_op op \<equiv> \<lparr>If = [], Then = [op], Else = []\<rparr>"

locale etcd_client =
  fixes C :: "('db, 'v) Client"
    and view :: "'db \<Rightarrow> 'v etcd"
  assumes view_wf: "wf_etcd (view db)"
    and commit_done: "Commit C t db = (Inr resp, db') \<Longrightarrow> run_txn t (view db) = (resp, view db')"
    and commit_error: "Commit C t db = (Inl e, db') \<Longrightarrow>
      view db' = view db \<or> view db' = snd (run_txn t (view db))"
    and get_done: "GetPrefix C p db = Inr kvs \<Longrightarrow> kvs = range_prefix p (et_kvs (view db))"
    and put_done: "Put C k v db = (Inr u, db') \<Longrightarrow> view db' = snd (run_txn (single_op (OpPut k v)) (view db))"
    and put_error: "Put C k v db = (Inl e, db') \<Longrightarrow>
      view db' = view db \<or> view db' = snd (run_txn (single_op (OpPut k v)) (view db))"
    and delete_done: "Delete C k db = (Inr u, db') \<Longrightarrow> view db' = snd (run_txn (single_op (OpDelete k)) (view db))"
    and delete_error: "Delete C k db = (Inl e, db') \<Longrightarrow>
      view db' = view db \<or> view db' = snd (run_txn (single_op (OpDelete k)) (view db))"

section \<open>What a transaction leaves behind\<close>

text \<open>The effect of an operation on one key; nested transactions are resolved against \<open>m\<^sub>0\<close>.\<close>

fun op_effect :: "'v kvs \<Rightarrow> int \<Rightarrow> 'v Op \<Rightarrow> string \<Rightarrow> ('v \<times> int) option \<Rightarrow> ('v \<times> int) option"
  and ops_effect :: "'v kvs \<Rightarrow> int \<Rightarrow> 'v Op list \<Rightarrow> string \<Rightarrow> ('v \<times> int) option \<Rightarrow> ('v \<times> int) option" where
  "op_effect m\<^sub>0 r (OpGet _) k old = old"
| "op_effect m\<^sub>0 r (OpGetPrefix _) k old = old"
| "op_effect m\<^sub>0 r (OpPut k' v) k old = (if k = k' then Some (v, r) else old)"
| "op_effect m\<^sub>0 r (OpDelete k') k old = (if k = k' then None else old)"
| "op_effect m\<^sub>0 r (OpDeletePrefix p) k old = (if prefix p k then None else old)"
| "op_effect m\<^sub>0 r (OpTxn cmps ops\<^sub>1 ops\<^sub>2) k old =
     ops_effect m\<^sub>0 r (if list_all (holds_cmp m\<^sub>0) cmps then ops\<^sub>1 else ops\<^sub>2) k old"
| "ops_effect m\<^sub>0 r [] k old = old"
| "ops_effect m\<^sub>0 r (op # ops) k old = ops_effect m\<^sub>0 r ops k (op_effect m\<^sub>0 r op k old)"

lemma ops_effect_append [simp]:
  "ops_effect m\<^sub>0 r (xs @ ys) k old = ops_effect m\<^sub>0 r ys k (ops_effect m\<^sub>0 r xs k old)"
  by (induction xs arbitrary: old) simp_all

lemma mget_delete_prefix: "mget (delete_prefix p m) k = (if prefix p k then None else mget m k)"
  by (induction m) (auto simp: delete_prefix_def)

lemma mget_run_op: "mget (snd (run_op m\<^sub>0 r op m)) k = op_effect m\<^sub>0 r op k (mget m k)"
  and mget_run_ops: "mget (snd (run_ops m\<^sub>0 r ops m)) k = ops_effect m\<^sub>0 r ops k (mget m k)"
  by (induction m\<^sub>0 r op m and m\<^sub>0 r ops m rule: run_op_run_ops.induct)
     (auto simp: mget_mput mget_mdel mget_delete_prefix split: prod.splits)

lemma wf_delete_prefix [simp]: "wf_map m \<Longrightarrow> wf_map (delete_prefix p m)"
  by (auto simp: wf_map_def delete_prefix_def distinct_map_filter)

lemma wf_run_op: "wf_map m \<Longrightarrow> wf_map (snd (run_op m\<^sub>0 r op m))"
  and wf_run_ops: "wf_map m \<Longrightarrow> wf_map (snd (run_ops m\<^sub>0 r ops m))"
  by (induction m\<^sub>0 r op m and m\<^sub>0 r ops m rule: run_op_run_ops.induct) (auto split: prod.splits)

lemma length_run_ops [simp]: "length (fst (run_ops m\<^sub>0 r ops m)) = length ops"
  by (induction ops arbitrary: m) (auto split: prod.splits simp: split_beta)

lemma effect_revision:
  "op_effect m\<^sub>0 r op k old = Some (v, r') \<Longrightarrow> old = Some (v, r') \<or> r' = r"
  "ops_effect m\<^sub>0 r ops k old = Some (v, r') \<Longrightarrow> old = Some (v, r') \<or> r' = r"
  by (induction m\<^sub>0 r op k old and m\<^sub>0 r ops k old rule: op_effect_ops_effect.induct)
     (auto split: if_splits)

lemma mdel_absent: "\<not> mhas m k \<Longrightarrow> mdel k m = m"
  by (induction m) (auto simp: mhas_mkeys)

lemma no_write_op: "\<not> wrote (fst (run_op m\<^sub>0 r op m)) \<Longrightarrow> snd (run_op m\<^sub>0 r op m) = m"
  and no_write_ops: "\<not> list_ex wrote (fst (run_ops m\<^sub>0 r ops m)) \<Longrightarrow> snd (run_ops m\<^sub>0 r ops m) = m"
proof (induction m\<^sub>0 r op m and m\<^sub>0 r ops m rule: run_op_run_ops.induct)
  case (5 m\<^sub>0 r p m)
  then have "filter (\<lambda>(k, _). prefix p k) m = []" by simp
  then show ?case by (auto simp: delete_prefix_def filter_empty_conv intro!: filter_True)
qed (auto simp: mdel_absent split: prod.splits if_splits)

lemma run_txn_view:
  assumes "run_txn t s = (resp, s')"
  shows "mget (et_kvs s') k = ops_effect (et_kvs s) (et_revision s + 1)
      (if Succeeded resp then Then t else Else t) k (mget (et_kvs s) k)"
    and "Succeeded resp \<longleftrightarrow> list_all (holds_cmp (et_kvs s)) (If t)"
    and "HeaderRevision resp = et_revision s'"
    and "et_revision s \<le> et_revision s'" and "et_revision s' \<le> et_revision s + 1"
    and "length (Responses resp) = length (if Succeeded resp then Then t else Else t)"
  using assms by (auto simp: run_txn_def Let_def mget_run_ops [symmetric] split: prod.splits if_splits)
    (metis fst_conv length_run_ops)+

lemma wf_run_txn:
  assumes "wf_etcd s" "run_txn t s = (resp, s')"
  shows "wf_etcd s'"
proof -
  let ?ops = "if Succeeded resp then Then t else Else t"
  have s': "et_kvs s' = snd (run_ops (et_kvs s) (et_revision s + 1) ?ops (et_kvs s))"
    and r': "et_revision s' = (if list_ex wrote (fst (run_ops (et_kvs s) (et_revision s + 1) ?ops (et_kvs s)))
        then et_revision s + 1 else et_revision s)"
    using assms(2) by (auto simp: run_txn_def Let_def split: prod.splits if_splits)
  have wf: "wf_map (et_kvs s')" unfolding s' using assms(1) by (simp add: wf_run_ops wf_etcd_def)
  have old: "0 < r \<and> r \<le> et_revision s" if "mget (et_kvs s) k = Some (v, r)" for k v r
    using assms(1) map_of_SomeD [OF that] by (auto simp: wf_etcd_def list_all_iff)
  have "0 < r \<and> r \<le> et_revision s'" if k: "mget (et_kvs s') k = Some (v, r)" for k v r
  proof (cases "et_kvs s' = et_kvs s")
    case True
    then show ?thesis using old [of k v r] k run_txn_view(4) [OF assms(2)] by simp
  next
    case False
    then have "et_revision s' = et_revision s + 1" using r' s' no_write_ops by metis
    moreover have "mget (et_kvs s) k = Some (v, r) \<or> r = et_revision s + 1"
      using k run_txn_view(1) [OF assms(2)] effect_revision(2) by metis
    moreover have "0 \<le> et_revision s" using assms(1) by (simp add: wf_etcd_def)
    ultimately show ?thesis using old [of k v r] by auto
  qed
  then show ?thesis
    using wf assms(1) run_txn_view(4) [OF assms(2)]
    by (auto simp: wf_etcd_def list_all_iff mget_eq_iff [symmetric])
qed

context etcd_client
begin

text \<open>Whatever a call returns, the store it leaves is the old one or that of the transaction.\<close>

lemma commit_view:
  "Commit C t db = (res, db') \<Longrightarrow> view db' = view db \<or> view db' = snd (run_txn t (view db))"
  using commit_done commit_error by (cases res) (metis snd_conv)+

lemma put_view:
  "Put C k v db = (res, db') \<Longrightarrow>
     view db' = view db \<or> view db' = snd (run_txn (single_op (OpPut k v)) (view db))"
  using put_done put_error by (cases res) blast+

lemma delete_view:
  "Delete C k db = (res, db') \<Longrightarrow>
     view db' = view db \<or> view db' = snd (run_txn (single_op (OpDelete k)) (view db))"
  using delete_done delete_error by (cases res) blast+

lemma commit_revision: "Commit C t db = (res, db') \<Longrightarrow> et_revision (view db) \<le> et_revision (view db')"
  using commit_view run_txn_view(4) [of t "view db" "fst (run_txn t (view db))"] by (metis order_refl prod.collapse)

lemma commit_get:
  assumes "Commit C t db = (Inr resp, db')"
  shows "mget (et_kvs (view db')) k = ops_effect (et_kvs (view db)) (et_revision (view db) + 1)
      (if Succeeded resp then Then t else Else t) k (mget (et_kvs (view db)) k)"
    and "Succeeded resp \<longleftrightarrow> list_all (holds_cmp (et_kvs (view db))) (If t)"
    and "HeaderRevision resp = et_revision (view db')"
  using run_txn_view [OF commit_done [OF assms]] by simp_all

end

section \<open>A client that follows the documentation\<close>

text \<open>
  A transaction that would write a key twice is rejected, as etcd does. A state that breaks the
  revision bounds reads as the empty store.
\<close>

definition empty_etcd :: "'v etcd" where
  "empty_etcd = \<lparr>et_kvs = [], et_revision = 0\<rparr>"

definition as_etcd :: "'v etcd \<Rightarrow> 'v etcd" where
  "as_etcd s = (if wf_etcd s then s else empty_etcd)"

fun put_keys :: "'v Op list \<Rightarrow> string list" where
  "put_keys [] = []"
| "put_keys (OpPut k _ # ops) = k # put_keys ops"
| "put_keys (_ # ops) = put_keys ops"

fun deletes_key :: "string \<Rightarrow> 'v Op \<Rightarrow> bool" where
  "deletes_key k (OpDelete k') = (k = k')"
| "deletes_key k (OpDeletePrefix p) = prefix p k"
| "deletes_key k _ = False"

fun valid_ops :: "'v Op list \<Rightarrow> bool" where
  "valid_ops ops = (distinct (put_keys ops)
     \<and> list_all (\<lambda>k. \<not> list_ex (deletes_key k) ops) (put_keys ops)
     \<and> list_all (\<lambda>op. case op of OpTxn _ ops\<^sub>1 ops\<^sub>2 \<Rightarrow> distinct (put_keys ops\<^sub>1) \<and> distinct (put_keys ops\<^sub>2)
          \<and> list_all (\<lambda>k. \<not> list_ex (deletes_key k) ops\<^sub>1) (put_keys ops\<^sub>1) | _ \<Rightarrow> True) ops)"

definition reference_client :: "('v etcd, 'v) Client" where
  "reference_client =
     \<lparr>Commit = (\<lambda>t s. if valid_ops (Then t) \<and> valid_ops (Else t)
        then map_prod Inr id (run_txn t (as_etcd s))
        else (Inl (ErrorString ''etcdserver: duplicate key given in txn request''), s)),
      GetPrefix = (\<lambda>p s. Inr (range_prefix p (et_kvs (as_etcd s)))),
      Put = (\<lambda>k v s. (Inr (), snd (run_txn (single_op (OpPut k v)) (as_etcd s)))),
      Delete = (\<lambda>k s. (Inr (), snd (run_txn (single_op (OpDelete k)) (as_etcd s))))\<rparr>"

lemma wf_as_etcd: "wf_etcd (as_etcd s)"
  by (simp add: as_etcd_def empty_etcd_def wf_etcd_def)

lemma as_etcd_run: "as_etcd (snd (run_txn t (as_etcd s))) = snd (run_txn t (as_etcd s))"
  using wf_run_txn [OF wf_as_etcd, of t s] by (metis as_etcd_def prod.collapse)

interpretation reference: etcd_client reference_client as_etcd
proof unfold_locales
  show "wf_etcd (as_etcd db)" for db :: "'a etcd" by (rule wf_as_etcd)
  show "run_txn t (as_etcd db) = (resp, as_etcd db')"
    if "Commit reference_client t db = (Inr resp, db')" for t resp and db db' :: "'a etcd"
    using that as_etcd_run [of t db]
    by (auto simp: reference_client_def map_prod_def split: if_splits prod.splits)
qed (auto simp: reference_client_def as_etcd_run map_prod_def split: if_splits prod.splits)

end
