(* ===== verification/State.thy ===== *)
theory State
  imports Types
begin

text \<open>
  The state the service persists for a namespace, \<open>store/state.go\<close>: heartbeats, assignments,
  handover and shard statistics, drained shards and drained hosts, with the views the leader
  and the assigner take of it. The struct \<open>NamespaceState\<close> embeds \<open>AssignmentState\<close>; here it
  is a record extension.
\<close>

section \<open>Data\<close>

record HeartbeatState =
  LastHeartbeat :: gotime
  hb_Status :: ExecutorStatus
  ReportedShards :: "(string, ShardStatusReport) gomap"
  hb_Metadata :: "(string, string) gomap"
  hb_HostMetadata :: "HostMetadata option"

record Executor =
  exec_ID :: string
  exec_Heartbeat :: HeartbeatState
  HostDrained :: bool

record ShardHandoverStats =
  PreviousExecutorLastHeartbeatTime :: gotime
  sh_HandoverType :: HandoverType

record ShardStatistics =
  SmoothedLoad :: float64
  LastUpdateTime :: gotime
  LastMoveTime :: gotime

record AssignedState =
  AssignedShards :: "(string, ShardAssignment) gomap"
  as_HandoverStats :: "(string, ShardHandoverStats) gomap"
  LastUpdated :: gotime
  ModRevision :: int

record ExecutorState =
  es_Heartbeat :: "HeartbeatState option"
  es_Assignment :: "AssignedState option"
  es_Statistics :: "(string, ShardStatistics) gomap"

record DrainedHost =
  dh_Hostname :: string
  DrainedAt :: gotime
  DrainedBy :: string
  dh_Reason :: string

record ShardState =
  ss_ExecutorID :: string

record ExecutorShardStatistics =
  ess_ExecutorID :: string
  ess_Statistics :: "(string, ShardStatistics) gomap"

record ShardOwner =
  so_ExecutorID :: string
  so_Metadata :: "(string, string) gomap"

record AssignmentState =
  ExecutorMetadata :: "(string, (string, string) gomap) gomap"
  ShardAssignments :: "(string, AssignedState) gomap"
  DrainedShards :: gostrset
  Revision :: int
  AssignmentRevision :: int

record NamespaceState = AssignmentState +
  Executors :: "(string, HeartbeatState) gomap"
  ShardStats :: "(string, ShardStatistics) gomap"
  DrainedHosts :: "(string, DrainedHost) gomap"

text \<open>The zero values that \<open>m[k]\<close> gives for an absent key.\<close>

definition zero_AssignedState :: AssignedState where
  "zero_AssignedState =
     \<lparr>AssignedShards = [], as_HandoverStats = [], LastUpdated = 0, ModRevision = 0\<rparr>"

definition zero_ShardStatistics :: ShardStatistics where
  "zero_ShardStatistics = \<lparr>SmoothedLoad = 0, LastUpdateTime = 0, LastMoveTime = 0\<rparr>"

section \<open>Operations\<close>

definition heartbeat_Hostname :: "HeartbeatState \<Rightarrow> string" where
  "heartbeat_Hostname h = (case hb_HostMetadata h of None \<Rightarrow> [] | Some m \<Rightarrow> HostName m)"

definition executor_Status :: "Executor \<Rightarrow> ExecutorStatus" where
  "executor_Status e = hb_Status (exec_Heartbeat e)"

definition executor_Hostname :: "Executor \<Rightarrow> string" where
  "executor_Hostname e = heartbeat_Hostname (exec_Heartbeat e)"

definition IsAssignable :: "Executor \<Rightarrow> (string, int) gomap \<Rightarrow> bool" where
  "IsAssignable e staleExecutors =
     (if executor_Status e \<noteq> ExecutorStatusACTIVE \<or> HostDrained e then False
      else \<not> mhas staleExecutors (exec_ID e))"

definition IsDraining :: "Executor \<Rightarrow> bool" where
  "IsDraining e =
     (let status = executor_Status e
      in status = ExecutorStatusDRAINING \<or> status = ExecutorStatusDRAINED \<or> HostDrained e)"

definition CountExecutorsByStatus :: "NamespaceState \<Rightarrow> (ExecutorStatus, nat) gomap" where
  "CountExecutorsByStatus ns =
     fold (\<lambda>(_, executor) counts.
             mput (hb_Status executor) (mzero 0 counts (hb_Status executor) + 1) counts)
       (Executors ns) []"

text \<open>A shard with two owners gets the one the \<open>range\<close> visits last.\<close>

definition ShardOwners :: "order \<Rightarrow> NamespaceState \<Rightarrow> (string, string) gomap" where
  "ShardOwners ord ns =
     fold (\<lambda>(executorID, assigned) owners.
             fold (\<lambda>shardID owners. mput shardID executorID owners)
               (mkeys (AssignedShards assigned)) owners)
       (mrange ord (ShardAssignments ns)) []"

definition IsShardDrained :: "('a) AssignmentState_scheme \<Rightarrow> string \<Rightarrow> bool" where
  "IsShardDrained ns shardID = (shardID \<in> set (DrainedShards ns))"

definition IsHostDrained :: "NamespaceState \<Rightarrow> string \<Rightarrow> bool" where
  "IsHostDrained ns hostname = mhas (DrainedHosts ns) hostname"

definition newExecutor :: "NamespaceState \<Rightarrow> string \<Rightarrow> HeartbeatState \<Rightarrow> Executor" where
  "newExecutor ns executorID heartbeat =
     (let hostname = heartbeat_Hostname heartbeat
      in \<lparr>exec_ID = executorID, exec_Heartbeat = heartbeat,
          HostDrained = (hostname \<noteq> [] \<and> IsHostDrained ns hostname)\<rparr>)"

definition ns_Executor :: "NamespaceState \<Rightarrow> string \<Rightarrow> Executor option" where
  "ns_Executor ns executorID =
     (case mget (Executors ns) executorID of
        None \<Rightarrow> None
      | Some heartbeat \<Rightarrow> Some (newExecutor ns executorID heartbeat))"

text \<open>The loop's result is sorted, so the order of the \<open>range\<close> does not matter.\<close>

definition AssignableExecutorIDs :: "NamespaceState \<Rightarrow> (string, int) gomap \<Rightarrow> string list" where
  "AssignableExecutorIDs ns staleExecutors =
     sort (map fst (filter (\<lambda>(executorID, heartbeat).
                              IsAssignable (newExecutor ns executorID heartbeat) staleExecutors)
                      (Executors ns)))"

section \<open>Well-formedness\<close>

text \<open>Every map of the state has distinct keys, as every Go map has.\<close>

definition wf_assigned :: "AssignedState \<Rightarrow> bool" where
  "wf_assigned a = (wf_map (AssignedShards a) \<and> wf_map (as_HandoverStats a))"

definition wf_state :: "NamespaceState \<Rightarrow> bool" where
  "wf_state ns =
     (wf_map (ShardAssignments ns) \<and> list_all (\<lambda>(_, a). wf_assigned a) (ShardAssignments ns)
      \<and> wf_map (Executors ns) \<and> list_all (\<lambda>(_, h). wf_map (ReportedShards h)) (Executors ns)
      \<and> wf_map (ShardStats ns) \<and> wf_map (DrainedHosts ns) \<and> wf_map (ExecutorMetadata ns)
      \<and> distinct (DrainedShards ns))"

text \<open>The multiset of assigned shards: a shard with two owners counts twice.\<close>

definition assigned_shards :: "(string, AssignedState) gomap \<Rightarrow> string multiset" where
  "assigned_shards m = mset (concat (map (\<lambda>(_, a). mkeys (AssignedShards a)) m))"

definition single_owner :: "(string, AssignedState) gomap \<Rightarrow> bool" where
  "single_owner m = distinct (concat (map (\<lambda>(_, a). mkeys (AssignedShards a)) m))"

definition assigned_slices :: "(string, AssignedState) gomap \<Rightarrow> (string, string list) gomap" where
  "assigned_slices m = map (\<lambda>(e, a). (e, mkeys (AssignedShards a))) m"

section \<open>Lemmas\<close>

lemma wf_stateD:
  assumes "wf_state ns"
  shows "wf_map (ShardAssignments ns)" "wf_map (Executors ns)" "wf_map (ShardStats ns)"
    "wf_map (DrainedHosts ns)" "distinct (DrainedShards ns)"
  using assms by (auto simp: wf_state_def)

lemma wf_state_assigned:
  "wf_state ns \<Longrightarrow> (e, a) \<in> set (ShardAssignments ns) \<Longrightarrow> wf_map (AssignedShards a)"
  by (auto simp: wf_state_def wf_assigned_def list_all_iff)

lemma wf_state_reported:
  "wf_state ns \<Longrightarrow> (e, h) \<in> set (Executors ns) \<Longrightarrow> wf_map (ReportedShards h)"
  by (auto simp: wf_state_def list_all_iff)

lemma set_AssignableExecutorIDs:
  assumes "wf_state ns"
  shows "e \<in> set (AssignableExecutorIDs ns stale) \<longleftrightarrow>
    (\<exists>h. mget (Executors ns) e = Some h \<and> hb_Status h = ExecutorStatusACTIVE
         \<and> \<not> (heartbeat_Hostname h \<noteq> [] \<and> IsHostDrained ns (heartbeat_Hostname h))
         \<and> \<not> mhas stale e)"
  by (auto simp: AssignableExecutorIDs_def IsAssignable_def newExecutor_def executor_Status_def
      Let_def mget_eq_iff [OF wf_stateD(2) [OF assms]] split: if_splits intro: rev_image_eqI)

lemma distinct_AssignableExecutorIDs:
  "wf_state ns \<Longrightarrow> distinct (AssignableExecutorIDs ns stale)"
  by (auto simp: AssignableExecutorIDs_def wf_state_def wf_map_def intro: distinct_map_filter)

lemma sorted_AssignableExecutorIDs: "sorted (AssignableExecutorIDs ns stale)"
  by (simp add: AssignableExecutorIDs_def)

lemma assigned_slices_simps [simp]:
  "mkeys (assigned_slices m) = mkeys m"
  "all_shards (assigned_slices m) = assigned_shards m"
  "disjoint_slices (assigned_slices m) = single_owner m"
  by (simp_all add: assigned_slices_def assigned_shards_def all_shards_def disjoint_slices_def
      single_owner_def case_prod_beta' comp_def)

lemma in_assigned_shards:
  "s \<in># assigned_shards m \<longleftrightarrow> (\<exists>(e, a) \<in> set m. mhas (AssignedShards a) s)"
  by (force simp: assigned_shards_def mhas_mkeys)

subsection \<open>Shard owners\<close>

lemma single_owner_unique:
  assumes "single_owner m" "wf_map m" "(e, a) \<in> set m" "mhas (AssignedShards a) k" "(e', a') \<in> set m"
    "mhas (AssignedShards a') k"
  shows "e = e'"
  using assms unfolding single_owner_def mhas_mkeys
proof (induction m)
  case (Cons x m)
  obtain e\<^sub>0 a\<^sub>0 where x: "x = (e\<^sub>0, a\<^sub>0)" by force
  have no: "k \<notin> set (mkeys (AssignedShards a\<^sub>0))" if "(f, b) \<in> set m" "k \<in> set (mkeys (AssignedShards b))" for f b
  proof -
    have "k \<in> set (concat (map (\<lambda>(_, a). mkeys (AssignedShards a)) m))" using that by force
    then show ?thesis using Cons.prems(1) by (auto simp: x simp del: set_map set_concat)
  qed
  consider "(e, a) = x" "(e', a') = x" | "(e, a) = x" "(e', a') \<in> set m" | "(e, a) \<in> set m" "(e', a') = x"
    | "(e, a) \<in> set m" "(e', a') \<in> set m" using Cons.prems(3,5) by auto
  then show ?case
  proof cases
    case 1
    then show ?thesis by (metis Pair_inject)
  next
    case 2
    then show ?thesis using no [OF 2(2) Cons.prems(6)] Cons.prems(4) by (simp add: x)
  next
    case 3
    then show ?thesis using no [OF 3(1) Cons.prems(4)] Cons.prems(6) by (simp add: x)
  next
    case 4
    then show ?thesis using Cons.IH Cons.prems(1,2,4,6) by (simp add: x)
  qed
qed simp

lemma mget_fold_mput:
  "mget (fold (\<lambda>k m. mput k v m) ks m) x = (if x \<in> set ks then Some v else mget m x)"
  by (induction ks arbitrary: m) (auto simp: gomap_simps)

lemma wf_fold_mput: "wf_map m \<Longrightarrow> wf_map (fold (\<lambda>k m. mput k v m) ks m)"
  by (induction ks arbitrary: m) auto

definition owners_fold ::
  "(string \<times> AssignedState) list \<Rightarrow> (string, string) gomap \<Rightarrow> (string, string) gomap" where
  "owners_fold as = fold (\<lambda>(executorID, assigned) owners.
       fold (\<lambda>shardID owners. mput shardID executorID owners)
         (mkeys (AssignedShards assigned)) owners) as"

lemma owners_fold_simps [simp]:
  "owners_fold [] m = m"
  "owners_fold ((e, a) # as) m =
     owners_fold as (fold (\<lambda>k m. mput k e m) (mkeys (AssignedShards a)) m)"
  by (simp_all add: owners_fold_def)

lemma owners_fold_Some:
  "mget (owners_fold as m) s = Some e \<Longrightarrow>
     mget m s = Some e \<or> (\<exists>a. (e, a) \<in> set as \<and> mhas (AssignedShards a) s)"
proof (induction as arbitrary: m)
  case (Cons p as)
  then show ?case
    by (cases p) (fastforce simp: mget_fold_mput mhas_mkeys split: if_splits)
qed simp

lemma owners_fold_None:
  "mget (owners_fold as m) s = None \<longleftrightarrow>
     mget m s = None \<and> (\<forall>(e, a) \<in> set as. \<not> mhas (AssignedShards a) s)"
proof (induction as arbitrary: m)
  case (Cons p as)
  then show ?case by (cases p) (auto simp: mget_fold_mput mhas_mkeys)
qed simp

lemma wf_owners_fold: "wf_map m \<Longrightarrow> wf_map (owners_fold as m)"
  by (induction as arbitrary: m) (auto simp: wf_fold_mput)

lemma ShardOwners_owners_fold:
  "ShardOwners ord ns = owners_fold (mrange ord (ShardAssignments ns)) []"
  by (simp add: ShardOwners_def owners_fold_def)

lemma ShardOwners_Some:
  assumes "is_order ord" "wf_state ns" "mget (ShardOwners ord ns) s = Some e"
  shows "\<exists>a. mget (ShardAssignments ns) e = Some a \<and> mhas (AssignedShards a) s"
proof -
  obtain a where "(e, a) \<in> set (mrange ord (ShardAssignments ns))" "mhas (AssignedShards a) s"
    using owners_fold_Some assms(3) unfolding ShardOwners_owners_fold by fastforce
  then show ?thesis
    using set_mrange [OF assms(1) wf_stateD(1) [OF assms(2)]] mget_eq_iff wf_stateD(1) [OF assms(2)]
    by metis
qed

lemma ShardOwners_None:
  assumes "is_order ord" "wf_state ns"
  shows "mget (ShardOwners ord ns) s = None \<longleftrightarrow> s \<notin># assigned_shards (ShardAssignments ns)"
  by (simp add: ShardOwners_owners_fold owners_fold_None in_assigned_shards case_prod_beta
      set_mrange [OF assms(1) wf_stateD(1) [OF assms(2)]])

lemma wf_ShardOwners: "wf_map (ShardOwners ord ns)"
  by (simp add: ShardOwners_owners_fold wf_owners_fold)

end
