(* ===== verification/Enumer.thy ===== *)
theory Enumer
  imports Types
begin

text \<open>
  JSON trees, and the generated methods of the enumerations
  (\<open>common/types/sharddistributor_statuses_enumer_generated.go\<close>): names, parsing of names and
  the JSON forms.

  \<^item> A JSON text is modelled by its tree; the text layer of \<open>encoding/json\<close> is a parameter of
    the definitions that use it (\<open>EtcdTypes\<close>). A number is a real, since JSON has no NaN.
  \<^item> \<open>strings.ToLower\<close> maps the ASCII capitals; the names have no other letters.
  \<^item> A value outside the declared constants does not occur in the model, so the numeric
    fallback of \<open>String\<close> is left out.
\<close>

datatype json = JNull | JString string | JNumber real | JObject "(string \<times> json) list"

definition ToLower :: "string \<Rightarrow> string" where
  "ToLower = map (\<lambda>c. if CHR ''A'' \<le> c \<and> c \<le> CHR ''Z'' then char_of (of_char c + 32 :: nat) else c)"

text \<open>\<open>s[a:b]\<close>.\<close>

definition substr :: "string \<Rightarrow> nat \<Rightarrow> nat \<Rightarrow> string" where
  "substr s a b = take (b - a) (drop a s)"

text \<open>The two lookups of a generated \<open>XString\<close> function.\<close>

definition enum_lookup :: "(string, 'e) gomap \<Rightarrow> string \<Rightarrow> string \<Rightarrow> 'e result" where
  "enum_lookup table label s =
     (case mget table s of
        Some val \<Rightarrow> Inr val
      | None \<Rightarrow>
          (case mget table (ToLower s) of
             Some val \<Rightarrow> Inr val
           | None \<Rightarrow> Inl (ErrorString (s @ '' does not belong to '' @ label @ '' values''))))"

text \<open>\<open>json.Unmarshal\<close> into a string: \<open>null\<close> leaves it empty.\<close>

fun unmarshal_string :: "json \<Rightarrow> string option" where
  "unmarshal_string (JString s) = Some s"
| "unmarshal_string JNull = Some []"
| "unmarshal_string _ = None"

section \<open>ExecutorStatus\<close>

fun ExecutorStatus_int :: "ExecutorStatus \<Rightarrow> nat" where
  "ExecutorStatus_int ExecutorStatusINVALID = 0"
| "ExecutorStatus_int ExecutorStatusACTIVE = 1"
| "ExecutorStatus_int ExecutorStatusDRAINING = 2"
| "ExecutorStatus_int ExecutorStatusDRAINED = 3"

definition ExecutorStatusName :: string where
  "ExecutorStatusName = ''ExecutorStatusINVALIDExecutorStatusACTIVEExecutorStatusDRAININGExecutorStatusDRAINED''"

definition ExecutorStatusIndex :: "nat list" where
  "ExecutorStatusIndex = [0, 21, 41, 63, 84]"

definition ExecutorStatusLowerName :: string where
  "ExecutorStatusLowerName = ''executorstatusinvalidexecutorstatusactiveexecutorstatusdrainingexecutorstatusdrained''"

definition ExecutorStatus_String :: "ExecutorStatus \<Rightarrow> string" where
  "ExecutorStatus_String i = substr ExecutorStatusName (ExecutorStatusIndex ! ExecutorStatus_int i) (ExecutorStatusIndex ! (ExecutorStatus_int i + 1))"

definition ExecutorStatusNameToValueMap :: "(string, ExecutorStatus) gomap" where
  "ExecutorStatusNameToValueMap =
     [(substr ExecutorStatusName 0 21, ExecutorStatusINVALID),
      (substr ExecutorStatusLowerName 0 21, ExecutorStatusINVALID),
      (substr ExecutorStatusName 21 41, ExecutorStatusACTIVE),
      (substr ExecutorStatusLowerName 21 41, ExecutorStatusACTIVE),
      (substr ExecutorStatusName 41 63, ExecutorStatusDRAINING),
      (substr ExecutorStatusLowerName 41 63, ExecutorStatusDRAINING),
      (substr ExecutorStatusName 63 84, ExecutorStatusDRAINED),
      (substr ExecutorStatusLowerName 63 84, ExecutorStatusDRAINED)]"

definition ExecutorStatusString :: "string \<Rightarrow> ExecutorStatus result" where
  "ExecutorStatusString s = enum_lookup ExecutorStatusNameToValueMap ''ExecutorStatus'' s"

definition ExecutorStatusValues :: "ExecutorStatus list" where
  "ExecutorStatusValues = [ExecutorStatusINVALID, ExecutorStatusACTIVE, ExecutorStatusDRAINING, ExecutorStatusDRAINED]"

definition ExecutorStatusStrings :: "string list" where
  "ExecutorStatusStrings = [substr ExecutorStatusName 0 21, substr ExecutorStatusName 21 41, substr ExecutorStatusName 41 63, substr ExecutorStatusName 63 84]"

definition IsAExecutorStatus :: "ExecutorStatus \<Rightarrow> bool" where
  "IsAExecutorStatus i = list_ex ((=) i) ExecutorStatusValues"

definition ExecutorStatus_MarshalJSON :: "ExecutorStatus \<Rightarrow> json" where
  "ExecutorStatus_MarshalJSON i = JString (ExecutorStatus_String i)"

definition ExecutorStatus_UnmarshalJSON :: "json \<Rightarrow> ExecutorStatus result" where
  "ExecutorStatus_UnmarshalJSON data =
     (case unmarshal_string data of
        None \<Rightarrow> Inl (ErrorString ''ExecutorStatus should be a string'')
      | Some s \<Rightarrow> ExecutorStatusString s)"

section \<open>ShardStatus\<close>

fun ShardStatus_int :: "ShardStatus \<Rightarrow> nat" where
  "ShardStatus_int ShardStatusINVALID = 0"
| "ShardStatus_int ShardStatusREADY = 1"
| "ShardStatus_int ShardStatusDONE = 2"

definition ShardStatusName :: string where
  "ShardStatusName = ''ShardStatusINVALIDShardStatusREADYShardStatusDONE''"

definition ShardStatusIndex :: "nat list" where
  "ShardStatusIndex = [0, 18, 34, 49]"

definition ShardStatusLowerName :: string where
  "ShardStatusLowerName = ''shardstatusinvalidshardstatusreadyshardstatusdone''"

definition ShardStatus_String :: "ShardStatus \<Rightarrow> string" where
  "ShardStatus_String i = substr ShardStatusName (ShardStatusIndex ! ShardStatus_int i) (ShardStatusIndex ! (ShardStatus_int i + 1))"

definition ShardStatusNameToValueMap :: "(string, ShardStatus) gomap" where
  "ShardStatusNameToValueMap =
     [(substr ShardStatusName 0 18, ShardStatusINVALID),
      (substr ShardStatusLowerName 0 18, ShardStatusINVALID),
      (substr ShardStatusName 18 34, ShardStatusREADY),
      (substr ShardStatusLowerName 18 34, ShardStatusREADY),
      (substr ShardStatusName 34 49, ShardStatusDONE),
      (substr ShardStatusLowerName 34 49, ShardStatusDONE)]"

definition ShardStatusString :: "string \<Rightarrow> ShardStatus result" where
  "ShardStatusString s = enum_lookup ShardStatusNameToValueMap ''ShardStatus'' s"

definition ShardStatusValues :: "ShardStatus list" where
  "ShardStatusValues = [ShardStatusINVALID, ShardStatusREADY, ShardStatusDONE]"

definition ShardStatusStrings :: "string list" where
  "ShardStatusStrings = [substr ShardStatusName 0 18, substr ShardStatusName 18 34, substr ShardStatusName 34 49]"

definition IsAShardStatus :: "ShardStatus \<Rightarrow> bool" where
  "IsAShardStatus i = list_ex ((=) i) ShardStatusValues"

definition ShardStatus_MarshalJSON :: "ShardStatus \<Rightarrow> json" where
  "ShardStatus_MarshalJSON i = JString (ShardStatus_String i)"

definition ShardStatus_UnmarshalJSON :: "json \<Rightarrow> ShardStatus result" where
  "ShardStatus_UnmarshalJSON data =
     (case unmarshal_string data of
        None \<Rightarrow> Inl (ErrorString ''ShardStatus should be a string'')
      | Some s \<Rightarrow> ShardStatusString s)"

section \<open>AssignmentStatus\<close>

fun AssignmentStatus_int :: "AssignmentStatus \<Rightarrow> nat" where
  "AssignmentStatus_int AssignmentStatusINVALID = 0"
| "AssignmentStatus_int AssignmentStatusREADY = 1"

definition AssignmentStatusName :: string where
  "AssignmentStatusName = ''AssignmentStatusINVALIDAssignmentStatusREADY''"

definition AssignmentStatusIndex :: "nat list" where
  "AssignmentStatusIndex = [0, 23, 44]"

definition AssignmentStatusLowerName :: string where
  "AssignmentStatusLowerName = ''assignmentstatusinvalidassignmentstatusready''"

definition AssignmentStatus_String :: "AssignmentStatus \<Rightarrow> string" where
  "AssignmentStatus_String i = substr AssignmentStatusName (AssignmentStatusIndex ! AssignmentStatus_int i) (AssignmentStatusIndex ! (AssignmentStatus_int i + 1))"

definition AssignmentStatusNameToValueMap :: "(string, AssignmentStatus) gomap" where
  "AssignmentStatusNameToValueMap =
     [(substr AssignmentStatusName 0 23, AssignmentStatusINVALID),
      (substr AssignmentStatusLowerName 0 23, AssignmentStatusINVALID),
      (substr AssignmentStatusName 23 44, AssignmentStatusREADY),
      (substr AssignmentStatusLowerName 23 44, AssignmentStatusREADY)]"

definition AssignmentStatusString :: "string \<Rightarrow> AssignmentStatus result" where
  "AssignmentStatusString s = enum_lookup AssignmentStatusNameToValueMap ''AssignmentStatus'' s"

definition AssignmentStatusValues :: "AssignmentStatus list" where
  "AssignmentStatusValues = [AssignmentStatusINVALID, AssignmentStatusREADY]"

definition AssignmentStatusStrings :: "string list" where
  "AssignmentStatusStrings = [substr AssignmentStatusName 0 23, substr AssignmentStatusName 23 44]"

definition IsAAssignmentStatus :: "AssignmentStatus \<Rightarrow> bool" where
  "IsAAssignmentStatus i = list_ex ((=) i) AssignmentStatusValues"

definition AssignmentStatus_MarshalJSON :: "AssignmentStatus \<Rightarrow> json" where
  "AssignmentStatus_MarshalJSON i = JString (AssignmentStatus_String i)"

definition AssignmentStatus_UnmarshalJSON :: "json \<Rightarrow> AssignmentStatus result" where
  "AssignmentStatus_UnmarshalJSON data =
     (case unmarshal_string data of
        None \<Rightarrow> Inl (ErrorString ''AssignmentStatus should be a string'')
      | Some s \<Rightarrow> AssignmentStatusString s)"

section \<open>MigrationMode\<close>

fun MigrationMode_int :: "MigrationMode \<Rightarrow> nat" where
  "MigrationMode_int MigrationModeINVALID = 0"
| "MigrationMode_int MigrationModeLOCALPASSTHROUGH = 1"
| "MigrationMode_int MigrationModeONBOARDED = 2"

definition MigrationModeName :: string where
  "MigrationModeName = ''MigrationModeINVALIDMigrationModeLOCALPASSTHROUGHMigrationModeONBOARDED''"

definition MigrationModeIndex :: "nat list" where
  "MigrationModeIndex = [0, 20, 49, 71]"

definition MigrationModeLowerName :: string where
  "MigrationModeLowerName = ''migrationmodeinvalidmigrationmodelocalpassthroughmigrationmodeonboarded''"

definition MigrationMode_String :: "MigrationMode \<Rightarrow> string" where
  "MigrationMode_String i = substr MigrationModeName (MigrationModeIndex ! MigrationMode_int i) (MigrationModeIndex ! (MigrationMode_int i + 1))"

definition MigrationModeNameToValueMap :: "(string, MigrationMode) gomap" where
  "MigrationModeNameToValueMap =
     [(substr MigrationModeName 0 20, MigrationModeINVALID),
      (substr MigrationModeLowerName 0 20, MigrationModeINVALID),
      (substr MigrationModeName 20 49, MigrationModeLOCALPASSTHROUGH),
      (substr MigrationModeLowerName 20 49, MigrationModeLOCALPASSTHROUGH),
      (substr MigrationModeName 49 71, MigrationModeONBOARDED),
      (substr MigrationModeLowerName 49 71, MigrationModeONBOARDED)]"

definition MigrationModeString :: "string \<Rightarrow> MigrationMode result" where
  "MigrationModeString s = enum_lookup MigrationModeNameToValueMap ''MigrationMode'' s"

definition MigrationModeValues :: "MigrationMode list" where
  "MigrationModeValues = [MigrationModeINVALID, MigrationModeLOCALPASSTHROUGH, MigrationModeONBOARDED]"

definition MigrationModeStrings :: "string list" where
  "MigrationModeStrings = [substr MigrationModeName 0 20, substr MigrationModeName 20 49, substr MigrationModeName 49 71]"

definition IsAMigrationMode :: "MigrationMode \<Rightarrow> bool" where
  "IsAMigrationMode i = list_ex ((=) i) MigrationModeValues"

definition MigrationMode_MarshalJSON :: "MigrationMode \<Rightarrow> json" where
  "MigrationMode_MarshalJSON i = JString (MigrationMode_String i)"

definition MigrationMode_UnmarshalJSON :: "json \<Rightarrow> MigrationMode result" where
  "MigrationMode_UnmarshalJSON data =
     (case unmarshal_string data of
        None \<Rightarrow> Inl (ErrorString ''MigrationMode should be a string'')
      | Some s \<Rightarrow> MigrationModeString s)"

section \<open>HandoverType\<close>

fun HandoverType_int :: "HandoverType \<Rightarrow> nat" where
  "HandoverType_int HandoverTypeINVALID = 0"
| "HandoverType_int HandoverTypeGRACEFUL = 1"
| "HandoverType_int HandoverTypeEMERGENCY = 2"

definition HandoverTypeName :: string where
  "HandoverTypeName = ''HandoverTypeINVALIDHandoverTypeGRACEFULHandoverTypeEMERGENCY''"

definition HandoverTypeIndex :: "nat list" where
  "HandoverTypeIndex = [0, 19, 39, 60]"

definition HandoverTypeLowerName :: string where
  "HandoverTypeLowerName = ''handovertypeinvalidhandovertypegracefulhandovertypeemergency''"

definition HandoverType_String :: "HandoverType \<Rightarrow> string" where
  "HandoverType_String i = substr HandoverTypeName (HandoverTypeIndex ! HandoverType_int i) (HandoverTypeIndex ! (HandoverType_int i + 1))"

definition HandoverTypeNameToValueMap :: "(string, HandoverType) gomap" where
  "HandoverTypeNameToValueMap =
     [(substr HandoverTypeName 0 19, HandoverTypeINVALID),
      (substr HandoverTypeLowerName 0 19, HandoverTypeINVALID),
      (substr HandoverTypeName 19 39, HandoverTypeGRACEFUL),
      (substr HandoverTypeLowerName 19 39, HandoverTypeGRACEFUL),
      (substr HandoverTypeName 39 60, HandoverTypeEMERGENCY),
      (substr HandoverTypeLowerName 39 60, HandoverTypeEMERGENCY)]"

definition HandoverTypeString :: "string \<Rightarrow> HandoverType result" where
  "HandoverTypeString s = enum_lookup HandoverTypeNameToValueMap ''HandoverType'' s"

definition HandoverTypeValues :: "HandoverType list" where
  "HandoverTypeValues = [HandoverTypeINVALID, HandoverTypeGRACEFUL, HandoverTypeEMERGENCY]"

definition HandoverTypeStrings :: "string list" where
  "HandoverTypeStrings = [substr HandoverTypeName 0 19, substr HandoverTypeName 19 39, substr HandoverTypeName 39 60]"

definition IsAHandoverType :: "HandoverType \<Rightarrow> bool" where
  "IsAHandoverType i = list_ex ((=) i) HandoverTypeValues"

definition HandoverType_MarshalJSON :: "HandoverType \<Rightarrow> json" where
  "HandoverType_MarshalJSON i = JString (HandoverType_String i)"

definition HandoverType_UnmarshalJSON :: "json \<Rightarrow> HandoverType result" where
  "HandoverType_UnmarshalJSON data =
     (case unmarshal_string data of
        None \<Rightarrow> Inl (ErrorString ''HandoverType should be a string'')
      | Some s \<Rightarrow> HandoverTypeString s)"

section \<open>LoadBalancingMode\<close>

fun LoadBalancingMode_int :: "LoadBalancingMode \<Rightarrow> nat" where
  "LoadBalancingMode_int LoadBalancingModeINVALID = 0"
| "LoadBalancingMode_int LoadBalancingModeNAIVE = 1"
| "LoadBalancingMode_int LoadBalancingModeGREEDY = 2"

definition LoadBalancingModeName :: string where
  "LoadBalancingModeName = ''LoadBalancingModeINVALIDLoadBalancingModeNAIVELoadBalancingModeGREEDY''"

definition LoadBalancingModeIndex :: "nat list" where
  "LoadBalancingModeIndex = [0, 24, 46, 69]"

definition LoadBalancingModeLowerName :: string where
  "LoadBalancingModeLowerName = ''loadbalancingmodeinvalidloadbalancingmodenaiveloadbalancingmodegreedy''"

definition LoadBalancingMode_String :: "LoadBalancingMode \<Rightarrow> string" where
  "LoadBalancingMode_String i = substr LoadBalancingModeName (LoadBalancingModeIndex ! LoadBalancingMode_int i) (LoadBalancingModeIndex ! (LoadBalancingMode_int i + 1))"

definition LoadBalancingModeNameToValueMap :: "(string, LoadBalancingMode) gomap" where
  "LoadBalancingModeNameToValueMap =
     [(substr LoadBalancingModeName 0 24, LoadBalancingModeINVALID),
      (substr LoadBalancingModeLowerName 0 24, LoadBalancingModeINVALID),
      (substr LoadBalancingModeName 24 46, LoadBalancingModeNAIVE),
      (substr LoadBalancingModeLowerName 24 46, LoadBalancingModeNAIVE),
      (substr LoadBalancingModeName 46 69, LoadBalancingModeGREEDY),
      (substr LoadBalancingModeLowerName 46 69, LoadBalancingModeGREEDY)]"

definition LoadBalancingModeString :: "string \<Rightarrow> LoadBalancingMode result" where
  "LoadBalancingModeString s = enum_lookup LoadBalancingModeNameToValueMap ''LoadBalancingMode'' s"

definition LoadBalancingModeValues :: "LoadBalancingMode list" where
  "LoadBalancingModeValues = [LoadBalancingModeINVALID, LoadBalancingModeNAIVE, LoadBalancingModeGREEDY]"

definition LoadBalancingModeStrings :: "string list" where
  "LoadBalancingModeStrings = [substr LoadBalancingModeName 0 24, substr LoadBalancingModeName 24 46, substr LoadBalancingModeName 46 69]"

definition IsALoadBalancingMode :: "LoadBalancingMode \<Rightarrow> bool" where
  "IsALoadBalancingMode i = list_ex ((=) i) LoadBalancingModeValues"

definition LoadBalancingMode_MarshalJSON :: "LoadBalancingMode \<Rightarrow> json" where
  "LoadBalancingMode_MarshalJSON i = JString (LoadBalancingMode_String i)"

definition LoadBalancingMode_UnmarshalJSON :: "json \<Rightarrow> LoadBalancingMode result" where
  "LoadBalancingMode_UnmarshalJSON data =
     (case unmarshal_string data of
        None \<Rightarrow> Inl (ErrorString ''LoadBalancingMode should be a string'')
      | Some s \<Rightarrow> LoadBalancingModeString s)"

section \<open>Round trips\<close>

lemma ExecutorStatus_JSON [simp]: "ExecutorStatus_UnmarshalJSON (ExecutorStatus_MarshalJSON i) = Inr i"
  by (cases i; simp only:; code_simp)

lemma ExecutorStatus_listed: "IsAExecutorStatus i \<and> ExecutorStatusStrings = map ExecutorStatus_String ExecutorStatusValues"
  by (cases i; simp only:; code_simp)

lemma ShardStatus_JSON [simp]: "ShardStatus_UnmarshalJSON (ShardStatus_MarshalJSON i) = Inr i"
  by (cases i; simp only:; code_simp)

lemma ShardStatus_listed: "IsAShardStatus i \<and> ShardStatusStrings = map ShardStatus_String ShardStatusValues"
  by (cases i; simp only:; code_simp)

lemma AssignmentStatus_JSON [simp]: "AssignmentStatus_UnmarshalJSON (AssignmentStatus_MarshalJSON i) = Inr i"
  by (cases i; simp only:; code_simp)

lemma AssignmentStatus_listed: "IsAAssignmentStatus i \<and> AssignmentStatusStrings = map AssignmentStatus_String AssignmentStatusValues"
  by (cases i; simp only:; code_simp)

lemma MigrationMode_JSON [simp]: "MigrationMode_UnmarshalJSON (MigrationMode_MarshalJSON i) = Inr i"
  by (cases i; simp only:; code_simp)

lemma MigrationMode_listed: "IsAMigrationMode i \<and> MigrationModeStrings = map MigrationMode_String MigrationModeValues"
  by (cases i; simp only:; code_simp)

lemma HandoverType_JSON [simp]: "HandoverType_UnmarshalJSON (HandoverType_MarshalJSON i) = Inr i"
  by (cases i; simp only:; code_simp)

lemma HandoverType_listed: "IsAHandoverType i \<and> HandoverTypeStrings = map HandoverType_String HandoverTypeValues"
  by (cases i; simp only:; code_simp)

lemma LoadBalancingMode_JSON [simp]: "LoadBalancingMode_UnmarshalJSON (LoadBalancingMode_MarshalJSON i) = Inr i"
  by (cases i; simp only:; code_simp)

lemma LoadBalancingMode_listed: "IsALoadBalancingMode i \<and> LoadBalancingModeStrings = map LoadBalancingMode_String LoadBalancingModeValues"
  by (cases i; simp only:; code_simp)

text \<open>
  C31. The persisted form of every enumeration reads back as the value that was written, the
  names are listed in the order of the values, and every declared value is listed.
\<close>
theorem enum_json_roundtrip:
  "ExecutorStatus_UnmarshalJSON (ExecutorStatus_MarshalJSON u) = Inr u \<and> IsAExecutorStatus u \<and> ExecutorStatusStrings = map ExecutorStatus_String ExecutorStatusValues
   \<and> ShardStatus_UnmarshalJSON (ShardStatus_MarshalJSON v) = Inr v \<and> IsAShardStatus v \<and> ShardStatusStrings = map ShardStatus_String ShardStatusValues
   \<and> AssignmentStatus_UnmarshalJSON (AssignmentStatus_MarshalJSON w) = Inr w \<and> IsAAssignmentStatus w \<and> AssignmentStatusStrings = map AssignmentStatus_String AssignmentStatusValues
   \<and> MigrationMode_UnmarshalJSON (MigrationMode_MarshalJSON x) = Inr x \<and> IsAMigrationMode x \<and> MigrationModeStrings = map MigrationMode_String MigrationModeValues
   \<and> HandoverType_UnmarshalJSON (HandoverType_MarshalJSON y) = Inr y \<and> IsAHandoverType y \<and> HandoverTypeStrings = map HandoverType_String HandoverTypeValues
   \<and> LoadBalancingMode_UnmarshalJSON (LoadBalancingMode_MarshalJSON z) = Inr z \<and> IsALoadBalancingMode z \<and> LoadBalancingModeStrings = map LoadBalancingMode_String LoadBalancingModeValues"
  by (simp add: ExecutorStatus_listed ShardStatus_listed AssignmentStatus_listed MigrationMode_listed HandoverType_listed LoadBalancingMode_listed)

end
