(* ===== verification/EtcdTypes.thy ===== *)
theory EtcdTypes
  imports State Enumer
begin

text \<open>
  The records persisted in etcd (\<open>store/etcd/etcdtypes\<close>), their JSON forms, and the writer that
  compresses them (\<open>store/etcd/executorstore/common/compression.go\<close>).

  \<^item> The struct conversions between \<open>etcdtypes\<close> and \<open>store\<close> keep every field, so both are the
    same record here; the conversions are definitions all the same.
  \<^item> \<open>json.Marshal\<close> and \<open>json.Unmarshal\<close> follow the struct tags: the field names, \<open>omitempty\<close>
    for empty maps and strings, zero values for absent fields. Marshalling fails on a number
    that is not finite. A \<open>null\<close> entry of a map reads as the zero value.
  \<^item> A \<open>Codec\<close> has the byte-level functions that are not modelled: the text of a JSON tree, the
    snappy format and the RFC 3339 form of a time. \<open>codec_laws\<close> is what the code relies on.
\<close>

section \<open>The codec\<close>

record 'v Codec =
  Bytes :: "string \<Rightarrow> 'v"
  Text :: "'v \<Rightarrow> string"
  json_print :: "json \<Rightarrow> 'v"
  json_parse :: "'v \<Rightarrow> json result"
  snappy_header :: "'v \<Rightarrow> bool"
  snappy_encode :: "'v \<Rightarrow> 'v result"
  snappy_decode :: "'v \<Rightarrow> 'v result"
  RFC3339_format :: "gotime \<Rightarrow> string"
  RFC3339_parse :: "string \<Rightarrow> gotime result"

text \<open>The times RFC 3339 can express, years 1 to 9999.\<close>

definition rfc3339_time :: "gotime \<Rightarrow> bool" where
  "rfc3339_time t = (0 \<le> t \<and> t < 315537897600 * 10 ^ 9)"

locale codec_laws =
  fixes K :: "'v Codec"
  assumes Text_Bytes [simp]: "Text K (Bytes K s) = s"
    and parse_print [simp]: "json_parse K (json_print K j) = Inr j"
    and print_header [simp]: "\<not> snappy_header K (json_print K j)"
    and empty_header [simp]: "\<not> snappy_header K (Bytes K [])"
    and encode_header: "snappy_encode K v = Inr w \<Longrightarrow> snappy_header K w"
    and decode_encode: "snappy_encode K v = Inr w \<Longrightarrow> snappy_decode K w = Inr v"
    and parse_format: "rfc3339_time t \<Longrightarrow> RFC3339_parse K (RFC3339_format K t) = Inr t"

definition FormatTime :: "'v Codec \<Rightarrow> gotime \<Rightarrow> string" where
  "FormatTime K t = RFC3339_format K t"

definition ParseTime :: "'v Codec \<Rightarrow> string \<Rightarrow> gotime result" where
  "ParseTime K s = RFC3339_parse K s"

definition Time_MarshalJSON :: "'v Codec \<Rightarrow> gotime \<Rightarrow> json" where
  "Time_MarshalJSON K t = JString (FormatTime K t)"

fun Time_UnmarshalJSON :: "'v Codec \<Rightarrow> json \<Rightarrow> gotime result" where
  "Time_UnmarshalJSON K (JString s) = ParseTime K s"
| "Time_UnmarshalJSON K JNull = ParseTime K ''null''"
| "Time_UnmarshalJSON K _ = Inl (ErrorString ''cannot parse time'')"

text \<open>The form of a plain \<open>time.Time\<close>, which ignores \<open>null\<close>.\<close>

fun time_UnmarshalJSON :: "'v Codec \<Rightarrow> json \<Rightarrow> gotime result" where
  "time_UnmarshalJSON K (JString s) = RFC3339_parse K s"
| "time_UnmarshalJSON K JNull = Inr 0"
| "time_UnmarshalJSON K _ = Inl (ErrorString ''Time.UnmarshalJSON: input is not a JSON string'')"

section \<open>JSON forms\<close>

text \<open>Sequencing of results, and a result for every entry of a map.\<close>

definition bind_result :: "'a result \<Rightarrow> ('a \<Rightarrow> 'b result) \<Rightarrow> 'b result" where
  "bind_result r f = (case r of Inl e \<Rightarrow> Inl e | Inr x \<Rightarrow> f x)"

fun map_result :: "('a \<Rightarrow> 'b result) \<Rightarrow> (string \<times> 'a) list \<Rightarrow> (string \<times> 'b) list result" where
  "map_result f [] = Inr []"
| "map_result f ((k, x) # xs) =
     (case f x of Inl e \<Rightarrow> Inl e
      | Inr y \<Rightarrow> (case map_result f xs of Inl e \<Rightarrow> Inl e | Inr ys \<Rightarrow> Inr ((k, y) # ys)))"

fun marshal_float :: "float64 \<Rightarrow> json result" where
  "marshal_float (Fin x) = Inr (JNumber x)"
| "marshal_float _ = Inl (ErrorString ''json: unsupported value'')"

fun unmarshal_float :: "json \<Rightarrow> float64 result" where
  "unmarshal_float (JNumber x) = Inr (Fin x)"
| "unmarshal_float JNull = Inr 0"
| "unmarshal_float _ = Inl (ErrorString ''json: cannot unmarshal into float64'')"

definition text_field :: "json \<Rightarrow> string result" where
  "text_field j = (case unmarshal_string j of
     None \<Rightarrow> Inl (ErrorString ''json: cannot unmarshal into string'') | Some s \<Rightarrow> Inr s)"

text \<open>A struct field: its value, or the zero value when the field is absent.\<close>

definition unmarshal_field :: "(string \<times> json) list \<Rightarrow> string \<Rightarrow> 'a \<Rightarrow> (json \<Rightarrow> 'a result) \<Rightarrow> 'a result" where
  "unmarshal_field fs name zero f = (case map_of fs name of None \<Rightarrow> Inr zero | Some j \<Rightarrow> f j)"

text \<open>The entries of an object are stored one after the other.\<close>

fun unmarshal_map :: "(json \<Rightarrow> 'a result) \<Rightarrow> json \<Rightarrow> (string, 'a) gomap result" where
  "unmarshal_map f (JObject entries) =
     bind_result (map_result f entries) (\<lambda>es. Inr (store_loop (\<lambda>_ x. Some x) es []))"
| "unmarshal_map f JNull = Inr []"
| "unmarshal_map f _ = Inl (ErrorString ''json: cannot unmarshal into map'')"

fun object_fields :: "json \<Rightarrow> (string \<times> json) list result" where
  "object_fields (JObject fs) = Inr fs"
| "object_fields JNull = Inr []"
| "object_fields _ = Inl (ErrorString ''json: cannot unmarshal into struct'')"

definition marshal_ShardStatusReport :: "ShardStatusReport \<Rightarrow> json result" where
  "marshal_ShardStatusReport r =
     bind_result (marshal_float (ShardLoad r)) (\<lambda>l.
       Inr (JObject [(''Status'', ShardStatus_MarshalJSON (ssr_Status r)), (''ShardLoad'', l)]))"

definition unmarshal_ShardStatusReport :: "json \<Rightarrow> ShardStatusReport result" where
  "unmarshal_ShardStatusReport j =
     bind_result (object_fields j) (\<lambda>fs.
     bind_result (unmarshal_field fs ''Status'' ShardStatusINVALID ShardStatus_UnmarshalJSON) (\<lambda>st.
     bind_result (unmarshal_field fs ''ShardLoad'' 0 unmarshal_float) (\<lambda>l.
       Inr \<lparr>ssr_Status = st, ShardLoad = l\<rparr>)))"

definition marshal_ReportedShards :: "(string, ShardStatusReport) gomap \<Rightarrow> json result" where
  "marshal_ReportedShards m = bind_result (map_result marshal_ShardStatusReport m) (\<lambda>es. Inr (JObject es))"

definition unmarshal_ReportedShards :: "json \<Rightarrow> (string, ShardStatusReport) gomap result" where
  "unmarshal_ReportedShards = unmarshal_map unmarshal_ShardStatusReport"

definition marshal_ShardAssignment :: "ShardAssignment \<Rightarrow> json" where
  "marshal_ShardAssignment a = JObject [(''status'', AssignmentStatus_MarshalJSON (sa_Status a))]"

definition unmarshal_ShardAssignment :: "json \<Rightarrow> ShardAssignment result" where
  "unmarshal_ShardAssignment j =
     bind_result (object_fields j) (\<lambda>fs.
     bind_result (unmarshal_field fs ''status'' AssignmentStatusINVALID AssignmentStatus_UnmarshalJSON) (\<lambda>st.
       Inr \<lparr>sa_Status = st\<rparr>))"

definition marshal_ShardHandoverStats :: "'v Codec \<Rightarrow> ShardHandoverStats \<Rightarrow> json" where
  "marshal_ShardHandoverStats K h =
     JObject [(''previous_executor_last_heartbeat_time'', Time_MarshalJSON K (PreviousExecutorLastHeartbeatTime h)),
              (''handover_type'', HandoverType_MarshalJSON (sh_HandoverType h))]"

definition unmarshal_ShardHandoverStats :: "'v Codec \<Rightarrow> json \<Rightarrow> ShardHandoverStats result" where
  "unmarshal_ShardHandoverStats K j =
     bind_result (object_fields j) (\<lambda>fs.
     bind_result (unmarshal_field fs ''previous_executor_last_heartbeat_time'' 0 (Time_UnmarshalJSON K)) (\<lambda>t.
     bind_result (unmarshal_field fs ''handover_type'' HandoverTypeINVALID HandoverType_UnmarshalJSON) (\<lambda>h.
       Inr \<lparr>PreviousExecutorLastHeartbeatTime = t, sh_HandoverType = h\<rparr>)))"

text \<open>The revision is not serialised; the reader fills it in.\<close>

definition marshal_AssignedState :: "'v Codec \<Rightarrow> AssignedState \<Rightarrow> json" where
  "marshal_AssignedState K s =
     JObject ([(''assigned_shards'', JObject (map (\<lambda>(k, a). (k, marshal_ShardAssignment a)) (AssignedShards s)))]
       @ (if as_HandoverStats s = [] then []
          else [(''shard_handover_stats'',
                 JObject (map (\<lambda>(k, h). (k, marshal_ShardHandoverStats K h)) (as_HandoverStats s)))])
       @ [(''last_updated'', Time_MarshalJSON K (LastUpdated s))])"

definition unmarshal_AssignedState :: "'v Codec \<Rightarrow> json \<Rightarrow> AssignedState result" where
  "unmarshal_AssignedState K j =
     bind_result (object_fields j) (\<lambda>fs.
     bind_result (unmarshal_field fs ''assigned_shards'' [] (unmarshal_map unmarshal_ShardAssignment)) (\<lambda>a.
     bind_result (unmarshal_field fs ''shard_handover_stats'' []
        (unmarshal_map (unmarshal_ShardHandoverStats K))) (\<lambda>h.
     bind_result (unmarshal_field fs ''last_updated'' 0 (Time_UnmarshalJSON K)) (\<lambda>t.
       Inr \<lparr>AssignedShards = a, as_HandoverStats = h, LastUpdated = t, ModRevision = 0\<rparr>))))"

definition marshal_ShardStatistics :: "'v Codec \<Rightarrow> ShardStatistics \<Rightarrow> json result" where
  "marshal_ShardStatistics K s =
     bind_result (marshal_float (SmoothedLoad s)) (\<lambda>l.
       Inr (JObject [(''smoothed_load'', l), (''last_update_time'', Time_MarshalJSON K (LastUpdateTime s)),
                     (''last_move_time'', Time_MarshalJSON K (LastMoveTime s))]))"

definition unmarshal_ShardStatistics :: "'v Codec \<Rightarrow> json \<Rightarrow> ShardStatistics result" where
  "unmarshal_ShardStatistics K j =
     bind_result (object_fields j) (\<lambda>fs.
     bind_result (unmarshal_field fs ''smoothed_load'' 0 unmarshal_float) (\<lambda>l.
     bind_result (unmarshal_field fs ''last_update_time'' 0 (Time_UnmarshalJSON K)) (\<lambda>u.
     bind_result (unmarshal_field fs ''last_move_time'' 0 (Time_UnmarshalJSON K)) (\<lambda>m.
       Inr \<lparr>SmoothedLoad = l, LastUpdateTime = u, LastMoveTime = m\<rparr>))))"

definition marshal_Statistics :: "'v Codec \<Rightarrow> (string, ShardStatistics) gomap \<Rightarrow> json result" where
  "marshal_Statistics K m = bind_result (map_result (marshal_ShardStatistics K) m) (\<lambda>es. Inr (JObject es))"

definition unmarshal_Statistics :: "'v Codec \<Rightarrow> json \<Rightarrow> (string, ShardStatistics) gomap result" where
  "unmarshal_Statistics K = unmarshal_map (unmarshal_ShardStatistics K)"

definition marshal_HostMetadata :: "HostMetadata \<Rightarrow> json" where
  "marshal_HostMetadata h = JObject (if HostName h = [] then [] else [(''host_name'', JString (HostName h))])"

definition unmarshal_HostMetadata :: "json \<Rightarrow> HostMetadata result" where
  "unmarshal_HostMetadata j =
     bind_result (object_fields j) (\<lambda>fs.
     bind_result (unmarshal_field fs ''host_name'' [] text_field) (\<lambda>n. Inr \<lparr>HostName = n\<rparr>))"

definition marshal_DrainedHost :: "'v Codec \<Rightarrow> DrainedHost \<Rightarrow> json" where
  "marshal_DrainedHost K d =
     JObject ([(''hostname'', JString (dh_Hostname d)), (''drained_at'', Time_MarshalJSON K (DrainedAt d))]
       @ (if DrainedBy d = [] then [] else [(''drained_by'', JString (DrainedBy d))])
       @ (if dh_Reason d = [] then [] else [(''reason'', JString (dh_Reason d))]))"

definition unmarshal_DrainedHost :: "'v Codec \<Rightarrow> json \<Rightarrow> DrainedHost result" where
  "unmarshal_DrainedHost K j =
     bind_result (object_fields j) (\<lambda>fs.
     bind_result (unmarshal_field fs ''hostname'' [] text_field) (\<lambda>n.
     bind_result (unmarshal_field fs ''drained_at'' 0 (time_UnmarshalJSON K)) (\<lambda>t.
     bind_result (unmarshal_field fs ''drained_by'' [] text_field) (\<lambda>b.
     bind_result (unmarshal_field fs ''reason'' [] text_field) (\<lambda>r.
       Inr \<lparr>dh_Hostname = n, DrainedAt = t, DrainedBy = b, dh_Reason = r\<rparr>)))))"

section \<open>Struct conversions\<close>

definition convertMap :: "('a \<Rightarrow> 'b) \<Rightarrow> (string, 'a) gomap \<Rightarrow> (string, 'b) gomap" where
  "convertMap converter src = store_loop (\<lambda>_ v. Some (converter v)) src []"

definition ToShardHandoverStats :: "ShardHandoverStats \<Rightarrow> ShardHandoverStats" where
  "ToShardHandoverStats src =
     \<lparr>PreviousExecutorLastHeartbeatTime = PreviousExecutorLastHeartbeatTime src,
      sh_HandoverType = sh_HandoverType src\<rparr>"

definition FromShardHandoverStats :: "ShardHandoverStats \<Rightarrow> ShardHandoverStats" where
  "FromShardHandoverStats src =
     \<lparr>PreviousExecutorLastHeartbeatTime = PreviousExecutorLastHeartbeatTime src,
      sh_HandoverType = sh_HandoverType src\<rparr>"

definition ToAssignedState :: "AssignedState \<Rightarrow> AssignedState" where
  "ToAssignedState s =
     \<lparr>AssignedShards = AssignedShards s, as_HandoverStats = convertMap ToShardHandoverStats (as_HandoverStats s),
      LastUpdated = LastUpdated s, ModRevision = ModRevision s\<rparr>"

definition FromAssignedState :: "AssignedState \<Rightarrow> AssignedState" where
  "FromAssignedState src =
     \<lparr>AssignedShards = AssignedShards src,
      as_HandoverStats = convertMap FromShardHandoverStats (as_HandoverStats src),
      LastUpdated = LastUpdated src, ModRevision = ModRevision src\<rparr>"

definition ToShardStatistics :: "ShardStatistics \<Rightarrow> ShardStatistics" where
  "ToShardStatistics s =
     \<lparr>SmoothedLoad = SmoothedLoad s, LastUpdateTime = LastUpdateTime s, LastMoveTime = LastMoveTime s\<rparr>"

definition FromShardStatistics :: "ShardStatistics \<Rightarrow> ShardStatistics" where
  "FromShardStatistics src =
     \<lparr>SmoothedLoad = SmoothedLoad src, LastUpdateTime = LastUpdateTime src, LastMoveTime = LastMoveTime src\<rparr>"

definition ToShardStatisticsMap :: "(string, ShardStatistics) gomap \<Rightarrow> (string, ShardStatistics) gomap" where
  "ToShardStatisticsMap src = convertMap ToShardStatistics src"

definition FromShardStatisticsMap :: "(string, ShardStatistics) gomap \<Rightarrow> (string, ShardStatistics) gomap" where
  "FromShardStatisticsMap src = convertMap FromShardStatistics src"

section \<open>Compression\<close>

datatype compressionMode = compressionNone | compressionSnappy

definition NewRecordWriter :: "string \<Rightarrow> compressionMode result" where
  "NewRecordWriter compressionType =
     (if ToLower compressionType = [] \<or> ToLower compressionType = ''none'' then Inr compressionNone
      else if ToLower compressionType = ''snappy'' then Inr compressionSnappy
      else Inl (ErrorString (''unsupported compression type: '' @ compressionType)))"

definition Write :: "'v Codec \<Rightarrow> compressionMode \<Rightarrow> 'v \<Rightarrow> 'v result" where
  "Write K mode data = (if mode = compressionNone then Inr data else snappy_encode K data)"

definition Decompress :: "'v Codec \<Rightarrow> 'v \<Rightarrow> 'v result" where
  "Decompress K data =
     (if data = Bytes K [] then Inr data
      else if \<not> snappy_header K data then Inr data
      else snappy_decode K data)"

definition DecompressAndUnmarshal :: "'v Codec \<Rightarrow> (json \<Rightarrow> 'a result) \<Rightarrow> 'v \<Rightarrow> 'a result" where
  "DecompressAndUnmarshal K unmarshal data =
     (case Decompress K data of
        Inl e \<Rightarrow> Inl (Errorf ''decompress'' e)
      | Inr decompressed \<Rightarrow>
          (case bind_result (json_parse K decompressed) unmarshal of
             Inl e \<Rightarrow> Inl (Errorf ''unmarshal'' e)
           | Inr x \<Rightarrow> Inr x))"

section \<open>Lemmas\<close>

lemma bind_result_simps [simp]:
  "bind_result (Inl e) f = Inl e"
  "bind_result (Inr x) f = f x"
  by (simp_all add: bind_result_def)

lemma bind_result_Inr: "bind_result r f = Inr y \<longleftrightarrow> (\<exists>x. r = Inr x \<and> f x = Inr y)"
  by (cases r) simp_all

lemma map_result_Inr:
  "map_result f xs = Inr ys \<Longrightarrow> (\<And>x y. f x = Inr y \<Longrightarrow> g y = Inr x) \<Longrightarrow> map_result g ys = Inr xs"
  by (induction xs arbitrary: ys) (auto split: sum.splits)

lemma map_result_total:
  "list_all (\<lambda>(_, x). g (h x) = Inr x) xs \<Longrightarrow> map_result g (map (\<lambda>(k, x). (k, h x)) xs) = Inr xs"
  by (induction xs) auto

lemma convertMap_id: "wf_map m \<Longrightarrow> (\<And>x. f x = x) \<Longrightarrow> convertMap f m = m"
  by (simp add: convertMap_def store_loop_map)

lemma store_loop_self: "wf_map m \<Longrightarrow> store_loop (\<lambda>_ x. Some x) m [] = m"
  by (simp add: store_loop_map)

lemma wf_unmarshal_map: "unmarshal_map f j = Inr m \<Longrightarrow> wf_map m"
  by (cases j) (auto simp: bind_result_Inr)

lemma conversions_id [simp]:
  "ToShardHandoverStats h = h" "FromShardHandoverStats h = h" "ToShardStatistics s = s" "FromShardStatistics s = s"
  by (simp_all add: ToShardHandoverStats_def FromShardHandoverStats_def ToShardStatistics_def FromShardStatistics_def)

lemma state_conversions_id:
  "wf_assigned a \<Longrightarrow> ToAssignedState a = a" "wf_assigned a \<Longrightarrow> FromAssignedState a = a"
  "wf_map m \<Longrightarrow> ToShardStatisticsMap m = m" "wf_map m \<Longrightarrow> FromShardStatisticsMap m = m"
  by (simp_all add: ToAssignedState_def FromAssignedState_def ToShardStatisticsMap_def FromShardStatisticsMap_def
      wf_assigned_def convertMap_id)

text \<open>The records whose times RFC 3339 can express.\<close>

definition timely_assigned :: "AssignedState \<Rightarrow> bool" where
  "timely_assigned a = (rfc3339_time (LastUpdated a)
     \<and> list_all (\<lambda>(_, h). rfc3339_time (PreviousExecutorLastHeartbeatTime h)) (as_HandoverStats a))"

definition timely_stats :: "(string, ShardStatistics) gomap \<Rightarrow> bool" where
  "timely_stats m = list_all (\<lambda>(_, s). rfc3339_time (LastUpdateTime s) \<and> rfc3339_time (LastMoveTime s)) m"

lemma unmarshal_field_simps [simp]:
  "unmarshal_field ((name, j) # fs) name zero f = f j"
  "name \<noteq> name' \<Longrightarrow> unmarshal_field ((name', j) # fs) name zero f = unmarshal_field fs name zero f"
  "unmarshal_field [] name zero f = Inr zero"
  by (simp_all add: unmarshal_field_def)

lemma ShardAssignment_JSON: "unmarshal_ShardAssignment (marshal_ShardAssignment a) = Inr a"
  by (simp add: unmarshal_ShardAssignment_def marshal_ShardAssignment_def)

lemma ShardStatusReport_JSON: "marshal_ShardStatusReport r = Inr j \<Longrightarrow> unmarshal_ShardStatusReport j = Inr r"
  by (cases "ShardLoad r")
     (auto simp: marshal_ShardStatusReport_def unmarshal_ShardStatusReport_def bind_result_Inr)

lemma ReportedShards_JSON:
  assumes "wf_map m" "marshal_ReportedShards m = Inr j"
  shows "unmarshal_ReportedShards j = Inr m"
proof -
  from assms(2) obtain es where es: "map_result marshal_ShardStatusReport m = Inr es" "j = JObject es"
    by (auto simp: marshal_ReportedShards_def bind_result_Inr)
  have "map_result unmarshal_ShardStatusReport es = Inr m"
    by (rule map_result_Inr [OF es(1) ShardStatusReport_JSON])
  then show ?thesis using assms(1) by (simp add: unmarshal_ReportedShards_def es(2) store_loop_self)
qed

lemma text_field_JString [simp]: "text_field (JString s) = Inr s"
  by (simp add: text_field_def)

lemma HostMetadata_JSON: "unmarshal_HostMetadata (marshal_HostMetadata h) = Inr h"
  by (cases h) (simp add: unmarshal_HostMetadata_def marshal_HostMetadata_def)

context codec_laws
begin

lemma Time_JSON: "rfc3339_time t \<Longrightarrow> Time_UnmarshalJSON K (Time_MarshalJSON K t) = Inr t"
  by (simp add: Time_MarshalJSON_def ParseTime_def FormatTime_def parse_format)

lemma read_written:
  assumes "Write K mode (json_print K j) = Inr w" and "f j = Inr x"
  shows "DecompressAndUnmarshal K f w = Inr x"
proof (cases mode)
  case compressionNone
  then have w: "w = json_print K j" using assms(1) by (simp add: Write_def)
  have "Decompress K w = Inr w" by (simp add: w Decompress_def)
  then show ?thesis using assms(2) by (simp add: DecompressAndUnmarshal_def w)
next
  case compressionSnappy
  then have w: "snappy_encode K (json_print K j) = Inr w" using assms(1) by (simp add: Write_def)
  moreover from encode_header [OF w] have "w \<noteq> Bytes K []" by auto
  ultimately show ?thesis
    using assms(2) by (simp add: DecompressAndUnmarshal_def Decompress_def encode_header decode_encode)
qed

lemma ShardHandoverStats_JSON:
  "rfc3339_time (PreviousExecutorLastHeartbeatTime h) \<Longrightarrow>
     unmarshal_ShardHandoverStats K (marshal_ShardHandoverStats K h) = Inr h"
  by (simp add: unmarshal_ShardHandoverStats_def marshal_ShardHandoverStats_def Time_JSON)

lemma AssignedState_JSON:
  assumes "timely_assigned a" "wf_assigned a"
  shows "unmarshal_AssignedState K (marshal_AssignedState K a) = Inr (a\<lparr>ModRevision := 0\<rparr>)"
proof -
  have "map_result unmarshal_ShardAssignment (map (\<lambda>(k, a). (k, marshal_ShardAssignment a)) (AssignedShards a))
      = Inr (AssignedShards a)"
    by (rule map_result_total) (simp add: ShardAssignment_JSON list_all_iff)
  moreover have "map_result (unmarshal_ShardHandoverStats K)
      (map (\<lambda>(k, h). (k, marshal_ShardHandoverStats K h)) (as_HandoverStats a)) = Inr (as_HandoverStats a)"
    by (rule map_result_total)
       (use assms in \<open>auto simp: timely_assigned_def list_all_iff ShardHandoverStats_JSON\<close>)
  ultimately show ?thesis
    using assms by (auto simp: unmarshal_AssignedState_def marshal_AssignedState_def Time_JSON timely_assigned_def
        wf_assigned_def store_loop_self)
qed

lemma Statistics_JSON:
  assumes "timely_stats m" and "wf_map m" and "marshal_Statistics K m = Inr j"
  shows "unmarshal_Statistics K j = Inr m"
proof -
  from assms(3) obtain es where es: "map_result (marshal_ShardStatistics K) m = Inr es" "j = JObject es"
    by (auto simp: marshal_Statistics_def bind_result_Inr)
  have one: "marshal_ShardStatistics K s = Inr y \<Longrightarrow> rfc3339_time (LastUpdateTime s) \<Longrightarrow>
      rfc3339_time (LastMoveTime s) \<Longrightarrow> unmarshal_ShardStatistics K y = Inr s" for s y
    by (cases "SmoothedLoad s")
       (auto simp: marshal_ShardStatistics_def unmarshal_ShardStatistics_def Time_JSON)
  have "map_result (unmarshal_ShardStatistics K) es = Inr m"
    using assms(1) es(1) by (induction m arbitrary: es) (auto simp: timely_stats_def one split: sum.splits)
  then show ?thesis using assms(2) by (simp add: unmarshal_Statistics_def es(2) store_loop_self)
qed

lemma DrainedHost_JSON:
  "rfc3339_time (DrainedAt d) \<Longrightarrow> unmarshal_DrainedHost K (marshal_DrainedHost K d) = Inr d"
  by (cases d) (simp add: unmarshal_DrainedHost_def marshal_DrainedHost_def Time_MarshalJSON_def FormatTime_def parse_format)

end

section \<open>A codec that satisfies the laws\<close>

datatype blob = Raw string | Json json | Snappy blob

definition reference_codec :: "blob Codec" where
  "reference_codec =
     \<lparr>Bytes = Raw, Text = (\<lambda>b. case b of Raw s \<Rightarrow> s | _ \<Rightarrow> []), json_print = Json,
      json_parse = (\<lambda>b. case b of Json j \<Rightarrow> Inr j | _ \<Rightarrow> Inl (ErrorString ''invalid character'')),
      snappy_header = (\<lambda>b. case b of Snappy _ \<Rightarrow> True | _ \<Rightarrow> False),
      snappy_encode = (\<lambda>b. Inr (Snappy b)),
      snappy_decode = (\<lambda>b. case b of Snappy b' \<Rightarrow> Inr b' | _ \<Rightarrow> Inl (ErrorString ''snappy: corrupt input'')),
      RFC3339_format = (\<lambda>t. replicate (nat t) CHR ''0''),
      RFC3339_parse = (\<lambda>s. Inr (int (length s)))\<rparr>"

interpretation reference_codec: codec_laws reference_codec
  by unfold_locales (auto simp: reference_codec_def rfc3339_time_def)

end
