(* ===== verification/StoreInterface.thy ===== *)
theory StoreInterface
  imports State
begin

text \<open>
  The interface \<open>store.Store\<close> of \<open>store/store.go\<close>, as the record of the operations the leader
  and the ephemeral assigner call. An operation runs on a database state and returns its result
  and the new state; reads return their result. The type of the transactional guard is a
  parameter.
\<close>

record AssignShardsRequest =
  NewState :: NamespaceState
  ExecutorsToDelete :: "(string, int) gomap"
  ChangedExecutors :: "gostrset option"

record ('db, 'g) Store =
  GetState :: "'db \<Rightarrow> string \<Rightarrow> NamespaceState result"
  AssignShards :: "'db \<Rightarrow> string \<Rightarrow> AssignShardsRequest \<Rightarrow> 'g \<Rightarrow> unit result \<times> 'db"
  DeleteExecutors :: "'db \<Rightarrow> string \<Rightarrow> string list \<Rightarrow> 'g \<Rightarrow> unit result \<times> 'db"
  RecordShardStatisticsBatch :: "'db \<Rightarrow> string \<Rightarrow> ExecutorShardStatistics list \<Rightarrow> unit result \<times> 'db"
  DeleteShardStats :: "'db \<Rightarrow> string \<Rightarrow> string list \<Rightarrow> 'g \<Rightarrow> unit result \<times> 'db"

text \<open>
  What a successful \<open>AssignShards\<close> does to the assignments: the deleted executors lose their
  records, the changed ones get the new record (all of them when no set of changes is given),
  every other record stays. \<open>r\<close> is the revision of the write.
\<close>

definition written :: "AssignShardsRequest \<Rightarrow> string \<Rightarrow> bool" where
  "written req e = (mhas (ShardAssignments (NewState req)) e
     \<and> (case ChangedExecutors req of None \<Rightarrow> True | Some changed \<Rightarrow> e \<in> set changed))"

definition assignment_after ::
    "AssignShardsRequest \<Rightarrow> int \<Rightarrow> (string \<Rightarrow> AssignedState option) \<Rightarrow> string \<Rightarrow> AssignedState option" where
  "assignment_after req r old e =
     (if written req e
      then map_option (\<lambda>a. a\<lparr>ModRevision := r\<rparr>) (mget (ShardAssignments (NewState req)) e)
      else if mhas (ExecutorsToDelete req) e then None
      else old e)"

end
