(* ===== verification/EtcdStore.thy ===== *)
theory EtcdStore
  imports Etcd EtcdTypes StoreInterface
begin

text \<open>
  The store on etcd: \<open>store/etcd/executorstore/etcdstore.go\<close> and the parsers of
  \<open>store/etcd/executorstore/common/parse.go\<close>.

  \<^item> A store has a client, a key prefix, the mode of the record writer, the codec and the limit
    on the operations of a transaction.
  \<^item> An operation runs on a database state and returns its result and the new state. Operations
    that call the client more than once take \<open>env\<close>: \<open>env j\<close> is what other processes do to the
    database before the call with number \<open>j\<close>.
  \<^item> A guard turns a transaction into a guarded one or fails. That it returns a transaction of
    the same type, which the code checks dynamically, holds by typing here.
  \<^item> The ranges over maps that build operations and comparisons have no effect through their
    order; where the batches of a commit depend on it there is an \<open>order\<close>.
  \<^item> Latency metrics and log lines are left out, and so is the list of failed comparisons in the
    message of a version conflict.
\<close>

record ('db, 'v) executorStoreImpl =
  st_client :: "('db, 'v) Client"
  st_prefix :: string
  st_writer :: compressionMode
  st_codec :: "'v Codec"
  st_MaxEtcdTxnOps :: int

type_synonym 'v GuardFunc = "'v Txn \<Rightarrow> 'v Txn result"

definition NopGuard :: "'v GuardFunc" where
  "NopGuard txn = Inr txn"

text \<open>The guard of an election: the leader key still has the revision of the campaign.\<close>

definition leader_Guard :: "string \<Rightarrow> int \<Rightarrow> 'v GuardFunc" where
  "leader_Guard key revision txn = Inr (txn\<lparr>If := If txn @ [CmpModRevision key revision]\<rparr>)"

section \<open>Parsing\<close>

record ParsedExecutorData =
  pd_LastHeartbeat :: gotime
  pd_Status :: ExecutorStatus
  pd_ReportedShards :: "(string, ShardStatusReport) gomap"
  pd_AssignedState :: "AssignedState option"
  pd_Metadata :: "(string, string) gomap"
  pd_Statistics :: "(string, ShardStatistics) gomap"
  pd_HostMetadata :: "HostMetadata option"

definition newParsedExecutorData :: ParsedExecutorData where
  "newParsedExecutorData =
     \<lparr>pd_LastHeartbeat = 0, pd_Status = ExecutorStatusINVALID, pd_ReportedShards = [], pd_AssignedState = None,
      pd_Metadata = [], pd_Statistics = [], pd_HostMetadata = None\<rparr>"

definition wrap :: "string \<Rightarrow> 'a result \<Rightarrow> ('a \<Rightarrow> 'b) \<Rightarrow> 'b result" where
  "wrap msg r f = (case r of Inl e \<Rightarrow> Inl (Errorf msg e) | Inr x \<Rightarrow> Inr (f x))"

text \<open>The \<open>switch\<close> on the key type; \<open>None\<close> is its \<open>default\<close>.\<close>

definition parse_executor_value ::
    "'v Codec \<Rightarrow> string \<Rightarrow> string \<Rightarrow> string \<Rightarrow> ExecutorKeyType \<Rightarrow> 'v KeyValue \<Rightarrow> ParsedExecutorData
      \<Rightarrow> ParsedExecutorData result option" where
  "parse_executor_value K etcdPrefix namespace executorID keyType kv execData =
     (if keyType = ExecutorHeartbeatKey
      then Some (wrap ''parse heartbeat time'' (ParseTime K (Text K (kv_Value kv)))
             (\<lambda>t. execData\<lparr>pd_LastHeartbeat := t\<rparr>))
      else if keyType = ExecutorStatusKey
      then Some (wrap ''parse executor status'' (DecompressAndUnmarshal K ExecutorStatus_UnmarshalJSON (kv_Value kv))
             (\<lambda>st. execData\<lparr>pd_Status := st\<rparr>))
      else if keyType = ExecutorReportedShardsKey
      then Some (wrap ''parse reported shards'' (DecompressAndUnmarshal K unmarshal_ReportedShards (kv_Value kv))
             (\<lambda>m. execData\<lparr>pd_ReportedShards := m\<rparr>))
      else if keyType = ExecutorAssignedStateKey
      then Some (wrap ''parse assigned state'' (DecompressAndUnmarshal K (unmarshal_AssignedState K) (kv_Value kv))
             (\<lambda>a. execData\<lparr>pd_AssignedState := Some (a\<lparr>ModRevision := kv_ModRevision kv\<rparr>)\<rparr>))
      else if keyType = ExecutorMetadataKey
      then let metadataKey = TrimPrefix (kv_Key kv) (BuildMetadataKey etcdPrefix namespace executorID [])
        in Some (Inr (execData\<lparr>pd_Metadata := mput metadataKey (Text K (kv_Value kv)) (pd_Metadata execData)\<rparr>))
      else if keyType = ExecutorShardStatisticsKey
      then Some (wrap ''parse shard statistics'' (DecompressAndUnmarshal K (unmarshal_Statistics K) (kv_Value kv))
             (\<lambda>m. execData\<lparr>pd_Statistics := m\<rparr>))
      else if keyType = ExecutorHostMetadataKey
      then Some (wrap ''parse host metadata'' (bind_result (json_parse K (kv_Value kv)) unmarshal_HostMetadata)
             (\<lambda>h. execData\<lparr>pd_HostMetadata := Some h\<rparr>))
      else None)"

fun ParseExecutorKVs_loop ::
    "'v Codec \<Rightarrow> string \<Rightarrow> string \<Rightarrow> 'v KeyValue list \<Rightarrow> (string, ParsedExecutorData) gomap
      \<Rightarrow> (string, ParsedExecutorData) gomap result" where
  "ParseExecutorKVs_loop K etcdPrefix namespace [] data = Inr data"
| "ParseExecutorKVs_loop K etcdPrefix namespace (kv # kvs) data =
     (case ParseExecutorKey etcdPrefix namespace (kv_Key kv) of
        Inl e \<Rightarrow> Inl (Errorf (''parse executor key '' @ kv_Key kv) e)
      | Inr (executorID, keyType) \<Rightarrow>
          (case parse_executor_value K etcdPrefix namespace executorID keyType kv
                  (mzero newParsedExecutorData data executorID) of
             None \<Rightarrow> ParseExecutorKVs_loop K etcdPrefix namespace kvs data
           | Some (Inl e) \<Rightarrow> Inl e
           | Some (Inr execData) \<Rightarrow>
               ParseExecutorKVs_loop K etcdPrefix namespace kvs (mput executorID execData data)))"

definition ParseExecutorKVs ::
    "'v Codec \<Rightarrow> string \<Rightarrow> string \<Rightarrow> 'v KeyValue list \<Rightarrow> (string, ParsedExecutorData) gomap result" where
  "ParseExecutorKVs K etcdPrefix namespace kvs = ParseExecutorKVs_loop K etcdPrefix namespace kvs []"

fun ParseExecutorAssignmentKVs_loop ::
    "'v Codec \<Rightarrow> string \<Rightarrow> string \<Rightarrow> 'v KeyValue list
      \<Rightarrow> (string, (string, string) gomap) gomap \<times> (string, AssignedState) gomap
      \<Rightarrow> ((string, (string, string) gomap) gomap \<times> (string, AssignedState) gomap) result" where
  "ParseExecutorAssignmentKVs_loop K etcdPrefix namespace [] acc = Inr acc"
| "ParseExecutorAssignmentKVs_loop K etcdPrefix namespace (kv # kvs) (metadata, assignments) =
     (case ParseExecutorKey etcdPrefix namespace (kv_Key kv) of
        Inl e \<Rightarrow> Inl (Errorf (''parse executor key '' @ kv_Key kv) e)
      | Inr (executorID, keyType) \<Rightarrow>
          let executorMetadata = mzero [] metadata executorID
          in if keyType = ExecutorAssignedStateKey
             then (case DecompressAndUnmarshal K (unmarshal_AssignedState K) (kv_Value kv) of
                     Inl e \<Rightarrow> Inl (Errorf ''parse assigned state'' e)
                   | Inr assignedState \<Rightarrow>
                       ParseExecutorAssignmentKVs_loop K etcdPrefix namespace kvs
                         (mput executorID executorMetadata metadata,
                          mput executorID (ToAssignedState (assignedState\<lparr>ModRevision := kv_ModRevision kv\<rparr>))
                            assignments))
             else if keyType = ExecutorMetadataKey
             then let metadataKey = TrimPrefix (kv_Key kv) (BuildMetadataKey etcdPrefix namespace executorID [])
               in ParseExecutorAssignmentKVs_loop K etcdPrefix namespace kvs
                    (mput executorID (mput metadataKey (Text K (kv_Value kv)) executorMetadata) metadata,
                     assignments)
             else if keyType = ExecutorHeartbeatKey \<or> keyType = ExecutorStatusKey
               \<or> keyType = ExecutorReportedShardsKey \<or> keyType = ExecutorShardStatisticsKey
               \<or> keyType = ExecutorHostMetadataKey
             then ParseExecutorAssignmentKVs_loop K etcdPrefix namespace kvs
                    (mput executorID executorMetadata metadata, assignments)
             else ParseExecutorAssignmentKVs_loop K etcdPrefix namespace kvs (metadata, assignments))"

definition ParseExecutorAssignmentKVs ::
    "'v Codec \<Rightarrow> string \<Rightarrow> string \<Rightarrow> 'v KeyValue list
      \<Rightarrow> ((string, (string, string) gomap) gomap \<times> (string, AssignedState) gomap) result" where
  "ParseExecutorAssignmentKVs K etcdPrefix namespace kvs =
     ParseExecutorAssignmentKVs_loop K etcdPrefix namespace kvs ([], [])"

definition parseDrainedShardKVs :: "string \<Rightarrow> string \<Rightarrow> 'v KeyValue list \<Rightarrow> gostrset" where
  "parseDrainedShardKVs pre namespace kvs =
     fold (\<lambda>kv drained.
             (case ParseDrainedShardKey pre namespace (kv_Key kv) of
                Inl _ \<Rightarrow> drained
              | Inr shardID \<Rightarrow> List.insert shardID drained))
       kvs []"

definition parseDrainedHostKVs ::
    "'v Codec \<Rightarrow> string \<Rightarrow> string \<Rightarrow> 'v KeyValue list \<Rightarrow> (string, DrainedHost) gomap" where
  "parseDrainedHostKVs K pre namespace kvs =
     fold (\<lambda>kv drained.
             (case ParseDrainedHostKey pre namespace (kv_Key kv) of
                Inl _ \<Rightarrow> drained
              | Inr hostname \<Rightarrow>
                  let record = \<lparr>dh_Hostname = hostname, DrainedAt = 0, DrainedBy = [], dh_Reason = []\<rparr>;
                      record = (if kv_Value kv \<noteq> Bytes K []
                        then (case bind_result (json_parse K (kv_Value kv)) (unmarshal_DrainedHost K) of
                                Inl _ \<Rightarrow> record
                              | Inr parsed \<Rightarrow> parsed\<lparr>dh_Hostname := hostname\<rparr>)
                        else record)
                  in mput hostname record drained))
       kvs []"

section \<open>Reading\<close>

definition heartbeatFromParsed :: "ParsedExecutorData \<Rightarrow> HeartbeatState" where
  "heartbeatFromParsed executorData =
     \<lparr>LastHeartbeat = pd_LastHeartbeat executorData, hb_Status = pd_Status executorData,
      ReportedShards = pd_ReportedShards executorData, hb_Metadata = pd_Metadata executorData,
      hb_HostMetadata = pd_HostMetadata executorData\<rparr>"

definition GetExecutorState ::
    "('db, 'v) executorStoreImpl \<Rightarrow> 'db \<Rightarrow> string \<Rightarrow> string \<Rightarrow> ExecutorState result" where
  "GetExecutorState s db namespace executorID =
     (case GetPrefix (st_client s) (BuildExecutorIDPrefix (st_prefix s) namespace executorID) db of
        Inl e \<Rightarrow> Inl (Errorf ''etcd get failed for executor'' e)
      | Inr kvs \<Rightarrow>
          if length kvs = 0 then Inl ErrExecutorNotFound
          else (case ParseExecutorKVs (st_codec s) (st_prefix s) namespace kvs of
                  Inl e \<Rightarrow> Inl e
                | Inr parsedData \<Rightarrow>
                    (case mget parsedData executorID of
                       None \<Rightarrow> Inl ErrExecutorNotFound
                     | Some executorData \<Rightarrow>
                         Inr \<lparr>es_Heartbeat = Some (heartbeatFromParsed executorData),
                              es_Assignment = map_option ToAssignedState (pd_AssignedState executorData),
                              es_Statistics = ToShardStatisticsMap (pd_Statistics executorData)\<rparr>)))"

text \<open>The key-value pairs of the \<open>i\<close>-th response, when it is a range response.\<close>

definition range_kvs :: "'v TxnResponse \<Rightarrow> nat \<Rightarrow> 'v KeyValue list" where
  "range_kvs resp i = (case Responses resp ! i of ResponseRange kvs \<Rightarrow> kvs | _ \<Rightarrow> [])"

definition GetState_txn :: "('db, 'v) executorStoreImpl \<Rightarrow> string \<Rightarrow> 'v Txn" where
  "GetState_txn s namespace = empty_Txn\<lparr>Then :=
     [OpGetPrefix (BuildExecutorsPrefix (st_prefix s) namespace),
      OpGetPrefix (BuildDrainedShardsPrefix (st_prefix s) namespace),
      OpGetPrefix (BuildDrainedHostsPrefix (st_prefix s) namespace)]\<rparr>"

text \<open>The statistics of a shard listed by two executors are those of the one visited last.\<close>

definition namespaceState_of ::
    "order \<Rightarrow> (string, ParsedExecutorData) gomap \<Rightarrow> gostrset \<Rightarrow> (string, DrainedHost) gomap \<Rightarrow> int
      \<Rightarrow> NamespaceState" where
  "namespaceState_of ord parsedData drainedShards drainedHosts revision =
     \<lparr>ExecutorMetadata = store_loop (\<lambda>_ d. Some (pd_Metadata d)) parsedData [],
      ShardAssignments = store_loop (\<lambda>_ d. map_option ToAssignedState (pd_AssignedState d)) parsedData [],
      DrainedShards = drainedShards, Revision = revision, AssignmentRevision = 0,
      Executors = store_loop (\<lambda>_ d. Some (heartbeatFromParsed d)) parsedData [],
      ShardStats = fold (\<lambda>(_, d) shardStats.
          fold (\<lambda>(shardID, statistics) shardStats. mput shardID (ToShardStatistics statistics) shardStats)
            (pd_Statistics d) shardStats) (mrange ord parsedData) [],
      DrainedHosts = drainedHosts\<rparr>"

definition etcd_GetState ::
    "order \<Rightarrow> ('db, 'v) executorStoreImpl \<Rightarrow> 'db \<Rightarrow> string \<Rightarrow> NamespaceState result \<times> 'db" where
  "etcd_GetState ord s db namespace =
     (case Commit (st_client s) (GetState_txn s namespace) db of
        (Inl e, db) \<Rightarrow> (Inl (Errorf ''get namespace state'' e), db)
      | (Inr txnResp, db) \<Rightarrow>
          if length (Responses txnResp) \<noteq> 3
          then (Inl (ErrorString ''get namespace state: expected 3 responses''), db)
          else (case ParseExecutorKVs (st_codec s) (st_prefix s) namespace (range_kvs txnResp 0) of
                  Inl e \<Rightarrow> (Inl e, db)
                | Inr parsedData \<Rightarrow>
                    (Inr (namespaceState_of ord parsedData
                       (parseDrainedShardKVs (st_prefix s) namespace (range_kvs txnResp 1))
                       (parseDrainedHostKVs (st_codec s) (st_prefix s) namespace (range_kvs txnResp 2))
                       (HeaderRevision txnResp)), db)))"

definition loadDrainedShardSet ::
    "('db, 'v) executorStoreImpl \<Rightarrow> 'db \<Rightarrow> string \<Rightarrow> gostrset result" where
  "loadDrainedShardSet s db namespace =
     (case GetPrefix (st_client s) (BuildDrainedShardsPrefix (st_prefix s) namespace) db of
        Inl e \<Rightarrow> Inl (Errorf ''get drained shards prefix'' e)
      | Inr kvs \<Rightarrow> Inr (parseDrainedShardKVs (st_prefix s) namespace kvs))"

definition GetAssignmentState_txn :: "('db, 'v) executorStoreImpl \<Rightarrow> string \<Rightarrow> 'v Txn" where
  "GetAssignmentState_txn s namespace = empty_Txn\<lparr>Then :=
     [OpGetPrefix (BuildExecutorsPrefix (st_prefix s) namespace),
      OpGetPrefix (BuildDrainedShardsPrefix (st_prefix s) namespace),
      OpGet (BuildAssignmentVersionKey (st_prefix s) namespace)]\<rparr>"

definition GetAssignmentState ::
    "('db, 'v) executorStoreImpl \<Rightarrow> 'db \<Rightarrow> string \<Rightarrow> AssignmentState result \<times> 'db" where
  "GetAssignmentState s db namespace =
     (case Commit (st_client s) (GetAssignmentState_txn s namespace) db of
        (Inl e, db) \<Rightarrow> (Inl (Errorf ''get namespace assignment state'' e), db)
      | (Inr txnResp, db) \<Rightarrow>
          if length (Responses txnResp) \<noteq> 3
          then (Inl (ErrorString ''get namespace assignment state: expected 3 responses''), db)
          else (case ParseExecutorAssignmentKVs (st_codec s) (st_prefix s) namespace (range_kvs txnResp 0) of
                  Inl e \<Rightarrow> (Inl e, db)
                | Inr (metadata, assignments) \<Rightarrow>
                    let kvs = range_kvs txnResp 2;
                        assignmentRevision = (case kvs of [] \<Rightarrow> 0 | kv # _ \<Rightarrow> kv_ModRevision kv)
                    in (Inr \<lparr>ExecutorMetadata = metadata, ShardAssignments = assignments,
                          DrainedShards = parseDrainedShardKVs (st_prefix s) namespace (range_kvs txnResp 1),
                          Revision = HeaderRevision txnResp, AssignmentRevision = assignmentRevision\<rparr>, db)))"

definition loadDrainedHostSet ::
    "('db, 'v) executorStoreImpl \<Rightarrow> 'db \<Rightarrow> string \<Rightarrow> (string, DrainedHost) gomap result" where
  "loadDrainedHostSet s db namespace =
     (case GetPrefix (st_client s) (BuildDrainedHostsPrefix (st_prefix s) namespace) db of
        Inl e \<Rightarrow> Inl (Errorf ''get drained hosts prefix'' e)
      | Inr kvs \<Rightarrow> Inr (parseDrainedHostKVs (st_codec s) (st_prefix s) namespace kvs))"

definition GetDrainedShards :: "('db, 'v) executorStoreImpl \<Rightarrow> 'db \<Rightarrow> string \<Rightarrow> string list result" where
  "GetDrainedShards s db namespace = wrap ''get drained shards'' (loadDrainedShardSet s db namespace) sort"

definition GetDrainedHosts :: "('db, 'v) executorStoreImpl \<Rightarrow> 'db \<Rightarrow> string \<Rightarrow> DrainedHost list result" where
  "GetDrainedHosts s db namespace =
     wrap ''get drained hosts'' (loadDrainedHostSet s db namespace)
       (\<lambda>drained. map (\<lambda>hostname. the (mget drained hostname)) (sort (mkeys drained)))"

section \<open>Watching the executors' status\<close>

record 'v WatchEvent =
  ev_Key :: string
  ev_Value :: 'v
  ev_PrevValue :: "'v option"

definition hasExecutorStatusChanged ::
    "('db, 'v) executorStoreImpl \<Rightarrow> string \<Rightarrow> 'v WatchEvent list \<Rightarrow> bool" where
  "hasExecutorStatusChanged s namespace events =
     list_ex (\<lambda>event.
       (case ParseExecutorKey (st_prefix s) namespace (ev_Key event) of
          Inl _ \<Rightarrow> False
        | Inr (_, keyType) \<Rightarrow>
            if keyType \<noteq> ExecutorStatusKey then False
            else if ev_PrevValue event = Some (ev_Value event) then False
            else True)) events"

text \<open>
  One response of the watch, with its events and revision. The channel has one slot; a revision
  that was not read yet is replaced. An error ends the loop, which closes the channel (\<open>None\<close>).
\<close>

definition status_watch_step ::
    "('db, 'v) executorStoreImpl \<Rightarrow> string \<Rightarrow> ('v WatchEvent list \<times> int) result \<Rightarrow> int option option
      \<Rightarrow> int option option" where
  "status_watch_step s namespace watchResp revisionChan =
     (case revisionChan of
        None \<Rightarrow> None
      | Some slot \<Rightarrow>
          (case watchResp of
             Inl _ \<Rightarrow> None
           | Inr (events, revision) \<Rightarrow>
               if \<not> hasExecutorStatusChanged s namespace events then Some slot
               else Some (Some revision)))"

section \<open>Writing\<close>

definition touchAssignmentVersion :: "('db, 'v) executorStoreImpl \<Rightarrow> string \<Rightarrow> 'v Op" where
  "touchAssignmentVersion s namespace =
     OpPut (BuildAssignmentVersionKey (st_prefix s) namespace) (Bytes (st_codec s) ''{}'')"

definition RecordHeartbeat ::
    "('db, 'v) executorStoreImpl \<Rightarrow> 'db \<Rightarrow> string \<Rightarrow> string \<Rightarrow> HeartbeatState \<Rightarrow> unit result \<times> 'db" where
  "RecordHeartbeat s db namespace executorID request =
     (let K = st_codec s;
          executorKey = BuildExecutorKey (st_prefix s) namespace executorID;
          metadataKey = BuildMetadataKey (st_prefix s) namespace executorID
      in case marshal_ReportedShards (ReportedShards request) of
           Inl e \<Rightarrow> (Inl (Errorf ''marshal reported shards'' e), db)
         | Inr reportedShardsData \<Rightarrow>
             (case Write K (st_writer s) (json_print K reportedShardsData) of
                Inl e \<Rightarrow> (Inl (Errorf ''compress reported shards'' e), db)
              | Inr compressedReportedShards \<Rightarrow>
                  (case Write K (st_writer s) (json_print K (ExecutorStatus_MarshalJSON (hb_Status request))) of
                     Inl e \<Rightarrow> (Inl (Errorf ''compress assigned state'' e), db)
                   | Inr compressedState \<Rightarrow>
                       let ops =
                             [OpPut (executorKey ExecutorHeartbeatKey) (Bytes K (FormatTime K (LastHeartbeat request))),
                              OpPut (executorKey ExecutorStatusKey) compressedState,
                              OpPut (executorKey ExecutorReportedShardsKey) compressedReportedShards]
                             @ map (\<lambda>(key, val). OpPut (metadataKey key) (Bytes K val)) (hb_Metadata request)
                             @ (case hb_HostMetadata request of
                                  None \<Rightarrow> []
                                | Some h \<Rightarrow> [OpPut (executorKey ExecutorHostMetadataKey)
                                               (json_print K (marshal_HostMetadata h))]);
                           unchanged = map (\<lambda>(key, val). CmpValue (metadataKey key) (Bytes K val)) (hb_Metadata request)
                       in case Commit (st_client s) \<lparr>If = unchanged, Then = ops,
                                 Else = ops @ [touchAssignmentVersion s namespace]\<rparr> db of
                            (Inl e, db) \<Rightarrow> (Inl (Errorf ''record heartbeat'' e), db)
                          | (Inr _, db) \<Rightarrow> (Inr (), db))))"

text \<open>The payload of a statistics key, with the messages of the caller.\<close>

definition statistics_payload ::
    "('db, 'v) executorStoreImpl \<Rightarrow> string \<Rightarrow> string \<Rightarrow> (string, ShardStatistics) gomap \<Rightarrow> 'v result" where
  "statistics_payload s marshalMsg compressMsg statistics =
     (case marshal_Statistics (st_codec s) (FromShardStatisticsMap statistics) of
        Inl e \<Rightarrow> Inl (Errorf marshalMsg e)
      | Inr payload \<Rightarrow>
          (case Write (st_codec s) (st_writer s) (json_print (st_codec s) payload) of
             Inl e \<Rightarrow> Inl (Errorf compressMsg e)
           | Inr compressedPayload \<Rightarrow> Inr compressedPayload))"

definition RecordShardStatistics ::
    "('db, 'v) executorStoreImpl \<Rightarrow> 'db \<Rightarrow> string \<Rightarrow> string \<Rightarrow> int \<Rightarrow> (string, ShardStatistics) gomap
      \<Rightarrow> unit result \<times> 'db" where
  "RecordShardStatistics s db namespace executorID assignmentModRevision statistics =
     (case statistics_payload s ''marshal executor shard statistics'' ''compress executor shard statistics''
             statistics of
        Inl e \<Rightarrow> (Inl e, db)
      | Inr compressedPayload \<Rightarrow>
          let assignedStateKey = BuildExecutorKey (st_prefix s) namespace executorID ExecutorAssignedStateKey;
              statsKey = BuildExecutorKey (st_prefix s) namespace executorID ExecutorShardStatisticsKey
          in case Commit (st_client s) \<lparr>If = [CmpModRevision assignedStateKey assignmentModRevision],
                    Then = [OpPut statsKey compressedPayload], Else = []\<rparr> db of
               (Inl e, db) \<Rightarrow> (Inl (Errorf ''put executor shard statistics'' e), db)
             | (Inr txnResp, db) \<Rightarrow>
                 if \<not> Succeeded txnResp
                 then (Inl (Errorf ''executor assignment changed'' ErrVersionConflict), db)
                 else (Inr (), db))"

text \<open>The puts of \<open>AssignShards\<close>, for the executors that changed.\<close>

fun assign_puts ::
    "('db, 'v) executorStoreImpl \<Rightarrow> string \<Rightarrow> gostrset option \<Rightarrow> (string, AssignedState) gomap
      \<Rightarrow> 'v Op list result" where
  "assign_puts s namespace changed [] = Inr []"
| "assign_puts s namespace changed ((executorID, state) # states) =
     (if changed \<noteq> None \<and> executorID \<notin> set (the changed) then assign_puts s namespace changed states
      else case Write (st_codec s) (st_writer s)
                  (json_print (st_codec s) (marshal_AssignedState (st_codec s) (FromAssignedState state))) of
             Inl e \<Rightarrow> Inl (Errorf ''compress assigned shards'' e)
           | Inr compressedValue \<Rightarrow>
               (case assign_puts s namespace changed states of
                  Inl e \<Rightarrow> Inl e
                | Inr ops \<Rightarrow>
                    Inr (OpPut (BuildExecutorKey (st_prefix s) namespace executorID ExecutorAssignedStateKey)
                           compressedValue # ops)))"

definition assign_deletes :: "('db, 'v) executorStoreImpl \<Rightarrow> string \<Rightarrow> AssignShardsRequest \<Rightarrow> 'v Op list" where
  "assign_deletes s namespace request =
     map (\<lambda>(executorID, _). OpDeletePrefix (BuildExecutorIDPrefix (st_prefix s) namespace executorID))
       (ExecutorsToDelete request)"

definition assign_comparisons :: "('db, 'v) executorStoreImpl \<Rightarrow> string \<Rightarrow> AssignShardsRequest \<Rightarrow> 'v Cmp list" where
  "assign_comparisons s namespace request =
     map (\<lambda>(executorID, expectedModRevision).
            CmpModRevision (BuildExecutorKey (st_prefix s) namespace executorID ExecutorAssignedStateKey)
              expectedModRevision)
       (ExecutorsToDelete request)
     @ map (\<lambda>(executorID, state).
              CmpModRevision (BuildExecutorKey (st_prefix s) namespace executorID ExecutorAssignedStateKey)
                (ModRevision state))
         (ShardAssignments (NewState request))"

definition assign_opsElse :: "('db, 'v) executorStoreImpl \<Rightarrow> string \<Rightarrow> AssignShardsRequest \<Rightarrow> 'v Op list" where
  "assign_opsElse s namespace request =
     map (\<lambda>executorID. OpGet (BuildExecutorKey (st_prefix s) namespace executorID ExecutorAssignedStateKey))
       (mkeys (ExecutorsToDelete request) @ mkeys (ShardAssignments (NewState request)))"

definition etcd_AssignShards ::
    "('db, 'v) executorStoreImpl \<Rightarrow> 'db \<Rightarrow> string \<Rightarrow> AssignShardsRequest \<Rightarrow> 'v GuardFunc
      \<Rightarrow> unit result \<times> 'db" where
  "etcd_AssignShards s db namespace request guard =
     (case assign_puts s namespace (ChangedExecutors request) (ShardAssignments (NewState request)) of
        Inl e \<Rightarrow> (Inl e, db)
      | Inr puts \<Rightarrow>
          let ops = assign_deletes s namespace request @ puts
          in if length ops = 0 then (Inr (), db)
             else
               let ops = ops @ [touchAssignmentVersion s namespace]
               in case guard empty_Txn of
                    Inl e \<Rightarrow> (Inl (Errorf ''apply transaction guard'' e), db)
                  | Inr guardedTxn \<Rightarrow>
                      (case Commit (st_client s) (guardedTxn\<lparr>Then :=
                              [OpTxn (assign_comparisons s namespace request) ops
                                 (assign_opsElse s namespace request)]\<rparr>) db of
                         (Inl e, db) \<Rightarrow> (Inl (Errorf ''commit shard assignments transaction'' e), db)
                       | (Inr txnResp, db) \<Rightarrow>
                           if \<not> Succeeded txnResp
                           then (Inl (Errorf ''transaction failed, leadership may have changed'' ErrVersionConflict), db)
                           else (case Responses txnResp of
                                   ResponseTxn True _ # _ \<Rightarrow> (Inr (), db)
                                 | ResponseTxn False _ # _ \<Rightarrow>
                                     (Inl (Errorf ''transaction failed, a shard may have been concurrently assigned''
                                             ErrVersionConflict), db)
                                 | _ \<Rightarrow> (Inl (ErrorString ''unexpected empty response from transaction''), db))))"

text \<open>
  The loop of \<open>commitOps\<close> over the batches. The size of a batch is positive (lemma
  \<open>batchSize_pos\<close> below), so the second disjunct of the exit test never applies.
\<close>

function commit_batches ::
    "('db, 'v) executorStoreImpl \<Rightarrow> (nat \<Rightarrow> 'db \<Rightarrow> 'db) \<Rightarrow> nat \<Rightarrow> 'v GuardFunc \<Rightarrow> nat \<Rightarrow> 'v Op list
      \<Rightarrow> 'v Op list \<Rightarrow> 'db \<Rightarrow> 'v TxnResponse list result \<times> 'db" where
  "commit_batches s env j guard batchSize extraOps ops db =
     (if ops = [] \<or> batchSize = 0 then (Inr [], db)
      else case guard empty_Txn of
             Inl e \<Rightarrow> (Inl (Errorf ''apply transaction guard'' e), db)
           | Inr guardedTxn \<Rightarrow>
               (case Commit (st_client s) (guardedTxn\<lparr>Then := take batchSize ops @ extraOps\<rparr>) (env j db) of
                  (Inl e, db) \<Rightarrow> (Inl (Errorf ''commit batch'' e), db)
                | (Inr resp, db) \<Rightarrow>
                    if \<not> Succeeded resp
                    then (Inl (ErrorString ''transaction failed, leadership may have changed''), db)
                    else let resp = resp\<lparr>Responses :=
                               take (length (Responses resp) - length extraOps) (Responses resp)\<rparr>
                      in case commit_batches s env (Suc j) guard batchSize extraOps (drop batchSize ops) db of
                           (Inl e, db) \<Rightarrow> (Inl e, db)
                         | (Inr responses, db) \<Rightarrow> (Inr (resp # responses), db)))"
  by auto
termination by (relation "measure (\<lambda>(_, _, _, _, _, _, ops, _). length ops)") (auto simp: length_greater_0_conv)

declare commit_batches.simps [simp del]

definition guardOpOverhead :: int where "guardOpOverhead = 1"

definition maxOpsPerTxn :: "('db, 'v) executorStoreImpl \<Rightarrow> nat \<Rightarrow> nat" where
  "maxOpsPerTxn s extra =
     (let n = st_MaxEtcdTxnOps s - guardOpOverhead - int extra in if n < 1 then 1 else nat n)"

definition batch_size :: "nat \<Rightarrow> nat \<Rightarrow> nat" where
  "batch_size maxOps numOps =
     (let numBatches = (numOps + maxOps - 1) div maxOps in (numOps + numBatches - 1) div numBatches)"

definition commitOps ::
    "('db, 'v) executorStoreImpl \<Rightarrow> (nat \<Rightarrow> 'db \<Rightarrow> 'db) \<Rightarrow> 'db \<Rightarrow> 'v Op list \<Rightarrow> 'v GuardFunc \<Rightarrow> 'v Op list
      \<Rightarrow> 'v TxnResponse list result \<times> 'db" where
  "commitOps s env db ops guard extraOps =
     (if length ops = 0 then (Inr [], db)
      else commit_batches s env 0 guard (batch_size (maxOpsPerTxn s (length extraOps)) (length ops))
             extraOps ops db)"

definition commitAssignmentOps ::
    "('db, 'v) executorStoreImpl \<Rightarrow> (nat \<Rightarrow> 'db \<Rightarrow> 'db) \<Rightarrow> 'db \<Rightarrow> string \<Rightarrow> 'v Op list \<Rightarrow> 'v GuardFunc
      \<Rightarrow> 'v TxnResponse list result \<times> 'db" where
  "commitAssignmentOps s env db namespace ops guard =
     commitOps s env db ops guard [touchAssignmentVersion s namespace]"

text \<open>The responses of all batches in order, against the IDs.\<close>

fun deletedIDs_loop :: "'v OpResponse list \<Rightarrow> string list \<Rightarrow> string list result" where
  "deletedIDs_loop [] ids = Inr []"
| "deletedIDs_loop (r # rs) [] = Inl (ErrorString ''got more op responses than ops submitted'')"
| "deletedIDs_loop (r # rs) (i # ids) =
     (case deletedIDs_loop rs ids of
        Inl e \<Rightarrow> Inl e
      | Inr removed \<Rightarrow>
          (case r of
             ResponseDeleteRange deleted \<Rightarrow> Inr (if 0 < deleted then i # removed else removed)
           | _ \<Rightarrow> Inr removed))"

definition deletedIDs :: "'v TxnResponse list \<Rightarrow> string list \<Rightarrow> string list result" where
  "deletedIDs responses ids = deletedIDs_loop (concat (map Responses responses)) ids"

definition etcd_DeleteExecutors ::
    "('db, 'v) executorStoreImpl \<Rightarrow> (nat \<Rightarrow> 'db \<Rightarrow> 'db) \<Rightarrow> 'db \<Rightarrow> string \<Rightarrow> string list \<Rightarrow> 'v GuardFunc
      \<Rightarrow> unit result \<times> 'db" where
  "etcd_DeleteExecutors s env db namespace executorIDs guard =
     (if length executorIDs = 0 then (Inr (), db)
      else let ops = map (\<lambda>executorID.
                 OpDeletePrefix (BuildExecutorIDPrefix (st_prefix s) namespace executorID)) executorIDs
        in case commitAssignmentOps s env db namespace ops guard of
             (Inl e, db) \<Rightarrow> (Inl (Errorf ''delete executors'' e), db)
           | (Inr _, db) \<Rightarrow> (Inr (), db))"

text \<open>The operation for one executor's statistics; a record that cannot be written is skipped.\<close>

definition stats_cleanup_ops ::
    "('db, 'v) executorStoreImpl \<Rightarrow> string \<Rightarrow> string list \<Rightarrow> string \<times> ParsedExecutorData \<Rightarrow> 'v Op list" where
  "stats_cleanup_ops s namespace toDelete = (\<lambda>(executorID, executorData).
     let executorStats = filter (\<lambda>(shardID, _). shardID \<notin> set toDelete) (pd_Statistics executorData);
         changed = list_ex (\<lambda>(shardID, _). shardID \<in> set toDelete) (pd_Statistics executorData);
         statsKey = BuildExecutorKey (st_prefix s) namespace executorID ExecutorShardStatisticsKey
     in if \<not> changed then []
        else if length executorStats = 0 then [OpDelete statsKey]
        else case marshal_Statistics (st_codec s) executorStats of
               Inl _ \<Rightarrow> []
             | Inr payload \<Rightarrow>
                 (case Write (st_codec s) (st_writer s) (json_print (st_codec s) payload) of
                    Inl _ \<Rightarrow> []
                  | Inr compressedPayload \<Rightarrow> [OpPut statsKey compressedPayload]))"

definition etcd_DeleteShardStats ::
    "order \<Rightarrow> ('db, 'v) executorStoreImpl \<Rightarrow> (nat \<Rightarrow> 'db \<Rightarrow> 'db) \<Rightarrow> 'db \<Rightarrow> string \<Rightarrow> string list
      \<Rightarrow> 'v GuardFunc \<Rightarrow> unit result \<times> 'db" where
  "etcd_DeleteShardStats ord s env db namespace shardIDs guard =
     (if length shardIDs = 0 then (Inr (), db)
      else case GetPrefix (st_client s) (BuildExecutorsPrefix (st_prefix s) namespace) db of
             Inl e \<Rightarrow> (Inl (Errorf ''get executor data for shard stats deletion'' e), db)
           | Inr kvs \<Rightarrow>
               (case ParseExecutorKVs (st_codec s) (st_prefix s) namespace kvs of
                  Inl e \<Rightarrow> (Inl e, db)
                | Inr parsedData \<Rightarrow>
                    let ops = concat (map (stats_cleanup_ops s namespace shardIDs) (mrange ord parsedData))
                    in case commitOps s env db ops guard [] of
                         (Inl e, db) \<Rightarrow> (Inl (Errorf ''delete shard stats'' e), db)
                       | (Inr _, db) \<Rightarrow> (Inr (), db)))"

definition ResetNamespace ::
    "('db, 'v) executorStoreImpl \<Rightarrow> 'db \<Rightarrow> string \<Rightarrow> int result \<times> 'db" where
  "ResetNamespace s db namespace =
     (case Commit (st_client s) (empty_Txn\<lparr>Then :=
             [OpDeletePrefix (BuildNamespacePrefix (st_prefix s) namespace), touchAssignmentVersion s namespace]\<rparr>) db of
        (Inl e, db) \<Rightarrow> (Inl (Errorf ''delete namespace prefix'' e), db)
      | (Inr resp, db) \<Rightarrow>
          (case Responses resp of
             ResponseDeleteRange deleted # _ \<Rightarrow> (Inr deleted, db)
           | _ \<Rightarrow> (Inr 0, db)))"

text \<open>The operations for a list of shard IDs, once all of them are valid.\<close>

fun shard_ops :: "(string \<Rightarrow> 'v Op) \<Rightarrow> string list \<Rightarrow> 'v Op list result" where
  "shard_ops f [] = Inr []"
| "shard_ops f (shardID # shardIDs) =
     (case ValidateShardID shardID of
        Inl e \<Rightarrow> Inl e
      | Inr _ \<Rightarrow> (case shard_ops f shardIDs of Inl e \<Rightarrow> Inl e | Inr ops \<Rightarrow> Inr (f shardID # ops)))"

definition DrainShards ::
    "('db, 'v) executorStoreImpl \<Rightarrow> (nat \<Rightarrow> 'db \<Rightarrow> 'db) \<Rightarrow> 'db \<Rightarrow> string \<Rightarrow> string list \<Rightarrow> unit result \<times> 'db" where
  "DrainShards s env db namespace shardIDs =
     (if length shardIDs = 0 then (Inr (), db)
      else case shard_ops (\<lambda>shardID. OpPut (BuildDrainedShardKey (st_prefix s) namespace shardID)
                  (Bytes (st_codec s) [])) shardIDs of
             Inl e \<Rightarrow> (Inl (Errorf ''drain shards'' e), db)
           | Inr ops \<Rightarrow>
               (case commitAssignmentOps s env db namespace ops NopGuard of
                  (Inl e, db) \<Rightarrow> (Inl (Errorf ''drain shards'' e), db)
                | (Inr _, db) \<Rightarrow> (Inr (), db)))"

definition UndrainShards ::
    "('db, 'v) executorStoreImpl \<Rightarrow> (nat \<Rightarrow> 'db \<Rightarrow> 'db) \<Rightarrow> 'db \<Rightarrow> string \<Rightarrow> string list
      \<Rightarrow> string list result \<times> 'db" where
  "UndrainShards s env db namespace shardIDs =
     (if length shardIDs = 0 then (Inr [], db)
      else case shard_ops (\<lambda>shardID. OpDelete (BuildDrainedShardKey (st_prefix s) namespace shardID)) shardIDs of
             Inl e \<Rightarrow> (Inl (Errorf ''undrain shards'' e), db)
           | Inr ops \<Rightarrow>
               (case commitAssignmentOps s env db namespace ops NopGuard of
                  (Inl e, db) \<Rightarrow> (Inl (Errorf ''undrain shards'' e), db)
                | (Inr responses, db) \<Rightarrow>
                    (case deletedIDs responses shardIDs of
                       Inl e \<Rightarrow> (Inl (Errorf ''undrain shards'' e), db)
                     | Inr removed \<Rightarrow> (Inr removed, db))))"

fun validateDrainedHosts_loop ::
    "gotime \<Rightarrow> DrainedHost list \<Rightarrow> (string, DrainedHost) gomap \<Rightarrow> (string, DrainedHost) gomap result" where
  "validateDrainedHosts_loop now [] validated = Inr validated"
| "validateDrainedHosts_loop now (host # hosts) validated =
     (case Validate (dh_Hostname host) of
        Inl e \<Rightarrow> Inl e
      | Inr _ \<Rightarrow>
          if mhas validated (dh_Hostname host) then validateDrainedHosts_loop now hosts validated
          else let host = (if IsZero (DrainedAt host) then host\<lparr>DrainedAt := now\<rparr> else host)
            in validateDrainedHosts_loop now hosts (mput (dh_Hostname host) host validated))"

definition validateDrainedHosts :: "DrainedHost list \<Rightarrow> gotime \<Rightarrow> (string, DrainedHost) gomap result" where
  "validateDrainedHosts hosts now = validateDrainedHosts_loop now hosts []"

definition DrainHosts ::
    "order \<Rightarrow> ('db, 'v) executorStoreImpl \<Rightarrow> (nat \<Rightarrow> 'db \<Rightarrow> 'db) \<Rightarrow> gotime \<Rightarrow> 'db \<Rightarrow> string \<Rightarrow> DrainedHost list
      \<Rightarrow> unit result \<times> 'db" where
  "DrainHosts ord s env now db namespace hosts =
     (if length hosts = 0 then (Inr (), db)
      else case validateDrainedHosts hosts now of
             Inl e \<Rightarrow> (Inl (Errorf ''drain hosts'' e), db)
           | Inr validated \<Rightarrow>
               (case loadDrainedHostSet s db namespace of
                  Inl e \<Rightarrow> (Inl (Errorf ''drain hosts'' e), db)
                | Inr existing \<Rightarrow>
                    let ops = map (\<lambda>(hostname, host). OpPut (BuildDrainedHostKey (st_prefix s) namespace hostname)
                                (json_print (st_codec s) (marshal_DrainedHost (st_codec s) host)))
                          (filter (\<lambda>(hostname, _). \<not> mhas existing hostname) (mrange ord validated))
                    in if length ops = 0 then (Inr (), db)
                       else case commitOps s env db ops NopGuard [] of
                              (Inl e, db) \<Rightarrow> (Inl (Errorf ''drain hosts'' e), db)
                            | (Inr _, db) \<Rightarrow> (Inr (), db)))"

fun validate_all :: "string list \<Rightarrow> unit result" where
  "validate_all [] = Inr ()"
| "validate_all (name # names) = (case Validate name of Inl e \<Rightarrow> Inl e | Inr _ \<Rightarrow> validate_all names)"

definition UndrainHosts ::
    "('db, 'v) executorStoreImpl \<Rightarrow> (nat \<Rightarrow> 'db \<Rightarrow> 'db) \<Rightarrow> 'db \<Rightarrow> string \<Rightarrow> string list
      \<Rightarrow> string list result \<times> 'db" where
  "UndrainHosts s env db namespace hostnames =
     (if length hostnames = 0 then (Inr [], db)
      else case validate_all hostnames of
             Inl e \<Rightarrow> (Inl (Errorf ''undrain hosts'' e), db)
           | Inr _ \<Rightarrow>
               let ops = map (\<lambda>hostname. OpDelete (BuildDrainedHostKey (st_prefix s) namespace hostname)) hostnames
               in case commitOps s env db ops NopGuard [] of
                    (Inl e, db) \<Rightarrow> (Inl (Errorf ''undrain hosts'' e), db)
                  | (Inr responses, db) \<Rightarrow>
                      (case deletedIDs responses hostnames of
                         Inl e \<Rightarrow> (Inl (Errorf ''undrain hosts'' e), db)
                       | Inr removed \<Rightarrow> (Inr removed, db)))"

text \<open>\<open>errors.Join\<close> of what failed so far with one more error.\<close>

definition Join :: "unit result \<Rightarrow> err \<Rightarrow> unit result" where
  "Join multiError e = (case multiError of Inl e\<^sub>0 \<Rightarrow> Inl (JoinError e\<^sub>0 e) | Inr _ \<Rightarrow> Inl e)"

fun record_statistics_loop ::
    "('db, 'v) executorStoreImpl \<Rightarrow> (nat \<Rightarrow> 'db \<Rightarrow> 'db) \<Rightarrow> nat \<Rightarrow> string \<Rightarrow> ExecutorShardStatistics list
      \<Rightarrow> unit result \<Rightarrow> 'db \<Rightarrow> unit result \<times> 'db" where
  "record_statistics_loop s env j namespace [] multiError db = (multiError, db)"
| "record_statistics_loop s env j namespace (upd # updates) multiError db =
     (let statsKey = BuildExecutorKey (st_prefix s) namespace (ess_ExecutorID upd) ExecutorShardStatisticsKey
      in if length (ess_Statistics upd) = 0
         then (case Delete (st_client s) statsKey (env j db) of
                 (Inl e, db) \<Rightarrow> record_statistics_loop s env (Suc j) namespace updates
                                 (Join multiError (Errorf ''failed to delete shard statistics'' e)) db
               | (Inr _, db) \<Rightarrow> record_statistics_loop s env (Suc j) namespace updates multiError db)
         else case statistics_payload s ''failed to marshal shard statistics''
                     ''failed to compress shard statistics'' (ess_Statistics upd) of
                Inl e \<Rightarrow> record_statistics_loop s env (Suc j) namespace updates (Join multiError e) db
              | Inr compressedPayload \<Rightarrow>
                  (case Put (st_client s) statsKey compressedPayload (env j db) of
                     (Inl e, db) \<Rightarrow> record_statistics_loop s env (Suc j) namespace updates
                                     (Join multiError (Errorf ''failed to put shard statistics'' e)) db
                   | (Inr _, db) \<Rightarrow> record_statistics_loop s env (Suc j) namespace updates multiError db))"

definition etcd_RecordShardStatisticsBatch ::
    "('db, 'v) executorStoreImpl \<Rightarrow> (nat \<Rightarrow> 'db \<Rightarrow> 'db) \<Rightarrow> 'db \<Rightarrow> string \<Rightarrow> ExecutorShardStatistics list
      \<Rightarrow> unit result \<times> 'db" where
  "etcd_RecordShardStatisticsBatch s env db namespace updates =
     record_statistics_loop s env 0 namespace updates (Inr ()) db"

text \<open>The operations the leader and the ephemeral assigner call, as a \<open>store.Store\<close>.\<close>

definition etcd_store ::
    "order \<Rightarrow> (nat \<Rightarrow> 'db \<Rightarrow> 'db) \<Rightarrow> ('db, 'v) executorStoreImpl \<Rightarrow> ('db, 'v GuardFunc) Store" where
  "etcd_store ord env s =
     \<lparr>GetState = (\<lambda>db namespace. fst (etcd_GetState ord s db namespace)),
      AssignShards = etcd_AssignShards s,
      DeleteExecutors = etcd_DeleteExecutors s env,
      RecordShardStatisticsBatch = etcd_RecordShardStatisticsBatch s env,
      DeleteShardStats = etcd_DeleteShardStats ord s env\<rparr>"

end
