(* ===== verification/Plan.thy ===== *)
theory Plan
  imports State
begin

text \<open>
  Placements and moves, \<open>loadbalancer/plan/plan.go\<close>; \<open>applyMoves\<close> of
  \<open>leader/process/processor.go\<close>, which carries out a planned list of moves; and the two
  contracts the strategies implement, as locales: what a planner of initial placements
  promises the assigner, and what a planner of moves promises the leader.
\<close>

section \<open>Data\<close>

record Placement =
  pl_ShardID :: string
  pl_ExecutorID :: string

record Move =
  mv_ShardID :: string
  mv_From :: string
  mv_To :: string

type_synonym assignments = "(string, string list) gomap"

section \<open>Applying moves\<close>

definition errMoveSource :: err where
  "errMoveSource = ErrorString ''shard not found in source executor''"

definition applyMove :: "assignments \<Rightarrow> Move \<Rightarrow> assignments result" where
  "applyMove currentAssignments move =
     (case slices_Index (slice currentAssignments (mv_From move)) (mv_ShardID move) of
        None \<Rightarrow> Inl errMoveSource
      | Some idx \<Rightarrow>
          let removed = mput (mv_From move)
                (swap_remove idx (slice currentAssignments (mv_From move))) currentAssignments
          in Inr (mput (mv_To move) (slice removed (mv_To move) @ [mv_ShardID move]) removed))"

fun applyMoves :: "assignments \<Rightarrow> Move list \<Rightarrow> assignments result" where
  "applyMoves currentAssignments [] = Inr currentAssignments"
| "applyMoves currentAssignments (move # moves) =
     (case applyMove currentAssignments move of
        Inl e \<Rightarrow> Inl e
      | Inr currentAssignments' \<Rightarrow> applyMoves currentAssignments' moves)"

section \<open>The loop of an initial placement\<close>

text \<open>
  Both strategies place a batch with the same loop: choose an executor from the running loads,
  record the placement, go on with the updated loads; stop at the first error.
\<close>

fun place_loop :: "('s \<Rightarrow> (string \<times> 's) result) \<Rightarrow> 's \<Rightarrow> string list \<Rightarrow> Placement list result" where
  "place_loop pick st [] = Inr []"
| "place_loop pick st (shardID # shardIDs) =
     (case pick st of
        Inl e \<Rightarrow> Inl e
      | Inr (executorID, st') \<Rightarrow>
          (case place_loop pick st' shardIDs of
             Inl e \<Rightarrow> Inl e
           | Inr placements \<Rightarrow>
               Inr (\<lparr>pl_ShardID = shardID, pl_ExecutorID = executorID\<rparr> # placements)))"

section \<open>Lemmas\<close>

text \<open>A loop whose choices succeed and keep an invariant places every shard.\<close>

lemma place_loop_ok:
  assumes "\<And>st. I st \<Longrightarrow> \<exists>e st'. pick st = Inr (e, st') \<and> e \<in> set es \<and> I st'"
  shows "I st \<Longrightarrow> \<exists>ps. place_loop pick st ss = Inr ps \<and> map pl_ShardID ps = ss
    \<and> set (map pl_ExecutorID ps) \<subseteq> set es"
proof (induction ss arbitrary: st)
  case (Cons s ss)
  obtain e st' where c: "pick st = Inr (e, st')" "e \<in> set es" "I st'"
    using assms [OF Cons.prems] by blast
  then obtain ps where "place_loop pick st' ss = Inr ps" "map pl_ShardID ps = ss"
    "set (map pl_ExecutorID ps) \<subseteq> set es"
    using Cons.IH by blast
  with c show ?case by simp
qed simp

text \<open>
  Every choice of a successful run is made in the state reached by the choices before it:
  \<open>R\<close> relates the start, the placements so far and the state.
\<close>

lemma place_loop_split:
  assumes step: "\<And>st e st' xs. R xs st \<Longrightarrow> pick st = Inr (e, st') \<Longrightarrow> R (xs @ [e]) st'"
    and good: "\<And>st e st' xs. R xs st \<Longrightarrow> pick st = Inr (e, st') \<Longrightarrow> G xs e"
  shows "R ws st \<Longrightarrow> place_loop pick st ss = Inr ps \<Longrightarrow> ps = xs @ p # ys \<Longrightarrow>
    G (ws @ map pl_ExecutorID xs) (pl_ExecutorID p)"
proof (induction ss arbitrary: st ps xs ws)
  case (Cons s ss)
  obtain e st' qs where c: "pick st = Inr (e, st')" "place_loop pick st' ss = Inr qs"
    and ps: "ps = \<lparr>pl_ShardID = s, pl_ExecutorID = e\<rparr> # qs"
    using Cons.prems(2) by (auto split: sum.splits prod.splits)
  show ?case
  proof (cases xs)
    case Nil
    then show ?thesis using good [OF Cons.prems(1) c(1)] Cons.prems(3) ps by auto
  next
    case (Cons x xs')
    then have "qs = xs' @ p # ys" and x: "pl_ExecutorID x = e" using Cons.prems(3) ps by auto
    from Cons.IH [OF step [OF Cons.prems(1) c(1)] c(2) this(1)] x Cons
    show ?thesis by simp
  qed
qed simp

lemma applyMove_Inr:
  "mv_ShardID m \<in> set (slice cur (mv_From m)) \<Longrightarrow> \<exists>cur'. applyMove cur m = Inr cur'"
  using slices_Index_None [of "slice cur (mv_From m)" "mv_ShardID m"]
  by (auto simp: applyMove_def Let_def split: option.splits)

lemma applyMove_keys:
  "applyMove cur m = Inr cur' \<Longrightarrow> mv_From m \<in> set (mkeys cur) \<Longrightarrow> mv_To m \<in> set (mkeys cur) \<Longrightarrow>
     mkeys cur' = mkeys cur"
  by (auto simp: applyMove_def Let_def mkeys_mput_in simp del: set_map split: option.splits)

lemma applyMove_wf: "applyMove cur m = Inr cur' \<Longrightarrow> wf_map cur \<Longrightarrow> wf_map cur'"
  by (auto simp: applyMove_def Let_def split: option.splits)

lemma applyMove_all_shards:
  assumes "applyMove cur m = Inr cur'" and "wf_map cur"
  shows "all_shards cur' = all_shards cur"
proof -
  let ?from = "slice cur (mv_From m)" and ?s = "mv_ShardID m"
  obtain i where i: "slices_Index ?from ?s = Some i"
    using assms(1) by (auto simp: applyMove_def split: option.splits)
  define removed where "removed = mput (mv_From m) (swap_remove i ?from) cur"
  have cur': "cur' = mput (mv_To m) (slice removed (mv_To m) @ [?s]) removed"
    using assms(1) i by (simp add: applyMove_def removed_def Let_def)
  have "i < length ?from" "?from ! i = ?s" using slices_Index_Some [OF i] by simp_all
  then have source: "mset ?from = add_mset ?s (mset (swap_remove i ?from))"
    using mset_swap_remove [of i ?from] nth_mem [of i ?from] by simp
  have "all_shards removed + mset ?from = all_shards cur + mset (swap_remove i ?from)"
    using all_shards_mput [OF assms(2)] by (simp add: removed_def)
  then have "all_shards removed + {#?s#} = all_shards cur" unfolding source by simp
  moreover have "wf_map removed" using assms(2) by (simp add: removed_def)
  ultimately show ?thesis using all_shards_append [of removed "mv_To m" "[?s]"] by (simp add: cur')
qed

lemma applyMove_slice:
  assumes "applyMove cur m = Inr cur'" and "mv_From m \<noteq> mv_To m"
  shows "mset (slice cur' (mv_From m)) = mset (slice cur (mv_From m)) - {#mv_ShardID m#}"
    and "slice cur' (mv_To m) = slice cur (mv_To m) @ [mv_ShardID m]"
    and "k \<noteq> mv_From m \<Longrightarrow> k \<noteq> mv_To m \<Longrightarrow> slice cur' k = slice cur k"
  using assms slices_Index_Some [of "slice cur (mv_From m)" "mv_ShardID m"]
  by (auto simp: applyMove_def Let_def gomap_simps mset_swap_remove split: option.splits)

text \<open>Applying moves keeps every shard, each as often as before.\<close>

lemma applyMoves_all_shards:
  "applyMoves cur ms = Inr cur' \<Longrightarrow> wf_map cur \<Longrightarrow> all_shards cur' = all_shards cur \<and> wf_map cur'"
proof (induction ms arbitrary: cur)
  case (Cons m ms)
  then obtain c where c: "applyMove cur m = Inr c" "applyMoves c ms = Inr cur'"
    by (auto split: sum.splits)
  with Cons show ?case using applyMove_all_shards applyMove_wf by metis
qed simp

lemma applyMoves_keys:
  "applyMoves cur ms = Inr cur' \<Longrightarrow>
     \<forall>m \<in> set ms. mv_From m \<in> set (mkeys cur) \<and> mv_To m \<in> set (mkeys cur) \<Longrightarrow>
     mkeys cur' = mkeys cur"
proof (induction ms arbitrary: cur)
  case (Cons m ms)
  then obtain c where c: "applyMove cur m = Inr c" "applyMoves c ms = Inr cur'"
    by (auto split: sum.splits)
  moreover have "mkeys c = mkeys cur" using c(1) Cons.prems(2) applyMove_keys by simp
  ultimately show ?case using Cons.IH [of c] Cons.prems(2) by (metis list.set_intros(2))
qed simp

lemma applyMoves_append:
  "applyMoves cur (ms @ ns) =
     (case applyMoves cur ms of Inl e \<Rightarrow> Inl e | Inr cur' \<Rightarrow> applyMoves cur' ns)"
  by (induction ms arbitrary: cur) (auto split: sum.splits)

section \<open>The contract of a placement strategy\<close>

definition placed_on :: "string list \<Rightarrow> string list \<Rightarrow> Placement list \<Rightarrow> bool" where
  "placed_on executors shardIDs ps =
     (map pl_ShardID ps = shardIDs \<and> set (map pl_ExecutorID ps) \<subseteq> set executors)"

text \<open>
  Given an assignable executor every shard is placed, in order, on an assignable one; without
  one the first shard is refused.
\<close>

locale placement_strategy =
  fixes place :: "NamespaceState \<Rightarrow> string list \<Rightarrow> Placement list result"
  assumes place_ok: "wf_state st \<Longrightarrow> AssignableExecutorIDs st [] \<noteq> [] \<Longrightarrow>
      \<exists>ps. place st ss = Inr ps \<and> placed_on (AssignableExecutorIDs st []) ss ps"
    and place_none: "AssignableExecutorIDs st [] = [] \<Longrightarrow> ss \<noteq> [] \<Longrightarrow>
      place st ss = Inl ErrNoActiveExecutors"
    and place_empty: "place st [] = Inr []"
begin

lemma place_cases:
  assumes "wf_state st"
  shows "place st ss = Inl ErrNoActiveExecutors \<and> AssignableExecutorIDs st [] = []
    \<or> (\<exists>ps. place st ss = Inr ps \<and> placed_on (AssignableExecutorIDs st []) ss ps)"
  using assms place_ok [of st ss] place_none [of st ss] place_empty [of st]
  by (cases "ss = []") (auto simp: placed_on_def)

lemma place_Inr:
  "wf_state st \<Longrightarrow> place st ss = Inr ps \<Longrightarrow> placed_on (AssignableExecutorIDs st []) ss ps"
  using place_cases [of st ss] by auto

lemma place_Inl_iff:
  "wf_state st \<Longrightarrow> (\<exists>e. place st ss = Inl e) \<longleftrightarrow> AssignableExecutorIDs st [] = [] \<and> ss \<noteq> []"
  using place_cases [of st ss] place_none [of st ss] place_empty [of st]
  by (metis Inl_Inr_False place_ok)

end

section \<open>The contract of a rebalance strategy\<close>

text \<open>
  On assignments without duplicates (and inputs the strategy accepts) planning succeeds, the
  planned moves can be applied one after the other, and they stay among the given executors.
\<close>

locale rebalance_strategy =
  fixes plan :: "NamespaceState \<Rightarrow> assignments \<Rightarrow> Move list result"
    and accepts :: "NamespaceState \<Rightarrow> assignments \<Rightarrow> bool"
  assumes plan_applies: "wf_map cur \<Longrightarrow> disjoint_slices cur \<Longrightarrow> accepts st cur \<Longrightarrow>
      \<exists>ms cur'. plan st cur = Inr ms \<and> applyMoves cur ms = Inr cur'"
    and plan_keys: "wf_map cur \<Longrightarrow> disjoint_slices cur \<Longrightarrow> accepts st cur \<Longrightarrow> plan st cur = Inr ms \<Longrightarrow>
      m \<in> set ms \<Longrightarrow> mv_From m \<in> set (mkeys cur) \<and> mv_To m \<in> set (mkeys cur)"
begin

lemma plan_preserves:
  assumes "wf_map cur" "disjoint_slices cur" "accepts st cur"
  obtains ms cur' where "plan st cur = Inr ms" "applyMoves cur ms = Inr cur'"
    "mkeys cur' = mkeys cur" "all_shards cur' = all_shards cur" "wf_map cur'" "disjoint_slices cur'"
proof -
  obtain ms cur' where p: "plan st cur = Inr ms" and a: "applyMoves cur ms = Inr cur'"
    using plan_applies [OF assms] by blast
  have "all_shards cur' = all_shards cur \<and> wf_map cur'" using applyMoves_all_shards [OF a assms(1)] .
  moreover have "mkeys cur' = mkeys cur"
    using applyMoves_keys [OF a] plan_keys [OF assms p] by blast
  moreover have "disjoint_slices cur'"
    using assms(2) calculation(1) by (simp add: disjoint_slices_count)
  ultimately show ?thesis using that p a by blast
qed

end

end
