(* ===== verification/Naive.thy ===== *)
theory Naive
  imports Plan
begin

text \<open>
  The naive strategy, \<open>loadbalancer/strategy/naive\<close>: initial placement on the executor with
  the fewest shards, and at most one move per rebalance, of the hottest shard of the hottest
  executor to the coldest one.
\<close>

section \<open>Initial placement\<close>

definition assignmentCounts :: "NamespaceState \<Rightarrow> (string, nat) gomap" where
  "assignmentCounts state =
     fold (\<lambda>executorID counts.
             mput executorID
               (length (AssignedShards (mzero zero_AssignedState (ShardAssignments state) executorID)))
               counts)
       (AssignableExecutorIDs state []) []"

text \<open>
  The comparison breaks ties by the ID, so the minimum does not depend on the order in which
  \<open>maps.Keys\<close> lists the executors.
\<close>

definition count_less :: "(string, nat) gomap \<Rightarrow> string \<Rightarrow> string \<Rightarrow> bool" where
  "count_less counts a b =
     (if mzero 0 counts a = mzero 0 counts b then a < b else mzero 0 counts a < mzero 0 counts b)"

definition chooseExecutorAndUpdateCounts ::
    "(string, nat) gomap \<Rightarrow> (string \<times> (string, nat) gomap) result" where
  "chooseExecutorAndUpdateCounts counts =
     (case MinFunc (count_less counts) (mkeys counts) of
        None \<Rightarrow> Inl ErrNoActiveExecutors
      | Some chosen \<Rightarrow> Inr (chosen, mput chosen (mzero 0 counts chosen + 1) counts))"

definition naive_PlanInitialPlacement ::
    "NamespaceState \<Rightarrow> string list \<Rightarrow> Placement list result" where
  "naive_PlanInitialPlacement state shardIDs =
     place_loop chooseExecutorAndUpdateCounts (assignmentCounts state) shardIDs"

section \<open>Rebalance\<close>

text \<open>A shard reported by several executors has the load of the one visited last.\<close>

definition calcShardLoad :: "order \<Rightarrow> NamespaceState \<Rightarrow> (string, float64) gomap" where
  "calcShardLoad ord namespaceState =
     fold (\<lambda>(_, state) shardLoad.
             fold (\<lambda>(shardID, report) shardLoad. mput shardID (ShardLoad report) shardLoad)
               (ReportedShards state) shardLoad)
       (mrange ord (Executors namespaceState)) []"

record naive_scan =
  hottestExecutorLoad :: float64
  hottestExecutorID :: string
  hottestShardID :: string
  hottestShardLoad :: float64
  coldestExecutorLoad :: float64
  coldestExecutorID :: string

definition naive_init :: naive_scan where
  "naive_init =
     \<lparr>hottestExecutorLoad = 0, hottestExecutorID = [], hottestShardID = [], hottestShardLoad = 0,
      coldestExecutorLoad = MaxFloat64, coldestExecutorID = []\<rparr>"

definition naive_executorLoad :: "(string, float64) gomap \<Rightarrow> string list \<Rightarrow> float64" where
  "naive_executorLoad shardLoad shardIDs =
     fold (\<lambda>shardID load. load + mzero 0 shardLoad shardID) shardIDs 0"

text \<open>
  The loop over the shards of a new hottest executor: the last shard whose load is not below
  the maximum so far. \<open>hottestShardID\<close> keeps its value when no shard qualifies.
\<close>

definition naive_hottestShard ::
    "(string, float64) gomap \<Rightarrow> string list \<Rightarrow> string \<Rightarrow> string \<times> float64" where
  "naive_hottestShard shardLoad shardIDs hottest =
     fold (\<lambda>shardID (hottest, maxShardLoad).
             if maxShardLoad \<le> mzero 0 shardLoad shardID
             then (shardID, mzero 0 shardLoad shardID) else (hottest, maxShardLoad))
       shardIDs (hottest, 0)"

definition naive_visit ::
    "(string, float64) gomap \<Rightarrow> string \<times> string list \<Rightarrow> naive_scan \<Rightarrow> naive_scan" where
  "naive_visit shardLoad = (\<lambda>(executorID, shardIDs) acc.
     (let load = naive_executorLoad shardLoad shardIDs;
          acc = (if load \<le> coldestExecutorLoad acc
                 then acc\<lparr>coldestExecutorLoad := load, coldestExecutorID := executorID\<rparr> else acc)
      in if hottestExecutorLoad acc \<le> load
         then let (hottest, maxShardLoad) =
                naive_hottestShard shardLoad shardIDs (hottestShardID acc)
              in acc\<lparr>hottestExecutorLoad := load, hottestExecutorID := executorID,
                     hottestShardID := hottest, hottestShardLoad := maxShardLoad\<rparr>
         else acc))"

definition naive_PlanRebalance ::
    "order \<Rightarrow> order \<Rightarrow> LoadBalancingNaiveConfig \<Rightarrow> NamespaceState \<Rightarrow> assignments
      \<Rightarrow> Move list result" where
  "naive_PlanRebalance ord\<^sub>1 ord\<^sub>2 cfg state currentAssignments =
     (let shardLoad = calcShardLoad ord\<^sub>1 state
      in if length currentAssignments < 2 then Inr []
         else let acc = fold (naive_visit shardLoad) (mrange ord\<^sub>2 currentAssignments) naive_init
           in if 0 < coldestExecutorLoad acc
                 \<and> hottestExecutorLoad acc / coldestExecutorLoad acc < MaxDeviation cfg
              then Inr []
              else if hottestExecutorLoad acc \<le> coldestExecutorLoad acc + hottestShardLoad acc
              then Inr []
              else Inr [\<lparr>mv_ShardID = hottestShardID acc, mv_From = hottestExecutorID acc,
                         mv_To = coldestExecutorID acc\<rparr>])"

section \<open>Lemmas on placement\<close>

definition shard_count :: "NamespaceState \<Rightarrow> string \<Rightarrow> nat" where
  "shard_count state e =
     length (AssignedShards (mzero zero_AssignedState (ShardAssignments state) e))"

lemma assignmentCounts_map:
  assumes "wf_state state"
  shows "assignmentCounts state =
    map (\<lambda>e. (e, shard_count state e)) (AssignableExecutorIDs state [])"
  using fold_mput_map [OF distinct_AssignableExecutorIDs [OF assms, of "[]"], of "[]" "shard_count state"]
  by (simp add: assignmentCounts_def shard_count_def)

lemma assignmentCounts_Nil: "AssignableExecutorIDs state [] = [] \<Longrightarrow> assignmentCounts state = []"
  by (simp add: assignmentCounts_def)

lemma chooseCounts_ok:
  assumes "mkeys counts \<noteq> []"
  shows "\<exists>e. chooseExecutorAndUpdateCounts counts =
      Inr (e, mput e (mzero 0 counts e + 1) counts) \<and> e \<in> set (mkeys counts)"
proof -
  obtain e where e: "MinFunc (count_less counts) (mkeys counts) = Some e"
    using assms MinFunc_None [of "count_less counts" "mkeys counts"] by fastforce
  then show ?thesis using MinFunc_in [OF e] by (simp add: chooseExecutorAndUpdateCounts_def)
qed

lemma chooseCounts_min:
  assumes "chooseExecutorAndUpdateCounts counts = Inr (e, counts')" and "x \<in> set (mkeys counts)"
  shows "mzero 0 counts e \<le> mzero 0 counts x"
proof -
  let ?le = "\<lambda>a b. \<not> count_less counts b a"
  have e: "MinFunc (count_less counts) (mkeys counts) = Some e"
    using assms(1) by (auto simp: chooseExecutorAndUpdateCounts_def split: option.splits)
  have "?le e x"
  proof (rule MinFunc_le [of ?le "count_less counts"])
    show "?le x y \<or> ?le y x" for x y
      by (auto simp: count_less_def)
    show "?le x y \<Longrightarrow> ?le y z \<Longrightarrow> ?le x z" for x y z
      by (auto simp: count_less_def split: if_splits)
  qed (use e assms(2) in \<open>simp_all del: set_map\<close>)
  then show ?thesis by (auto simp: count_less_def split: if_splits)
qed

interpretation naive_placement: placement_strategy naive_PlanInitialPlacement
proof
  fix st :: NamespaceState and ss
  assume wf: "wf_state st" and ne: "AssignableExecutorIDs st [] \<noteq> []"
  let ?es = "AssignableExecutorIDs st []"
  let ?I = "\<lambda>counts :: (string, nat) gomap. set (mkeys counts) = set ?es"
  have "\<exists>ps. place_loop chooseExecutorAndUpdateCounts (assignmentCounts st) ss = Inr ps
      \<and> map pl_ShardID ps = ss \<and> set (map pl_ExecutorID ps) \<subseteq> set ?es"
  proof (rule place_loop_ok [where I = ?I])
    fix counts assume I: "?I counts"
    then have "mkeys counts \<noteq> []" using ne by auto
    from chooseCounts_ok [OF this] I
    show "\<exists>e st'. chooseExecutorAndUpdateCounts counts = Inr (e, st') \<and> e \<in> set ?es \<and> ?I st'"
      by (metis insert_absorb mkeys_mput)
  qed (simp add: assignmentCounts_map [OF wf] comp_def)
  then show "\<exists>ps. naive_PlanInitialPlacement st ss = Inr ps \<and> placed_on ?es ss ps"
    by (simp add: naive_PlanInitialPlacement_def placed_on_def)
next
  fix st :: NamespaceState and ss :: "string list"
  assume "AssignableExecutorIDs st [] = []" and "ss \<noteq> []"
  then show "naive_PlanInitialPlacement st ss = Inl ErrNoActiveExecutors"
    by (cases ss) (simp_all add: naive_PlanInitialPlacement_def assignmentCounts_Nil
        chooseExecutorAndUpdateCounts_def)
next
  show "naive_PlanInitialPlacement st [] = Inr []" for st
    by (simp add: naive_PlanInitialPlacement_def)
qed

section \<open>Lemmas on the scan\<close>

text \<open>Loads the scan is meant for: finite and not negative, with sums a \<open>float64\<close> can hold.\<close>

definition loads_ok :: "(string, float64) gomap \<Rightarrow> assignments \<Rightarrow> bool" where
  "loads_ok sl cur = (list_all (\<lambda>(_, l). is_fin l \<and> 0 \<le> l) sl
     \<and> list_all (\<lambda>(_, ss). naive_executorLoad sl ss \<le> MaxFloat64) cur)"

definition load_of :: "(string, float64) gomap \<Rightarrow> string \<Rightarrow> real" where
  "load_of sl s = the_fin (mzero 0 sl s)"

definition nonneg_loads :: "(string, float64) gomap \<Rightarrow> bool" where
  "nonneg_loads sl = (\<forall>s. mzero 0 sl s = Fin (load_of sl s) \<and> 0 \<le> load_of sl s)"

lemma nonneg_loadsI:
  assumes "list_all (\<lambda>(_, l). is_fin l \<and> 0 \<le> l) sl"
  shows "nonneg_loads sl"
  unfolding nonneg_loads_def
proof
  fix s
  have "is_fin l \<and> 0 \<le> l" if "mget sl s = Some l" for l
    using map_of_SomeD [OF that] assms by (auto simp: list_all_iff)
  then show "mzero 0 sl s = Fin (load_of sl s) \<and> 0 \<le> load_of sl s"
    by (cases "mget sl s") (auto simp: mzero_def load_of_def elim!: is_finE)
qed

lemma nonneg_loadsD:
  "nonneg_loads sl \<Longrightarrow> mzero 0 sl s = Fin (load_of sl s)" "nonneg_loads sl \<Longrightarrow> 0 \<le> load_of sl s"
  by (simp_all add: nonneg_loads_def)

lemma naive_executorLoad_sum:
  assumes "nonneg_loads sl"
  shows "naive_executorLoad sl ss = Fin (sum_list (map (load_of sl) ss))"
proof -
  have "fold (\<lambda>s load. load + mzero 0 sl s) ss (Fin a) = Fin (a + sum_list (map (load_of sl) ss))"
    for a
    by (induction ss arbitrary: a) (simp_all add: nonneg_loadsD(1) [OF assms] add.assoc)
  from this [of 0] show ?thesis by (simp add: naive_executorLoad_def float_zero_Fin)
qed

text \<open>The hottest shard of an executor under such loads.\<close>

definition hottest_in :: "(string, float64) gomap \<Rightarrow> string list \<Rightarrow> string \<Rightarrow> float64 \<Rightarrow> bool" where
  "hottest_in sl ss h l =
     (if ss = [] then l = 0 else h \<in> set ss \<and> l = Fin (load_of sl h)
        \<and> (\<forall>s \<in> set ss. load_of sl s \<le> load_of sl h))"

lemma naive_hottestShard_max:
  assumes nn: "nonneg_loads sl"
  shows "hottest_in sl ss (fst (naive_hottestShard sl ss h)) (snd (naive_hottestShard sl ss h))"
proof -
  let ?step = "\<lambda>shardID (hottest, maxShardLoad).
      if maxShardLoad \<le> mzero 0 sl shardID then (shardID, mzero 0 sl shardID)
      else (hottest, maxShardLoad)"
  have "hottest_in sl ss (fst (fold ?step ss (h, 0))) (snd (fold ?step ss (h, 0)))"
  proof (induction ss rule: rev_induct)
    case (snoc s ss)
    obtain h' l' where hl: "fold ?step ss (h, 0) = (h', l')" by force
    show ?case
      using snoc nonneg_loadsD [OF nn, of s] by (auto simp: hl hottest_in_def split: if_splits)
  qed (simp add: hottest_in_def)
  then show ?thesis by (simp add: naive_hottestShard_def)
qed

text \<open>What the scan knows after visiting a non-empty list of executors.\<close>

definition scanned :: "(string, float64) gomap \<Rightarrow> assignments \<Rightarrow> naive_scan \<Rightarrow> bool" where
  "scanned sl xs acc =
     ((\<exists>ss. (hottestExecutorID acc, ss) \<in> set xs
         \<and> hottestExecutorLoad acc = naive_executorLoad sl ss
         \<and> hottest_in sl ss (hottestShardID acc) (hottestShardLoad acc))
      \<and> (\<exists>ss. (coldestExecutorID acc, ss) \<in> set xs
         \<and> coldestExecutorLoad acc = naive_executorLoad sl ss)
      \<and> (\<forall>(e, ss) \<in> set xs. naive_executorLoad sl ss \<le> hottestExecutorLoad acc
         \<and> coldestExecutorLoad acc \<le> naive_executorLoad sl ss))"

lemma naive_visit_first:
  assumes nn: "nonneg_loads sl" and "naive_executorLoad sl ss \<le> MaxFloat64"
  shows "scanned sl [(e, ss)] (naive_visit sl (e, ss) naive_init)"
proof -
  have "0 \<le> naive_executorLoad sl ss"
    by (auto simp: naive_executorLoad_sum [OF nn] nonneg_loadsD [OF nn] intro!: sum_list_nonneg)
  moreover have "naive_executorLoad sl ss \<le> naive_executorLoad sl ss"
    by (simp add: naive_executorLoad_sum [OF nn])
  ultimately show ?thesis
    using assms(2) naive_hottestShard_max [OF nn, of ss "[]"]
    by (auto simp: scanned_def naive_visit_def naive_init_def Let_def case_prod_beta)
qed

lemma naive_visit_next:
  assumes nn: "nonneg_loads sl" and sc: "scanned sl xs acc"
  shows "scanned sl (xs @ [(e, ss)]) (naive_visit sl (e, ss) acc)"
proof -
  define h where "h = the_fin (hottestExecutorLoad acc)"
  define c where "c = the_fin (coldestExecutorLoad acc)"
  define S where "S = (\<lambda>ss. sum_list (map (load_of sl) ss))"
  have S: "naive_executorLoad sl ss = Fin (S ss)" for ss
    by (simp add: naive_executorLoad_sum [OF nn] S_def)
  have h: "hottestExecutorLoad acc = Fin h" and c: "coldestExecutorLoad acc = Fin c"
    using sc by (auto simp: scanned_def S h_def c_def)
  have all: "S ss' \<le> h \<and> c \<le> S ss'" if "(e', ss') \<in> set xs" for e' ss'
    using that sc by (auto simp: scanned_def S h c)
  let ?acc = "naive_visit sl (e, ss) acc" and ?xs = "xs @ [(e, ss)]"
  have hot: "\<exists>ss'. (hottestExecutorID ?acc, ss') \<in> set ?xs \<and> hottestExecutorLoad ?acc = Fin (S ss')
      \<and> hottest_in sl ss' (hottestShardID ?acc) (hottestShardLoad ?acc)
      \<and> h \<le> S ss' \<and> S ss \<le> S ss'"
  proof (cases "h \<le> S ss")
    case True
    then show ?thesis
      using naive_hottestShard_max [OF nn, of ss "hottestShardID acc"]
      by (intro exI [of _ ss]) (simp add: naive_visit_def S h Let_def case_prod_beta)
  next
    case False
    then show ?thesis using sc by (auto simp: scanned_def naive_visit_def S h Let_def)
  qed
  have cold: "\<exists>ss'. (coldestExecutorID ?acc, ss') \<in> set ?xs \<and> coldestExecutorLoad ?acc = Fin (S ss')
      \<and> S ss' \<le> c \<and> S ss' \<le> S ss"
  proof (cases "S ss \<le> c")
    case True
    then show ?thesis
      by (intro exI [of _ ss]) (simp add: naive_visit_def S c Let_def case_prod_beta)
  next
    case False
    then show ?thesis using sc by (auto simp: scanned_def naive_visit_def S c Let_def case_prod_beta)
  qed
  from hot cold show ?thesis unfolding scanned_def S by (fastforce dest: all)
qed

lemma scanned_fold:
  assumes nn: "nonneg_loads sl"
    and "\<forall>(e, ss) \<in> set xs. naive_executorLoad sl ss \<le> MaxFloat64" and "xs \<noteq> []"
  shows "scanned sl xs (fold (naive_visit sl) xs naive_init)"
  using assms(2,3)
proof (induction xs rule: rev_induct)
  case (snoc x xs)
  obtain e ss where x: "x = (e, ss)" by force
  show ?case
    using snoc naive_visit_first [OF nn, of ss e] naive_visit_next [OF nn, of xs _ e ss]
    by (cases "xs = []") (auto simp: x)
qed simp

text \<open>The move, when there is one.\<close>

lemma naive_PlanRebalance_cases:
  assumes ord: "is_order ord\<^sub>2" and wf: "wf_map cur" and ok: "loads_ok (calcShardLoad ord\<^sub>1 st) cur"
    and sl: "sl = calcShardLoad ord\<^sub>1 st"
  shows "naive_PlanRebalance ord\<^sub>1 ord\<^sub>2 cfg st cur = Inr [] \<or>
    (\<exists>m fs ts. naive_PlanRebalance ord\<^sub>1 ord\<^sub>2 cfg st cur = Inr [m]
       \<and> mget cur (mv_From m) = Some fs \<and> mget cur (mv_To m) = Some ts
       \<and> mv_ShardID m \<in> set fs \<and> mv_From m \<noteq> mv_To m
       \<and> naive_executorLoad sl ts + mzero 0 sl (mv_ShardID m) < naive_executorLoad sl fs
       \<and> (\<forall>(e, ss) \<in> set cur. naive_executorLoad sl ss \<le> naive_executorLoad sl fs
            \<and> naive_executorLoad sl ts \<le> naive_executorLoad sl ss))"
proof (cases "length cur < 2")
  case True
  then show ?thesis by (simp add: naive_PlanRebalance_def Let_def)
next
  case False
  let ?acc = "fold (naive_visit sl) (mrange ord\<^sub>2 cur) naive_init"
  have nn: "nonneg_loads sl" using ok by (auto simp: loads_ok_def sl intro: nonneg_loadsI)
  have rng: "set (mrange ord\<^sub>2 cur) = set cur" using set_mrange [OF ord wf] .
  have "scanned sl (mrange ord\<^sub>2 cur) ?acc"
  proof (rule scanned_fold [OF nn])
    show "\<forall>(e, ss) \<in> set (mrange ord\<^sub>2 cur). naive_executorLoad sl ss \<le> MaxFloat64"
      using ok by (simp add: rng loads_ok_def list_all_iff sl)
    show "mrange ord\<^sub>2 cur \<noteq> []" using rng False by (cases cur) auto
  qed
  then obtain fs ts where fs: "(hottestExecutorID ?acc, fs) \<in> set cur"
      "hottestExecutorLoad ?acc = naive_executorLoad sl fs"
      "hottest_in sl fs (hottestShardID ?acc) (hottestShardLoad ?acc)"
    and ts: "(coldestExecutorID ?acc, ts) \<in> set cur"
      "coldestExecutorLoad ?acc = naive_executorLoad sl ts"
    and all: "\<forall>(e, ss) \<in> set cur. naive_executorLoad sl ss \<le> naive_executorLoad sl fs
            \<and> naive_executorLoad sl ts \<le> naive_executorLoad sl ss"
    unfolding scanned_def rng by auto
  show ?thesis
  proof (cases "hottestExecutorLoad ?acc \<le> coldestExecutorLoad ?acc + hottestShardLoad ?acc")
    case True
    then show ?thesis using False by (auto simp: naive_PlanRebalance_def Let_def sl)
  next
    case not_le: False
    have nonneg: "0 \<le> sum_list (map (load_of sl) ss)" for ss
      by (auto simp: nonneg_loadsD [OF nn] intro!: sum_list_nonneg)
    have "fs \<noteq> []"
      using not_le fs(2,3) ts(2) nonneg [of ts]
      by (auto simp: hottest_in_def naive_executorLoad_sum [OF nn])
    then have h: "hottestShardID ?acc \<in> set fs"
      "hottestShardLoad ?acc = mzero 0 sl (hottestShardID ?acc)"
      using fs(3) nonneg_loadsD(1) [OF nn] by (simp_all add: hottest_in_def)
    have lt: "naive_executorLoad sl ts + mzero 0 sl (hottestShardID ?acc) < naive_executorLoad sl fs"
      using not_le by (auto simp: fs(2) ts(2) h(2) naive_executorLoad_sum [OF nn]
          nonneg_loadsD(1) [OF nn])
    have "hottestExecutorID ?acc \<noteq> coldestExecutorID ?acc"
    proof
      assume "hottestExecutorID ?acc = coldestExecutorID ?acc"
      then have "fs = ts" using fs(1) ts(1) mget_eq_iff [OF wf] by (metis option.inject)
      with lt nonneg_loadsD [OF nn, of "hottestShardID ?acc"] show False
        by (simp add: naive_executorLoad_sum [OF nn])
    qed
    moreover have "mget cur (hottestExecutorID ?acc) = Some fs"
      "mget cur (coldestExecutorID ?acc) = Some ts"
      using fs(1) ts(1) mget_eq_iff [OF wf] by auto
    ultimately show ?thesis using False not_le h(1) lt all
      unfolding naive_PlanRebalance_def Let_def sl by auto
  qed
qed

interpretation naive_rebalance: rebalance_strategy "naive_PlanRebalance ord\<^sub>1 ord\<^sub>2 cfg"
  "\<lambda>st cur. is_order ord\<^sub>2 \<and> loads_ok (calcShardLoad ord\<^sub>1 st) cur" for ord\<^sub>1 ord\<^sub>2 cfg
proof
  fix cur st
  assume wf: "wf_map cur" and "is_order ord\<^sub>2 \<and> loads_ok (calcShardLoad ord\<^sub>1 st) cur"
  then consider "naive_PlanRebalance ord\<^sub>1 ord\<^sub>2 cfg st cur = Inr []"
    | m fs ts where "naive_PlanRebalance ord\<^sub>1 ord\<^sub>2 cfg st cur = Inr [m]"
      "mget cur (mv_From m) = Some fs" "mv_ShardID m \<in> set fs" "mget cur (mv_To m) = Some ts"
    using naive_PlanRebalance_cases [OF _ wf _ refl] by blast
  note cases = this
  then show "\<exists>ms cur'. naive_PlanRebalance ord\<^sub>1 ord\<^sub>2 cfg st cur = Inr ms \<and> applyMoves cur ms = Inr cur'"
  proof cases
    case 2
    then have "mv_ShardID m \<in> set (slice cur (mv_From m))" by (simp add: mzero_def)
    from applyMove_Inr [OF this] 2(1) show ?thesis by auto
  qed simp
  show "mv_From m \<in> set (mkeys cur) \<and> mv_To m \<in> set (mkeys cur)"
    if "naive_PlanRebalance ord\<^sub>1 ord\<^sub>2 cfg st cur = Inr ms" and "m \<in> set ms" for ms m
    using cases that by cases (auto simp del: set_map intro: mget_in_mkeys)
qed

section \<open>Properties\<close>

text \<open>
  Naive placement fills the emptiest executor: at each step the chosen executor has, among
  all assignable ones, the fewest shards, counting the shards it owns and those placed on it
  earlier in the batch.
\<close>
theorem naive_placement_least_loaded:
  assumes "wf_state st" and "naive_PlanInitialPlacement st ss = Inr (xs @ p # ys)"
    and "e \<in> set (AssignableExecutorIDs st [])"
  shows "shard_count st (pl_ExecutorID p) + count_list (map pl_ExecutorID xs) (pl_ExecutorID p)
    \<le> shard_count st e + count_list (map pl_ExecutorID xs) e"
proof -
  let ?es = "AssignableExecutorIDs st []"
  let ?R = "\<lambda>ws counts. set (mkeys counts) = set ?es
      \<and> (\<forall>x \<in> set ?es. mzero 0 counts x = shard_count st x + count_list ws x)"
  let ?G = "\<lambda>ws x. \<forall>e \<in> set ?es. shard_count st x + count_list ws x \<le> shard_count st e + count_list ws e"
  have "?G ([] @ map pl_ExecutorID xs) (pl_ExecutorID p)"
  proof (rule place_loop_split [where R = ?R and G = ?G])
    fix counts e counts' ws
    assume R: "?R ws counts" and c: "chooseExecutorAndUpdateCounts counts = Inr (e, counts')"
    then have e: "e \<in> set (mkeys counts)" "counts' = mput e (mzero 0 counts e + 1) counts"
      by (auto simp: chooseExecutorAndUpdateCounts_def simp del: set_map split: option.splits
          dest: MinFunc_in)
    show "?R (ws @ [e]) counts'"
      using R e by (auto simp: gomap_simps simp del: set_map)
    show "?G ws e"
      using R e(1) chooseCounts_min [OF c] by (metis (no_types, lifting))
  next
    show "?R [] (assignmentCounts st)"
      by (simp add: assignmentCounts_map [OF assms(1)] comp_def)
  qed (use assms(2) in \<open>simp_all add: naive_PlanInitialPlacement_def\<close>)
  then show ?thesis using assms(3) by simp
qed

definition two_executors :: NamespaceState where
  "two_executors =
     \<lparr>ExecutorMetadata = [],
      ShardAssignments =
        [(''a'', \<lparr>AssignedShards = [(''s1'', \<lparr>sa_Status = AssignmentStatusREADY\<rparr>)],
                 as_HandoverStats = [], LastUpdated = 0, ModRevision = 4\<rparr>)],
      DrainedShards = [], Revision = 9, AssignmentRevision = 9,
      Executors =
        [(''a'', \<lparr>LastHeartbeat = 10, hb_Status = ExecutorStatusACTIVE, ReportedShards = [],
                 hb_Metadata = [], hb_HostMetadata = None\<rparr>),
         (''b'', \<lparr>LastHeartbeat = 10, hb_Status = ExecutorStatusACTIVE, ReportedShards = [],
                 hb_Metadata = [], hb_HostMetadata = None\<rparr>)],
      ShardStats = [], DrainedHosts = []\<rparr>"

lemma two_executors_facts:
  "wf_state two_executors" "AssignableExecutorIDs two_executors [] = [''a'', ''b'']"
  by (simp_all add: two_executors_def wf_state_def wf_assigned_def AssignableExecutorIDs_def
      IsAssignable_def newExecutor_def executor_Status_def heartbeat_Hostname_def)

theorem naive_placement_least_loaded_witness:
  "shard_count two_executors ''b'' + count_list [] ''b''
     \<le> shard_count two_executors ''a'' + count_list [] ''a''"
proof -
  let ?p = "\<lparr>pl_ShardID = ''n'', pl_ExecutorID = ''b''\<rparr>"
  have "naive_PlanInitialPlacement two_executors [''n''] = Inr ([] @ ?p # [])"
    by (simp add: naive_PlanInitialPlacement_def assignmentCounts_map two_executors_facts
        chooseExecutorAndUpdateCounts_def count_less_def shard_count_def mzero_def)
       (simp add: two_executors_def zero_AssignedState_def)
  from naive_placement_least_loaded [OF two_executors_facts(1) this, of "''a''"]
  show ?thesis by (simp add: two_executors_facts)
qed

text \<open>
  C23. With finite, non-negative loads a naive rebalance plans nothing or one move. The move
  takes a shard the source owns, from an executor with the highest load to another with the
  lowest, and leaves the destination below the source's old load. It can be applied.
\<close>
theorem naive_rebalance_move:
  assumes "is_order ord\<^sub>2" and "wf_map cur" and "loads_ok (calcShardLoad ord\<^sub>1 st) cur"
    and "sl = calcShardLoad ord\<^sub>1 st"
  shows "naive_PlanRebalance ord\<^sub>1 ord\<^sub>2 cfg st cur = Inr [] \<or>
    (\<exists>m fs ts cur'. naive_PlanRebalance ord\<^sub>1 ord\<^sub>2 cfg st cur = Inr [m]
       \<and> applyMoves cur [m] = Inr cur'
       \<and> mget cur (mv_From m) = Some fs \<and> mget cur (mv_To m) = Some ts
       \<and> mv_ShardID m \<in> set fs \<and> mv_From m \<noteq> mv_To m
       \<and> naive_executorLoad sl ts + mzero 0 sl (mv_ShardID m) < naive_executorLoad sl fs
       \<and> (\<forall>(e, ss) \<in> set cur. naive_executorLoad sl ss \<le> naive_executorLoad sl fs
            \<and> naive_executorLoad sl ts \<le> naive_executorLoad sl ss))"
proof -
  have "\<exists>cur'. applyMoves cur [m] = Inr cur'"
    if "mget cur (mv_From m) = Some fs" "mv_ShardID m \<in> set fs" for m fs
    using that applyMove_Inr [of m cur] by (auto simp: mzero_def)
  with naive_PlanRebalance_cases [OF assms, of cfg] show ?thesis by (elim disjE exE conjE) blast+
qed

text \<open>Two executors, \<open>a\<close> with both shards and \<open>b\<close> with none; \<open>a\<close> reports the given loads.\<close>

definition loaded_state :: "float64 \<Rightarrow> float64 \<Rightarrow> NamespaceState" where
  "loaded_state l\<^sub>1 l\<^sub>2 = two_executors\<lparr>Executors :=
     [(''a'', \<lparr>LastHeartbeat = 10, hb_Status = ExecutorStatusACTIVE,
               ReportedShards = [(''s1'', \<lparr>ssr_Status = ShardStatusREADY, ShardLoad = l\<^sub>1\<rparr>),
                                 (''s2'', \<lparr>ssr_Status = ShardStatusREADY, ShardLoad = l\<^sub>2\<rparr>)],
               hb_Metadata = [], hb_HostMetadata = None\<rparr>),
      (''b'', \<lparr>LastHeartbeat = 10, hb_Status = ExecutorStatusACTIVE, ReportedShards = [],
               hb_Metadata = [], hb_HostMetadata = None\<rparr>)]\<rparr>"

lemma calcShardLoad_loaded [simp]:
  "calcShardLoad (\<lambda>xs. xs) (loaded_state l\<^sub>1 l\<^sub>2) = [(''s1'', l\<^sub>1), (''s2'', l\<^sub>2)]"
  by (simp add: calcShardLoad_def loaded_state_def mrange_def List.map_filter_simps)

theorem naive_rebalance_move_witness:
  "\<exists>m. naive_PlanRebalance (\<lambda>xs. xs) rev \<lparr>MaxDeviation = Fin 2\<rparr> (loaded_state (Fin 3) (Fin 4))
      [(''a'', [''s1'', ''s2'']), (''b'', [])] = Inr [m] \<and> mv_From m \<noteq> mv_To m"
proof -
  let ?cur = "[(''a'', [''s1'', ''s2'']), (''b'', [])]"
  have ne: "naive_PlanRebalance (\<lambda>xs. xs) rev \<lparr>MaxDeviation = Fin 2\<rparr> (loaded_state (Fin 3) (Fin 4))
      ?cur \<noteq> Inr []"
    by (simp add: naive_PlanRebalance_def naive_visit_def naive_init_def naive_executorLoad_def
        naive_hottestShard_def mrange_def List.map_filter_simps mzero_def float_simps
        MaxFloat64_def Let_def)
  have "loads_ok (calcShardLoad (\<lambda>xs. xs) (loaded_state (Fin 3) (Fin 4))) ?cur"
    by (simp add: loads_ok_def naive_executorLoad_def mzero_def MaxFloat64_def float_simps)
  from naive_rebalance_move [OF is_order_rev _ this refl] ne show ?thesis by fastforce
qed


end
