(* ===== verification/Statistics.thy ===== *)
theory Statistics
  imports State
begin

text \<open>
  Smoothed shard loads: the exponentially weighted average of \<open>statistics/stats.go\<close>, the
  statistics an executor's heartbeat updates (\<open>strategy/greedy/statistics.go\<close>), those an
  assignment change updates (\<open>strategy/greedy/assignment_statistics.go\<close>), and the loads the
  greedy strategy reads from them (\<open>strategy/greedy/load.go\<close>).
\<close>

section \<open>The moving average\<close>

definition DefaultLoadSmoothingTimeConstant :: duration where
  "DefaultLoadSmoothingTimeConstant = 60 * 10 ^ 9"

text \<open>\<open>Duration.Seconds\<close> and \<open>math.Exp\<close>.\<close>

definition Seconds :: "duration \<Rightarrow> float64" where
  "Seconds d = Fin (of_int d / 10 ^ 9)"

fun Exp :: "float64 \<Rightarrow> float64" where
  "Exp (Fin a) = Fin (exp a)"
| "Exp PosInf = PosInf"
| "Exp NegInf = Fin 0"
| "Exp NaN = NaN"

definition CalculateSmoothedLoad ::
    "float64 \<Rightarrow> float64 \<Rightarrow> gotime \<Rightarrow> gotime \<Rightarrow> duration \<Rightarrow> float64 result" where
  "CalculateSmoothedLoad prev current lastUpdate now smoothingTimeConstant =
     (if IsNaN current \<or> IsInf current then Inl (ErrorString ''current load is NaN or Inf'')
      else if IsNaN prev \<or> IsInf prev then Inl (ErrorString ''previous load is NaN or Inf'')
      else let tau = smoothingTimeConstant in
        if IsZero lastUpdate \<or> tau \<le> 0 then Inr current
        else if Before now lastUpdate then Inr current
        else let dt = time_Sub now lastUpdate;
                 alpha = Fin 1 - Exp (- Seconds dt / Seconds tau)
             in Inr ((Fin 1 - alpha) * prev + alpha * current))"

section \<open>Statistics of a heartbeat\<close>

definition loadSmoothingTimeConstant :: "LoadBalancingGreedyConfig \<Rightarrow> duration" where
  "loadSmoothingTimeConstant cfg =
     (case LoadSmoothingTimeConstant cfg of
        None \<Rightarrow> DefaultLoadSmoothingTimeConstant
      | Some c \<Rightarrow> c)"

definition updateShardStatistic ::
    "float64 \<Rightarrow> ShardStatistics \<Rightarrow> gotime \<Rightarrow> duration \<Rightarrow> ShardStatistics result" where
  "updateShardStatistic shardLoad previous now smoothingTimeConstant =
     (case CalculateSmoothedLoad (SmoothedLoad previous) shardLoad (LastUpdateTime previous) now
             smoothingTimeConstant of
        Inl e \<Rightarrow> Inl e
      | Inr newSmoothed \<Rightarrow>
          Inr \<lparr>SmoothedLoad = newSmoothed, LastUpdateTime = now,
               LastMoveTime = LastMoveTime previous\<rparr>)"

text \<open>
  The first loop keeps the previous statistics of the assigned shards, the second stores an
  updated statistic for each assigned shard whose report smooths without an error. The flag
  says whether the second loop stored anything. Both loops touch each key once, so their order
  does not matter.
\<close>

definition PrepareShardStatistics ::
    "LoadBalancingGreedyConfig \<Rightarrow> (string, ShardStatusReport) gomap \<Rightarrow> AssignedState
      \<Rightarrow> (string, ShardStatistics) gomap \<Rightarrow> gotime \<Rightarrow> (string, ShardStatistics) gomap \<times> bool" where
  "PrepareShardStatistics cfg reportedShards assignedState previousStats now =
     (let updatedStats = store_loop (\<lambda>shardID _. mget previousStats shardID)
                           (AssignedShards assignedState) [];
          smoothingTimeConstant = loadSmoothingTimeConstant cfg
      in fold (\<lambda>(shardID, report) (updatedStats, updated).
                 if \<not> mhas (AssignedShards assignedState) shardID then (updatedStats, updated)
                 else let previous = mzero zero_ShardStatistics previousStats shardID
                   in (case updateShardStatistic (ShardLoad report) previous now
                              smoothingTimeConstant of
                         Inl _ \<Rightarrow> (updatedStats, updated)
                       | Inr updatedStatistic \<Rightarrow>
                           (mput shardID updatedStatistic updatedStats, True)))
           reportedShards (updatedStats, False))"

section \<open>Statistics of an assignment change\<close>

definition findAffectedExecutors ::
    "(string, string) gomap \<Rightarrow> (string, AssignedState) gomap \<Rightarrow> gostrset" where
  "findAffectedExecutors previousOwnersByShard newAssignments =
     fold (\<lambda>(newOwnerID, assignedState) affected.
             fold (\<lambda>shardID affected.
                     (case mget previousOwnersByShard shardID of
                        None \<Rightarrow> List.insert newOwnerID affected
                      | Some previousOwnerID \<Rightarrow>
                          if previousOwnerID = newOwnerID then affected
                          else List.insert previousOwnerID (List.insert newOwnerID affected)))
               (mkeys (AssignedShards assignedState)) affected)
       newAssignments []"

text \<open>The body of the inner loop: what is stored for one shard of an affected executor.\<close>

definition assignmentStatistic ::
    "(string, string) gomap \<Rightarrow> (string, ShardStatistics) gomap \<Rightarrow> gotime \<Rightarrow> string \<Rightarrow> string
      \<Rightarrow> ShardStatistics" where
  "assignmentStatistic previousOwnersByShard previousStatistics now executorID shardID =
     (let hadPreviousOwner = mhas previousOwnersByShard shardID;
          shardStatistics = mzero zero_ShardStatistics previousStatistics shardID;
          hasPreviousStatistics = mhas previousStatistics shardID;
          sameOwner = hadPreviousOwner \<and> mget previousOwnersByShard shardID = Some executorID;
          hasStatisticsFromPreviousAssignment = hadPreviousOwner \<and> hasPreviousStatistics
      in if \<not> sameOwner
         then if hasStatisticsFromPreviousAssignment
              then shardStatistics\<lparr>LastMoveTime := now\<rparr>
              else zero_ShardStatistics
         else shardStatistics)"

definition buildStatisticsUpdates ::
    "order \<Rightarrow> gostrset \<Rightarrow> (string, string) gomap \<Rightarrow> (string, AssignedState) gomap
      \<Rightarrow> (string, ShardStatistics) gomap \<Rightarrow> gotime \<Rightarrow> ExecutorShardStatistics list" where
  "buildStatisticsUpdates ord affected previousOwnersByShard newAssignments previousStatistics now =
     map (\<lambda>executorID.
            let assignedState = mzero zero_AssignedState newAssignments executorID
            in \<lparr>ess_ExecutorID = executorID,
                ess_Statistics = store_loop
                  (\<lambda>shardID _. Some (assignmentStatistic previousOwnersByShard previousStatistics
                                       now executorID shardID))
                  (AssignedShards assignedState) []\<rparr>)
       (ord affected)"

definition greedy_PrepareAssignmentStatistics ::
    "order \<Rightarrow> (string, string) gomap \<Rightarrow> (string, AssignedState) gomap
      \<Rightarrow> (string, ShardStatistics) gomap \<Rightarrow> gotime \<Rightarrow> ExecutorShardStatistics list" where
  "greedy_PrepareAssignmentStatistics ord previousOwnersByShard newAssignments previousStatistics now =
     buildStatisticsUpdates ord (findAffectedExecutors previousOwnersByShard newAssignments)
       previousOwnersByShard newAssignments previousStatistics now"

section \<open>Loads read from the statistics\<close>

definition hasSmoothedLoadUpdate :: "ShardStatistics \<Rightarrow> bool" where
  "hasSmoothedLoadUpdate stats = (\<not> IsZero (LastUpdateTime stats))"

definition measuredShardLoad :: "string \<Rightarrow> (string, ShardStatistics) gomap \<Rightarrow> float64 option" where
  "measuredShardLoad shardID shardStats =
     (case mget shardStats shardID of
        None \<Rightarrow> None
      | Some stats \<Rightarrow> if \<not> hasSmoothedLoadUpdate stats then None else Some (SmoothedLoad stats))"

definition averageMeasuredShardLoad ::
    "(string, string list) gomap \<Rightarrow> (string, ShardStatistics) gomap \<Rightarrow> float64" where
  "averageMeasuredShardLoad assignments shardStats =
     (let (sum, count) =
        fold (\<lambda>(_, shards). fold (\<lambda>shardID (sum, count).
                 (case measuredShardLoad shardID shardStats of
                    None \<Rightarrow> (sum, count)
                  | Some smoothedLoad \<Rightarrow> (sum + smoothedLoad, count + 1))) shards)
          assignments (0, 0 :: nat)
      in if count = 0 then 0 else sum / float_of_nat count)"

definition effectiveShardLoad ::
    "string \<Rightarrow> (string, ShardStatistics) gomap \<Rightarrow> float64 \<Rightarrow> float64" where
  "effectiveShardLoad shardID shardStats averageMeasured =
     (case measuredShardLoad shardID shardStats of
        None \<Rightarrow> averageMeasured
      | Some smoothedLoad \<Rightarrow> smoothedLoad)"

section \<open>Lemmas\<close>

subsection \<open>The moving average\<close>

lemma float_uminus_divide_Fin [simp]: "b \<noteq> 0 \<Longrightarrow> - Fin a / Fin b = Fin (- a / b)"
  by (simp add: uminus_float64_def divide_float64_def)

lemma CalculateSmoothedLoad_Inl:
  "(\<exists>e. CalculateSmoothedLoad prev current lastUpdate now tau = Inl e) \<longleftrightarrow>
     \<not> (is_fin prev \<and> is_fin current)"
  by (auto simp: CalculateSmoothedLoad_def Let_def is_fin_not_NaN)

lemma convex_between:
  fixes a p c :: real
  assumes "0 \<le> a" "a \<le> 1"
  shows "min p c \<le> (1 - a) * p + a * c" and "(1 - a) * p + a * c \<le> max p c"
proof -
  have "(1 - a) * min p c + a * min p c \<le> (1 - a) * p + a * c"
    using assms by (intro add_mono mult_left_mono) auto
  then show "min p c \<le> (1 - a) * p + a * c" by (simp add: algebra_simps)
  have "(1 - a) * p + a * c \<le> (1 - a) * max p c + a * max p c"
    using assms by (intro add_mono mult_left_mono) auto
  then show "(1 - a) * p + a * c \<le> max p c" by (simp add: algebra_simps)
qed

lemma CalculateSmoothedLoad_Fin:
  "\<exists>r. CalculateSmoothedLoad (Fin p) (Fin c) lastUpdate now tau = Inr (Fin r)
     \<and> min p c \<le> r \<and> r \<le> max p c"
proof (cases "IsZero lastUpdate \<or> tau \<le> 0 \<or> Before now lastUpdate")
  case True
  then show ?thesis by (auto simp: CalculateSmoothedLoad_def Let_def IsNaN_def IsInf_def)
next
  case False
  let ?x = "- (of_int (time_Sub now lastUpdate) / 10 ^ 9) / (of_int tau / 10 ^ 9 :: real)"
  have "0 \<le> time_Sub now lastUpdate"
    using False by (simp add: time_Sub_def minDuration_def maxDuration_def)
  then have "?x \<le> 0" using False by (simp add: divide_nonneg_pos)
  then have a: "0 \<le> 1 - exp ?x" "1 - exp ?x \<le> 1" by simp_all
  have "CalculateSmoothedLoad (Fin p) (Fin c) lastUpdate now tau =
      Inr (Fin ((1 - (1 - exp ?x)) * p + (1 - exp ?x) * c))"
    using False by (simp add: CalculateSmoothedLoad_def Let_def IsNaN_def IsInf_def Seconds_def)
  then show ?thesis using convex_between [OF a] by blast
qed

lemma updateShardStatistic_Inl:
  "(\<exists>e. updateShardStatistic load previous now tau = Inl e) \<longleftrightarrow>
     \<not> (is_fin (SmoothedLoad previous) \<and> is_fin load)"
  using CalculateSmoothedLoad_Inl [of "SmoothedLoad previous" load "LastUpdateTime previous" now tau]
  by (auto simp: updateShardStatistic_def split: sum.splits)

lemma updateShardStatistic_Inr:
  "updateShardStatistic load previous now tau = Inr stat \<Longrightarrow>
     LastUpdateTime stat = now \<and> LastMoveTime stat = LastMoveTime previous"
  by (auto simp: updateShardStatistic_def split: sum.splits)

subsection \<open>Statistics of a heartbeat\<close>

text \<open>The second loop as a \<^const>\<open>store_loop\<close>, and its flag.\<close>

definition reportStatistic ::
    "duration \<Rightarrow> AssignedState \<Rightarrow> (string, ShardStatistics) gomap \<Rightarrow> gotime \<Rightarrow> string
      \<Rightarrow> ShardStatusReport \<Rightarrow> ShardStatistics option" where
  "reportStatistic tau assignedState previousStats now shardID report =
     (if \<not> mhas (AssignedShards assignedState) shardID then None
      else case updateShardStatistic (ShardLoad report)
                  (mzero zero_ShardStatistics previousStats shardID) now tau of
             Inl _ \<Rightarrow> None | Inr stat \<Rightarrow> Some stat)"

lemma store_flag_loop:
  assumes "\<And>k v m b. step (k, v) (m, b) =
    (case f k v of None \<Rightarrow> (m, b) | Some w \<Rightarrow> (mput k w m, True))"
  shows "fold step xs (m, b) =
    (store_loop f xs m, b \<or> list_ex (\<lambda>(k, v). f k v \<noteq> None) xs)"
  by (induction xs arbitrary: m b) (auto simp: assms split: option.splits)

lemma PrepareShardStatistics_store_loop:
  "PrepareShardStatistics cfg reports a prev now =
     (store_loop (reportStatistic (loadSmoothingTimeConstant cfg) a prev now) reports
        (store_loop (\<lambda>s _. mget prev s) (AssignedShards a) []),
      list_ex (\<lambda>(s, r). reportStatistic (loadSmoothingTimeConstant cfg) a prev now s r \<noteq> None)
        reports)"
  unfolding PrepareShardStatistics_def Let_def
  by (subst store_flag_loop
        [where f = "reportStatistic (loadSmoothingTimeConstant cfg) a prev now"])
     (auto simp: reportStatistic_def split: sum.splits)

subsection \<open>Statistics of an assignment change\<close>

lemma set_fold_affected:
  "x \<in> set (fold (\<lambda>shardID affected.
       (case mget prev shardID of
          None \<Rightarrow> List.insert n affected
        | Some p \<Rightarrow> if p = n then affected else List.insert p (List.insert n affected))) ks acc)
   \<longleftrightarrow> x \<in> set acc \<or> (\<exists>s \<in> set ks. mget prev s \<noteq> Some n \<and> (x = n \<or> mget prev s = Some x))"
  by (induction ks arbitrary: acc) (auto split: option.splits)

lemma distinct_fold_affected:
  "distinct acc \<Longrightarrow> distinct (fold (\<lambda>shardID affected.
       (case mget prev shardID of
          None \<Rightarrow> List.insert n affected
        | Some p \<Rightarrow> if p = n then affected else List.insert p (List.insert n affected))) ks acc)"
  by (induction ks arbitrary: acc) (auto split: option.splits)

definition moved_to :: "(string, string) gomap \<Rightarrow> (string, AssignedState) gomap \<Rightarrow> string \<Rightarrow> string \<Rightarrow> bool"
where
  "moved_to prev new s e =
     (\<exists>a. (e, a) \<in> set new \<and> mhas (AssignedShards a) s \<and> mget prev s \<noteq> Some e)"

lemma set_findAffectedExecutors:
  "e \<in> set (findAffectedExecutors prev new) \<longleftrightarrow>
     (\<exists>s e'. moved_to prev new s e' \<and> (e = e' \<or> mget prev s = Some e))"
proof -
  have "e \<in> set (fold (\<lambda>(n, a). fold (\<lambda>shardID affected.
       (case mget prev shardID of
          None \<Rightarrow> List.insert n affected
        | Some p \<Rightarrow> if p = n then affected else List.insert p (List.insert n affected)))
       (mkeys (AssignedShards a))) new acc) \<longleftrightarrow>
     e \<in> set acc \<or> (\<exists>s e'. moved_to prev new s e' \<and> (e = e' \<or> mget prev s = Some e))" for acc
  proof (induction new arbitrary: acc)
    case Nil
    then show ?case by (simp add: moved_to_def)
  next
    case (Cons p new)
    obtain n a where p: "p = (n, a)" by force
    define K where "K = set (mkeys (AssignedShards a))"
    have m: "moved_to prev ((n, a) # new) s f \<longleftrightarrow>
        f = n \<and> s \<in> K \<and> mget prev s \<noteq> Some n \<or> moved_to prev new s f" for s f
      by (auto simp: moved_to_def K_def mhas_mkeys)
    have "(\<exists>s f. moved_to prev ((n, a) # new) s f \<and> (e = f \<or> mget prev s = Some e)) \<longleftrightarrow>
        (\<exists>s \<in> K. mget prev s \<noteq> Some n \<and> (e = n \<or> mget prev s = Some e))
        \<or> (\<exists>s f. moved_to prev new s f \<and> (e = f \<or> mget prev s = Some e))"
      unfolding m by blast
    then show ?case
      unfolding p fold_simps prod.case Cons.IH set_fold_affected K_def [symmetric] by simp
  qed
  from this [of "[]"] show ?thesis by (simp add: findAffectedExecutors_def)
qed

lemma distinct_findAffectedExecutors: "distinct (findAffectedExecutors prev new)"
proof -
  have "distinct acc \<Longrightarrow> distinct (fold (\<lambda>(n, a). fold (\<lambda>shardID affected.
       (case mget prev shardID of
          None \<Rightarrow> List.insert n affected
        | Some p \<Rightarrow> if p = n then affected else List.insert p (List.insert n affected)))
       (mkeys (AssignedShards a))) new acc)" for acc
    by (induction new arbitrary: acc) (auto simp: distinct_fold_affected)
  then show ?thesis by (simp add: findAffectedExecutors_def case_prod_beta')
qed

section \<open>Properties\<close>

text \<open>
  For finite loads the smoothed load exists and lies between the previous load and the
  current one, whatever the clock reads and whatever the smoothing constant is.
\<close>
theorem smoothed_load_between:
  assumes "is_fin prev" and "is_fin current"
  shows "\<exists>r. CalculateSmoothedLoad prev current lastUpdate now tau = Inr r \<and> is_fin r
    \<and> (prev \<le> r \<and> r \<le> current \<or> current \<le> r \<and> r \<le> prev)"
proof -
  obtain p c where "prev = Fin p" "current = Fin c" using assms by (metis is_finE)
  then show ?thesis
    using CalculateSmoothedLoad_Fin [of p c lastUpdate now tau]
    by (cases "p \<le> c") (auto simp: min_def max_def split: if_splits)
qed

theorem smoothed_load_between_witness:
  "\<exists>r. CalculateSmoothedLoad (Fin 2) (Fin 10) 5 (10 ^ 10) (3 * 10 ^ 9) = Inr r \<and> is_fin r
    \<and> (Fin 2 \<le> r \<and> r \<le> Fin 10 \<or> Fin 10 \<le> r \<and> r \<le> Fin 2)"
  by (rule smoothed_load_between [of "Fin 2" "Fin 10" 5 "10 ^ 10" "3 * 10 ^ 9"]) simp_all

text \<open>The reports that can update a statistic.\<close>

definition usable_report ::
    "AssignedState \<Rightarrow> (string, ShardStatistics) gomap \<Rightarrow> string \<Rightarrow> ShardStatusReport \<Rightarrow> bool" where
  "usable_report a prev s r = (mhas (AssignedShards a) s \<and> is_fin (ShardLoad r)
     \<and> is_fin (SmoothedLoad (mzero zero_ShardStatistics prev s)))"

text \<open>
  C25. The statistics a heartbeat writes: shards that are not assigned to the executor have
  none; an assigned shard whose report and previous load are finite gets the smoothed load,
  the time of the heartbeat and its previous move time; every other assigned shard keeps what
  it had. The flag asks for a write exactly when some report updated a shard.
\<close>
theorem heartbeat_statistics:
  assumes "wf_map reports" and "wf_map (AssignedShards a)"
  shows "mget (fst (PrepareShardStatistics cfg reports a prev now)) s =
      (if \<not> mhas (AssignedShards a) s then None
       else case mget reports s of
         None \<Rightarrow> mget prev s
       | Some r \<Rightarrow> if usable_report a prev s r
           then let p = mzero zero_ShardStatistics prev s
             in Some \<lparr>SmoothedLoad = projr (CalculateSmoothedLoad (SmoothedLoad p) (ShardLoad r)
                        (LastUpdateTime p) now (loadSmoothingTimeConstant cfg)),
                      LastUpdateTime = now, LastMoveTime = LastMoveTime p\<rparr>
           else mget prev s)
    \<and> snd (PrepareShardStatistics cfg reports a prev now) = (\<exists>(s, r) \<in> set reports. usable_report a prev s r)"
proof -
  let ?tau = "loadSmoothingTimeConstant cfg"
  let ?f = "reportStatistic ?tau a prev now"
  have f: "?f s r = (if usable_report a prev s r
      then let p = mzero zero_ShardStatistics prev s
        in Some \<lparr>SmoothedLoad = projr (CalculateSmoothedLoad (SmoothedLoad p) (ShardLoad r)
                   (LastUpdateTime p) now ?tau),
                 LastUpdateTime = now, LastMoveTime = LastMoveTime p\<rparr>
      else None)" for s r
    using CalculateSmoothedLoad_Inl [of "SmoothedLoad (mzero zero_ShardStatistics prev s)"
        "ShardLoad r" "LastUpdateTime (mzero zero_ShardStatistics prev s)" now ?tau]
    by (auto simp: Let_def reportStatistic_def updateShardStatistic_def usable_report_def
        split: sum.splits)
  have assigned: "usable_report a prev s r \<Longrightarrow> mhas (AssignedShards a) s" for s r
    by (simp add: usable_report_def)
  have kept: "mget (store_loop (\<lambda>s _. mget prev s) (AssignedShards a) []) s =
      (if mhas (AssignedShards a) s then mget prev s else None)"
    by (simp add: mget_store_loop [OF assms(2)] mhas_def split: option.splits)
  have "mget (fst (PrepareShardStatistics cfg reports a prev now)) s =
      (case mget reports s of None \<Rightarrow> (if mhas (AssignedShards a) s then mget prev s else None)
       | Some r \<Rightarrow> (case ?f s r of
           None \<Rightarrow> (if mhas (AssignedShards a) s then mget prev s else None) | Some w \<Rightarrow> Some w))"
    unfolding PrepareShardStatistics_store_loop fst_conv mget_store_loop [OF assms(1)] kept ..
  moreover have "snd (PrepareShardStatistics cfg reports a prev now) =
      (\<exists>(s, r) \<in> set reports. usable_report a prev s r)"
    by (simp add: PrepareShardStatistics_store_loop list_ex_iff f Let_def)
  ultimately show ?thesis by (auto simp: f Let_def split: option.splits dest: assigned)
qed

theorem heartbeat_statistics_witness:
  "mget (fst (PrepareShardStatistics
        \<lparr>PerShardCooldown = 0, LoadSmoothingTimeConstant = None, MoveBudgetProportion = 0,
         HysteresisUpperBand = 0, HysteresisLowerBand = 0, SevereImbalanceRatio = 0\<rparr>
        [(''s1'', \<lparr>ssr_Status = ShardStatusREADY, ShardLoad = Fin 4\<rparr>),
         (''s2'', \<lparr>ssr_Status = ShardStatusREADY, ShardLoad = NaN\<rparr>)]
        \<lparr>AssignedShards = [(''s1'', \<lparr>sa_Status = AssignmentStatusREADY\<rparr>)],
         as_HandoverStats = [], LastUpdated = 0, ModRevision = 1\<rparr>
        [(''s1'', \<lparr>SmoothedLoad = Fin 2, LastUpdateTime = 0, LastMoveTime = 7\<rparr>)] 100)) ''s1''
   = Some \<lparr>SmoothedLoad = Fin 4, LastUpdateTime = 100, LastMoveTime = 7\<rparr>"
  by (subst heartbeat_statistics [THEN conjunct1])
     (simp_all add: usable_report_def mzero_def CalculateSmoothedLoad_def IsNaN_def IsInf_def)

text \<open>
  C26. The statistics written after an assignment change: one complete map for each executor
  that received a shard or lost one to another executor, and for no other. In it a shard that
  stayed keeps its statistics, a shard that moved and has statistics keeps its load and gets
  the time of the change as its move time, and a shard assigned for the first time starts from
  the zero value.
\<close>
theorem assignment_statistics:
  assumes "is_order ord" and "list_all (\<lambda>(_, a). wf_map (AssignedShards a)) new"
    and "U = greedy_PrepareAssignmentStatistics ord owners new stats now"
  shows "distinct (map ess_ExecutorID U)
    \<and> (e \<in> set (map ess_ExecutorID U) \<longleftrightarrow>
         (\<exists>s e'. moved_to owners new s e' \<and> (e = e' \<or> mget owners s = Some e)))
    \<and> (\<forall>u \<in> set U. mget (ess_Statistics u) s =
         (if \<not> mhas (AssignedShards (mzero zero_AssignedState new (ess_ExecutorID u))) s then None
          else if mget owners s = Some (ess_ExecutorID u)
          then Some (mzero zero_ShardStatistics stats s)
          else if mhas owners s \<and> mhas stats s
          then Some ((mzero zero_ShardStatistics stats s)\<lparr>LastMoveTime := now\<rparr>)
          else Some zero_ShardStatistics))"
proof (intro conjI ballI)
  have ids: "map ess_ExecutorID U = ord (findAffectedExecutors owners new)"
    by (simp add: assms(3) greedy_PrepareAssignmentStatistics_def buildStatisticsUpdates_def Let_def
        comp_def)
  show "distinct (map ess_ExecutorID U)"
    by (simp add: ids is_order_distinct [OF assms(1)] distinct_findAffectedExecutors)
  show "e \<in> set (map ess_ExecutorID U) \<longleftrightarrow>
      (\<exists>s e'. moved_to owners new s e' \<and> (e = e' \<or> mget owners s = Some e))"
    by (simp only: ids is_order_set [OF assms(1)] set_findAffectedExecutors)
next
  fix u assume "u \<in> set U"
  define a where "a = mzero zero_AssignedState new (ess_ExecutorID u)"
  have "wf_map (AssignedShards a)"
    using assms(2) by (auto simp: a_def mzero_def zero_AssignedState_def list_all_iff
        split: option.splits dest!: map_of_SomeD)
  moreover have "ess_Statistics u = store_loop
      (\<lambda>s _. Some (assignmentStatistic owners stats now (ess_ExecutorID u) s)) (AssignedShards a) []"
    using \<open>u \<in> set U\<close>
    by (auto simp: assms(3) greedy_PrepareAssignmentStatistics_def buildStatisticsUpdates_def
        Let_def a_def)
  ultimately have "mget (ess_Statistics u) s = (if mhas (AssignedShards a) s
      then Some (assignmentStatistic owners stats now (ess_ExecutorID u) s) else None)"
    by (auto simp: mget_store_loop mhas_def split: option.splits)
  then show "mget (ess_Statistics u) s =
         (if \<not> mhas (AssignedShards (mzero zero_AssignedState new (ess_ExecutorID u))) s then None
          else if mget owners s = Some (ess_ExecutorID u)
          then Some (mzero zero_ShardStatistics stats s)
          else if mhas owners s \<and> mhas stats s
          then Some ((mzero zero_ShardStatistics stats s)\<lparr>LastMoveTime := now\<rparr>)
          else Some zero_ShardStatistics)"
    by (auto simp: assignmentStatistic_def Let_def a_def)
qed

theorem assignment_statistics_witness:
  "\<exists>u. u \<in> set (greedy_PrepareAssignmentStatistics rev [(''s'', ''b'')]
       [(''a'', \<lparr>AssignedShards = [(''s'', \<lparr>sa_Status = AssignmentStatusREADY\<rparr>)],
                as_HandoverStats = [], LastUpdated = 0, ModRevision = 1\<rparr>)]
       [(''s'', \<lparr>SmoothedLoad = Fin 2, LastUpdateTime = 3, LastMoveTime = 0\<rparr>)] 9)
     \<and> ess_ExecutorID u = ''a'' \<and> mget (ess_Statistics u) ''s'' =
       Some \<lparr>SmoothedLoad = Fin 2, LastUpdateTime = 3, LastMoveTime = 9\<rparr>"
proof -
  let ?new = "[(''a'', \<lparr>AssignedShards = [(''s'', \<lparr>sa_Status = AssignmentStatusREADY\<rparr>)],
                as_HandoverStats = [], LastUpdated = 0, ModRevision = 1\<rparr>)]"
  let ?stats = "[(''s'', \<lparr>SmoothedLoad = Fin 2, LastUpdateTime = 3, LastMoveTime = 0\<rparr>)]"
  have wf: "list_all (\<lambda>(_, a). wf_map (AssignedShards a)) ?new" by simp
  note spec = assignment_statistics [of rev ?new _ "[(''s'', ''b'')]" ?stats 9 "''a''" "''s''",
      OF is_order_rev wf refl]
  have "moved_to [(''s'', ''b'')] ?new ''s'' ''a''" by (simp add: moved_to_def)
  then obtain u where u: "u \<in> set (greedy_PrepareAssignmentStatistics rev [(''s'', ''b'')] ?new ?stats 9)"
    "ess_ExecutorID u = ''a''"
    using spec by auto
  from spec [THEN conjunct2, THEN conjunct2, rule_format, OF u(1)]
  have "mget (ess_Statistics u) ''s'' =
      Some \<lparr>SmoothedLoad = Fin 2, LastUpdateTime = 3, LastMoveTime = 9\<rparr>"
    by (simp add: u(2) mzero_def)
  with u show ?thesis by blast
qed

end
