(* ===== verification/Greedy.thy ===== *)
theory Greedy
  imports Statistics Plan
begin

text \<open>
  The greedy strategy, \<open>loadbalancer/strategy/greedy\<close>: initial placement by smoothed load
  (\<open>placement.go\<close>), and a rebalance that plans moves one at a time, each reducing the sum of
  squared executor loads, until the loads lie within the hysteresis bands or the move budget is
  spent (\<open>rebalance.go\<close>). Logging and the move counters are left out.

  The rebalance loop ranges over maps and sorts with an unstable sort in every iteration; the
  definitions take a family \<open>\<pi>\<close> of orders, \<open>\<pi> i j\<close> for place \<open>j\<close> of iteration \<open>i\<close>.
\<close>

section \<open>Initial placement\<close>

record executorLoad =
  el_shardCount :: nat
  el_smoothedLoad :: float64

definition zero_executorLoad :: executorLoad where
  "zero_executorLoad = \<lparr>el_shardCount = 0, el_smoothedLoad = 0\<rparr>"

definition activeExecutorAssignments :: "NamespaceState \<Rightarrow> assignments" where
  "activeExecutorAssignments state =
     fold (\<lambda>executorID assignments.
             mput executorID
               (mkeys (AssignedShards (mzero zero_AssignedState (ShardAssignments state) executorID)))
               assignments)
       (AssignableExecutorIDs state []) []"

definition placement_executorLoads :: "NamespaceState \<Rightarrow> (string, executorLoad) gomap \<times> float64" where
  "placement_executorLoads state =
     (let activeAssignments = activeExecutorAssignments state;
          averageMeasured = averageMeasuredShardLoad activeAssignments (ShardStats state)
      in (store_loop (\<lambda>executorID shards.
              Some (fold (\<lambda>shardID load. load\<lparr>el_smoothedLoad := el_smoothedLoad load
                             + effectiveShardLoad shardID (ShardStats state) averageMeasured\<rparr>)
                      shards \<lparr>el_shardCount = length shards, el_smoothedLoad = 0\<rparr>))
            activeAssignments [],
          averageMeasured))"

text \<open>
  The comparison of \<open>slices.MinFunc\<close>: smoothed load, then shard count, then ID. It is total on
  distinct IDs, so the minimum does not depend on the order of \<open>maps.Keys\<close>.
\<close>

definition load_less :: "(string, executorLoad) gomap \<Rightarrow> string \<Rightarrow> string \<Rightarrow> bool" where
  "load_less loads a b =
     (let la = mzero zero_executorLoad loads a; lb = mzero zero_executorLoad loads b
      in if \<not> (cmp_le (el_smoothedLoad la) (el_smoothedLoad lb)
               \<and> cmp_le (el_smoothedLoad lb) (el_smoothedLoad la))
         then cmp_le (el_smoothedLoad la) (el_smoothedLoad lb)
         else if el_shardCount la \<noteq> el_shardCount lb then el_shardCount la < el_shardCount lb
         else a < b)"

definition chooseExecutorAndUpdateLoads ::
    "float64 \<Rightarrow> (string, executorLoad) gomap \<Rightarrow> (string \<times> (string, executorLoad) gomap) result" where
  "chooseExecutorAndUpdateLoads averageShardLoad loads =
     (case MinFunc (load_less loads) (mkeys loads) of
        None \<Rightarrow> Inl ErrNoActiveExecutors
      | Some chosen \<Rightarrow>
          let load = mzero zero_executorLoad loads chosen;
              load = load\<lparr>el_shardCount := el_shardCount load + 1\<rparr>;
              load = load\<lparr>el_smoothedLoad := el_smoothedLoad load + averageShardLoad\<rparr>
          in Inr (chosen, mput chosen load loads))"

definition greedy_PlanInitialPlacement ::
    "NamespaceState \<Rightarrow> string list \<Rightarrow> Placement list result" where
  "greedy_PlanInitialPlacement state shardIDs =
     (let (loads, averageShardLoad) = placement_executorLoads state
      in place_loop (chooseExecutorAndUpdateLoads averageShardLoad) loads shardIDs)"

section \<open>Rebalance\<close>

definition minShardSmoothedLoadForMove :: float64 where
  "minShardSmoothedLoadForMove = Fin (1 / 100)"

record moveCandidate =
  mc_shardID :: string
  mc_smoothedLoad :: float64
  mc_from :: string
  mc_to :: string
  mc_assignmentIndex :: nat

definition zero_moveCandidate :: moveCandidate where
  "zero_moveCandidate =
     \<lparr>mc_shardID = [], mc_smoothedLoad = 0, mc_from = [], mc_to = [], mc_assignmentIndex = 0\<rparr>"

definition cloneAssignments :: "assignments \<Rightarrow> assignments" where
  "cloneAssignments assignments =
     store_loop (\<lambda>executorID shardIDs. Some shardIDs) assignments []"

definition computeExecutorLoads ::
    "assignments \<Rightarrow> NamespaceState \<Rightarrow> ((string, float64) gomap \<times> float64) option" where
  "computeExecutorLoads currentAssignments state =
     (if length currentAssignments = 0 then None
      else let averageMeasured = averageMeasuredShardLoad currentAssignments (ShardStats state);
               (loads, total) =
                 fold (\<lambda>(executorID, shards) (loads, total).
                         fold (\<lambda>shardID (loads, total).
                                 let load = effectiveShardLoad shardID (ShardStats state) averageMeasured
                                 in (mput executorID (mzero 0 loads executorID + load) loads, total + load))
                           shards (mput executorID 0 loads, total))
                   currentAssignments ([], 0)
           in Some (loads, total / float_of_nat (length currentAssignments)))"

definition computeMoveBudget :: "nat \<Rightarrow> float64 \<Rightarrow> int" where
  "computeMoveBudget totalShards proportion =
     (if totalShards = 0 \<or> proportion \<le> 0 then 0
      else int_of_float (Ceil (proportion * float_of_nat totalShards)))"

definition greedy_isAssignable :: "NamespaceState \<Rightarrow> string \<Rightarrow> bool" where
  "greedy_isAssignable state executorID =
     (case ns_Executor state executorID of None \<Rightarrow> False | Some executor \<Rightarrow> IsAssignable executor [])"

definition classifySourcesAndDestinations ::
    "order \<Rightarrow> (string, float64) gomap \<Rightarrow> NamespaceState \<Rightarrow> float64 \<Rightarrow> float64 \<Rightarrow> float64
      \<Rightarrow> string list \<times> string list" where
  "classifySourcesAndDestinations ord executorLoads state meanLoad upperBand lowerBand =
     fold (\<lambda>(executorID, load) (sources, destinations).
             if meanLoad * upperBand < load then (sources @ [executorID], destinations)
             else if load < meanLoad * lowerBand \<and> greedy_isAssignable state executorID
             then (sources, destinations @ [executorID])
             else (sources, destinations))
       (mrange ord executorLoads) ([], [])"

definition isSevereImbalance :: "(string, float64) gomap \<Rightarrow> float64 \<Rightarrow> float64 \<Rightarrow> bool" where
  "isSevereImbalance executorLoads meanLoad severeImbalanceRatio =
     (if meanLoad \<le> 0 \<or> severeImbalanceRatio \<le> 0 then False
      else let maxLoad = fold (\<lambda>(_, load) maxLoad. if maxLoad < load then load else maxLoad)
                           executorLoads 0
           in severeImbalanceRatio \<le> maxLoad / meanLoad)"

definition findBestDestination :: "string list \<Rightarrow> (string, float64) gomap \<Rightarrow> string \<times> bool" where
  "findBestDestination destinationExecutors executorLoads =
     (let (minExecutor, found, minLoad) =
        fold (\<lambda>executor (minExecutor, found, minLoad).
                let load = mzero 0 executorLoads executor
                in if \<not> found \<or> load < minLoad then (executor, True, load)
                   else (minExecutor, found, minLoad))
          destinationExecutors ([], False, 0)
      in (minExecutor, found))"

definition selectDestinationExecutor ::
    "order \<Rightarrow> string list \<Rightarrow> assignments \<Rightarrow> NamespaceState \<Rightarrow> (string, float64) gomap \<Rightarrow> float64
      \<Rightarrow> float64 \<Rightarrow> string \<times> bool" where
  "selectDestinationExecutor ord destinationExecutors workingAssignments namespaceState loads
       meanLoad severeImbalanceRatio =
     (if destinationExecutors = []
      then if \<not> isSevereImbalance loads meanLoad severeImbalanceRatio then ([], False)
           else let allAssignableExecutors = filter (greedy_isAssignable namespaceState)
                      (ord (mkeys workingAssignments))
             in if allAssignableExecutors = [] then ([], False)
                else findBestDestination allAssignableExecutors loads
      else findBestDestination destinationExecutors loads)"

text \<open>
  \<open>sortByDescendingLoad\<close>: \<open>slices.SortFunc\<close> is not stable, so executors of equal load come
  out in an arbitrary order.
\<close>

definition sortByDescendingLoad ::
    "order \<Rightarrow> string list \<Rightarrow> (string, float64) gomap \<Rightarrow> string list" where
  "sortByDescendingLoad ord executors executorLoads =
     sort_by (\<lambda>a b. cmp_le (mzero 0 executorLoads b) (mzero 0 executorLoads a)) (ord executors)"

definition computeBenefitOfMove :: "float64 \<Rightarrow> float64 \<Rightarrow> float64 \<Rightarrow> float64" where
  "computeBenefitOfMove sourceLoad destLoad shardLoad =
     (let squaredLoadBeforeMove = sourceLoad * sourceLoad + destLoad * destLoad;
          afterSourceLoad = sourceLoad - shardLoad;
          afterDestLoad = destLoad + shardLoad;
          squaredLoadAfterMove = afterSourceLoad * afterSourceLoad + afterDestLoad * afterDestLoad
      in squaredLoadBeforeMove - squaredLoadAfterMove)"

definition onCooldown :: "ShardStatistics \<Rightarrow> gotime \<Rightarrow> duration \<Rightarrow> bool" where
  "onCooldown stats now perShardCooldown =
     (0 < perShardCooldown \<and> \<not> IsZero (LastMoveTime stats)
      \<and> time_Sub now (LastMoveTime stats) < perShardCooldown)"

definition findBestShardForMove ::
    "assignments \<Rightarrow> (string, ShardStatistics) gomap \<Rightarrow> string \<Rightarrow> string \<Rightarrow> (string, float64) gomap
      \<Rightarrow> gostrset \<Rightarrow> gotime \<Rightarrow> duration \<Rightarrow> moveCandidate \<times> bool" where
  "findBestShardForMove currentAssignments shardStats source destination executorLoads movedShards
       now perShardCooldown =
     (let sourceLoad = mzero 0 executorLoads source;
          destLoad = mzero 0 executorLoads destination;
          (bestCandidate, bestBenefit) =
            fold (\<lambda>(i, shard) (bestCandidate, bestBenefit).
                    if shard \<in> set movedShards then (bestCandidate, bestBenefit)
                    else case mget shardStats shard of
                      None \<Rightarrow> (bestCandidate, bestBenefit)
                    | Some stats \<Rightarrow>
                        if \<not> hasSmoothedLoadUpdate stats then (bestCandidate, bestBenefit)
                        else if onCooldown stats now perShardCooldown then (bestCandidate, bestBenefit)
                        else let load = SmoothedLoad stats
                          in if load < minShardSmoothedLoadForMove then (bestCandidate, bestBenefit)
                             else let benefit = computeBenefitOfMove sourceLoad destLoad load
                               in if benefit \<le> 0 then (bestCandidate, bestBenefit)
                                  else if bestBenefit < benefit
                                  then (\<lparr>mc_shardID = shard, mc_smoothedLoad = load, mc_from = source,
                                         mc_to = destination, mc_assignmentIndex = i\<rparr>, benefit)
                                  else (bestCandidate, bestBenefit))
              (List.enumerate 0 (slice currentAssignments source)) (zero_moveCandidate, 0)
      in (bestCandidate, mc_shardID bestCandidate \<noteq> []))"

fun tryNextSource ::
    "string list \<Rightarrow> string \<Rightarrow> assignments \<Rightarrow> (string, ShardStatistics) gomap \<Rightarrow> (string, float64) gomap
      \<Rightarrow> gostrset \<Rightarrow> gotime \<Rightarrow> duration \<Rightarrow> moveCandidate \<times> bool" where
  "tryNextSource [] destinationExecutor workingAssignments shardStats loads movedShards now
     perShardCooldown = (zero_moveCandidate, False)"
| "tryNextSource (sourceExecutor # sourceExecutors) destinationExecutor workingAssignments shardStats
     loads movedShards now perShardCooldown =
     (if sourceExecutor = destinationExecutor
      then tryNextSource sourceExecutors destinationExecutor workingAssignments shardStats loads
             movedShards now perShardCooldown
      else let (candidate, found) = findBestShardForMove workingAssignments shardStats sourceExecutor
                 destinationExecutor loads movedShards now perShardCooldown
           in if \<not> found
              then tryNextSource sourceExecutors destinationExecutor workingAssignments shardStats loads
                     movedShards now perShardCooldown
              else (candidate, True))"

definition findNextMoveCandidate ::
    "order \<Rightarrow> string list \<Rightarrow> string \<Rightarrow> assignments \<Rightarrow> (string, ShardStatistics) gomap
      \<Rightarrow> (string, float64) gomap \<Rightarrow> gostrset \<Rightarrow> gotime \<Rightarrow> duration \<Rightarrow> moveCandidate \<times> bool" where
  "findNextMoveCandidate ord sourceExecutors destinationExecutor workingAssignments shardStats loads
       movedShards now perShardCooldown =
     tryNextSource (sortByDescendingLoad ord sourceExecutors loads) destinationExecutor
       workingAssignments shardStats loads movedShards now perShardCooldown"

text \<open>Indices are natural numbers, so only the upper bound of the index check remains.\<close>

definition applyMoveCandidate :: "assignments \<Rightarrow> moveCandidate \<Rightarrow> assignments result" where
  "applyMoveCandidate currentAssignments candidate =
     (if length (slice currentAssignments (mc_from candidate)) \<le> mc_assignmentIndex candidate
      then Inl (ErrorString ''candidate assignment index out of range'')
      else if slice currentAssignments (mc_from candidate) ! mc_assignmentIndex candidate
              \<noteq> mc_shardID candidate
      then Inl (ErrorString ''candidate assignment index mismatch'')
      else let removed = mput (mc_from candidate)
                 (swap_remove (mc_assignmentIndex candidate)
                    (slice currentAssignments (mc_from candidate))) currentAssignments
           in Inr (mput (mc_to candidate) (slice removed (mc_to candidate) @ [mc_shardID candidate])
                     removed))"

definition updateExecutorLoadsAfterMove ::
    "string \<Rightarrow> string \<Rightarrow> (string, float64) gomap \<Rightarrow> float64 \<Rightarrow> (string, float64) gomap" where
  "updateExecutorLoadsAfterMove source destination executorLoads shardLoad =
     (let executorLoads = mput source (mzero 0 executorLoads source - shardLoad) executorLoads
      in mput destination (mzero 0 executorLoads destination + shardLoad) executorLoads)"

text \<open>The variables the rebalance loop updates.\<close>

record greedy_state =
  gs_working :: assignments
  gs_loads :: "(string, float64) gomap"
  gs_moved :: gostrset

definition planAndApplyNextMove ::
    "(nat \<Rightarrow> order) \<Rightarrow> LoadBalancingGreedyConfig \<Rightarrow> NamespaceState \<Rightarrow> float64 \<Rightarrow> gotime \<Rightarrow> greedy_state
      \<Rightarrow> (moveCandidate \<times> greedy_state) option result" where
  "planAndApplyNextMove \<pi> cfg namespaceState meanLoad now g =
     (let (sourceExecutors, destinationExecutors) =
        classifySourcesAndDestinations (\<pi> 0) (gs_loads g) namespaceState meanLoad
          (HysteresisUpperBand cfg) (HysteresisLowerBand cfg)
      in if sourceExecutors = [] then Inr None
         else let (destinationExecutor, ok) =
                selectDestinationExecutor (\<pi> 1) destinationExecutors (gs_working g)
                  namespaceState (gs_loads g) meanLoad (SevereImbalanceRatio cfg)
           in if \<not> ok then Inr None
              else let (candidate, found) =
                     findNextMoveCandidate (\<pi> 2) sourceExecutors destinationExecutor
                       (gs_working g) (ShardStats namespaceState) (gs_loads g)
                       (gs_moved g) now (PerShardCooldown cfg)
                in if \<not> found then Inr None
                   else (case applyMoveCandidate (gs_working g) candidate of
                           Inl e \<Rightarrow> Inl e
                         | Inr working \<Rightarrow>
                             Inr (Some (candidate,
                               \<lparr>gs_working = working,
                                gs_loads = updateExecutorLoadsAfterMove (mc_from candidate)
                                  (mc_to candidate) (gs_loads g) (mc_smoothedLoad candidate),
                                gs_moved = List.insert (mc_shardID candidate) (gs_moved g)\<rparr>))))"

text \<open>The loop; the budget counts down, \<open>i\<close> counts the iterations up.\<close>

fun greedy_moves ::
    "(nat \<Rightarrow> nat \<Rightarrow> order) \<Rightarrow> LoadBalancingGreedyConfig \<Rightarrow> NamespaceState \<Rightarrow> float64 \<Rightarrow> gotime \<Rightarrow> nat
      \<Rightarrow> nat \<Rightarrow> greedy_state \<Rightarrow> Move list result" where
  "greedy_moves \<pi> cfg namespaceState meanLoad now i 0 g = Inr []"
| "greedy_moves \<pi> cfg namespaceState meanLoad now i (Suc moveBudget) g =
     (case planAndApplyNextMove (\<pi> i) cfg namespaceState meanLoad now g of
        Inl e \<Rightarrow> Inl e
      | Inr None \<Rightarrow> Inr []
      | Inr (Some (candidate, g')) \<Rightarrow>
          (case greedy_moves \<pi> cfg namespaceState meanLoad now (Suc i) moveBudget g' of
             Inl e \<Rightarrow> Inl e
           | Inr moves \<Rightarrow>
               Inr (\<lparr>mv_ShardID = mc_shardID candidate, mv_From = mc_from candidate,
                     mv_To = mc_to candidate\<rparr> # moves)))"

definition greedy_PlanRebalance ::
    "(nat \<Rightarrow> nat \<Rightarrow> order) \<Rightarrow> LoadBalancingGreedyConfig \<Rightarrow> gotime \<Rightarrow> NamespaceState \<Rightarrow> assignments
      \<Rightarrow> Move list result" where
  "greedy_PlanRebalance \<pi> cfg now namespaceState currentAssignments =
     (let working = cloneAssignments currentAssignments
      in case computeExecutorLoads working namespaceState of
           None \<Rightarrow> Inr []
         | Some (loads, meanLoad) \<Rightarrow>
             let totalShards = fold (\<lambda>(_, shards) total. total + length shards) currentAssignments 0;
                 moveBudget = computeMoveBudget totalShards (MoveBudgetProportion cfg)
             in if moveBudget \<le> 0 then Inr []
                else greedy_moves \<pi> cfg namespaceState meanLoad now 0 (nat moveBudget)
                       \<lparr>gs_working = working, gs_loads = loads, gs_moved = []\<rparr>)"

section \<open>Lemmas on placement\<close>

lemma activeExecutorAssignments_keys:
  assumes "wf_state st"
  shows "mkeys (activeExecutorAssignments st) = AssignableExecutorIDs st []"
    and "wf_map (activeExecutorAssignments st)"
proof -
  let ?f = "\<lambda>e. mkeys (AssignedShards (mzero zero_AssignedState (ShardAssignments st) e))"
  have "activeExecutorAssignments st = map (\<lambda>e. (e, ?f e)) (AssignableExecutorIDs st [])"
    using fold_mput_map [OF distinct_AssignableExecutorIDs [OF assms, of "[]"], of "[]" ?f]
    by (simp add: activeExecutorAssignments_def)
  then show "mkeys (activeExecutorAssignments st) = AssignableExecutorIDs st []"
    and "wf_map (activeExecutorAssignments st)"
    by (simp_all add: wf_map_def comp_def distinct_AssignableExecutorIDs [OF assms])
qed

lemma placement_executorLoads_keys:
  assumes "wf_state st"
  shows "mkeys (fst (placement_executorLoads st)) = AssignableExecutorIDs st []"
  unfolding placement_executorLoads_def Let_def fst_conv
  by (subst store_loop_map)
     (simp_all add: activeExecutorAssignments_keys [OF assms] case_prod_beta' comp_def)

lemma placement_executorLoads_Nil:
  "AssignableExecutorIDs st [] = [] \<Longrightarrow> fst (placement_executorLoads st) = []"
  by (simp add: placement_executorLoads_def Let_def activeExecutorAssignments_def)

lemma chooseLoads_ok:
  assumes "mkeys loads \<noteq> []"
  shows "\<exists>e l. chooseExecutorAndUpdateLoads avg loads = Inr (e, mput e l loads)
    \<and> e \<in> set (mkeys loads)"
proof -
  obtain e where e: "MinFunc (load_less loads) (mkeys loads) = Some e"
    using assms MinFunc_None [of "load_less loads" "mkeys loads"] by fastforce
  then show ?thesis
    using MinFunc_in [OF e] by (auto simp: chooseExecutorAndUpdateLoads_def Let_def)
qed

interpretation greedy_placement: placement_strategy greedy_PlanInitialPlacement
proof
  fix st :: NamespaceState and ss
  assume wf: "wf_state st" and ne: "AssignableExecutorIDs st [] \<noteq> []"
  let ?es = "AssignableExecutorIDs st []"
  let ?I = "\<lambda>loads :: (string, executorLoad) gomap. set (mkeys loads) = set ?es"
  obtain loads avg where l: "placement_executorLoads st = (loads, avg)" by force
  have "\<exists>ps. place_loop (chooseExecutorAndUpdateLoads avg) loads ss = Inr ps
      \<and> map pl_ShardID ps = ss \<and> set (map pl_ExecutorID ps) \<subseteq> set ?es"
  proof (rule place_loop_ok [where I = ?I])
    fix loads :: "(string, executorLoad) gomap" assume I: "?I loads"
    then have "mkeys loads \<noteq> []" using ne by auto
    from chooseLoads_ok [OF this, of avg] I
    show "\<exists>e st'. chooseExecutorAndUpdateLoads avg loads = Inr (e, st') \<and> e \<in> set ?es \<and> ?I st'"
      by (metis insert_absorb mkeys_mput)
  qed (use placement_executorLoads_keys [OF wf] l in simp)
  then show "\<exists>ps. greedy_PlanInitialPlacement st ss = Inr ps \<and> placed_on ?es ss ps"
    by (simp add: greedy_PlanInitialPlacement_def placed_on_def l)
next
  fix st :: NamespaceState and ss :: "string list"
  assume "AssignableExecutorIDs st [] = []" and "ss \<noteq> []"
  then show "greedy_PlanInitialPlacement st ss = Inl ErrNoActiveExecutors"
    using placement_executorLoads_Nil [of st]
    by (cases ss) (simp_all add: greedy_PlanInitialPlacement_def case_prod_beta
        chooseExecutorAndUpdateLoads_def)
next
  show "greedy_PlanInitialPlacement st [] = Inr []" for st
    by (simp add: greedy_PlanInitialPlacement_def case_prod_beta)
qed

section \<open>Lemmas on the choice of a move\<close>

lemma findBestDestination_in:
  "findBestDestination ds loads = (d, True) \<Longrightarrow> d \<in> set ds"
proof -
  let ?step = "\<lambda>executor (minExecutor, found, minLoad).
      let load = mzero 0 loads executor
      in if \<not> found \<or> load < minLoad then (executor, True, load) else (minExecutor, found, minLoad)"
  have "fold ?step ds (e, b, l) = (d, True, l') \<Longrightarrow> d \<in> set ds \<or> d = e \<and> b" for e b l l'
    by (induction ds arbitrary: e b l) (fastforce simp: Let_def split: if_splits)+
  then show "findBestDestination ds loads = (d, True) \<Longrightarrow> d \<in> set ds"
    by (auto simp: findBestDestination_def split: prod.splits)
qed

lemma classify_filter:
  "classifySourcesAndDestinations ord loads st mean u l =
     (map fst (filter (\<lambda>(e, x). mean * u < x) (mrange ord loads)),
      map fst (filter (\<lambda>(e, x). \<not> mean * u < x \<and> x < mean * l \<and> greedy_isAssignable st e)
        (mrange ord loads)))"
proof -
  have "fold (\<lambda>(executorID, load) (sources, destinations).
      if mean * u < load then (sources @ [executorID], destinations)
      else if load < mean * l \<and> greedy_isAssignable st executorID
      then (sources, destinations @ [executorID]) else (sources, destinations)) xs (s0, d0) =
      (s0 @ map fst (filter (\<lambda>(e, x). mean * u < x) xs),
       d0 @ map fst (filter (\<lambda>(e, x). \<not> mean * u < x \<and> x < mean * l \<and> greedy_isAssignable st e) xs))"
    for xs s0 d0
  proof (induction xs arbitrary: s0 d0)
    case (Cons p xs)
    then show ?case by (cases p) simp
  qed simp
  from this [of "mrange ord loads" "[]" "[]"] show ?thesis
    by (simp add: classifySourcesAndDestinations_def)
qed

lemma classify_sets:
  assumes "is_order ord" "wf_map loads"
    and "classifySourcesAndDestinations ord loads st mean u l = (srcs, dsts)"
  shows "set srcs = {e. \<exists>x. (e, x) \<in> set loads \<and> mean * u < x}"
    and "set dsts \<subseteq> {e. e \<in> set (mkeys loads) \<and> greedy_isAssignable st e}"
proof -
  have "srcs = map fst (filter (\<lambda>(e, x). mean * u < x) (mrange ord loads))"
    and "dsts = map fst (filter (\<lambda>(e, x). \<not> mean * u < x \<and> x < mean * l
        \<and> greedy_isAssignable st e) (mrange ord loads))"
    using assms(3) unfolding classify_filter by simp_all
  then show "set srcs = {e. \<exists>x. (e, x) \<in> set loads \<and> mean * u < x}"
    and "set dsts \<subseteq> {e. e \<in> set (mkeys loads) \<and> greedy_isAssignable st e}"
    by (force simp: set_mrange [OF assms(1,2)])+
qed

lemma selectDestination_in:
  assumes "is_order ord" "selectDestinationExecutor ord dsts w st loads mean r = (d, True)"
    and "set dsts \<subseteq> {e. e \<in> set (mkeys w) \<and> greedy_isAssignable st e}"
  shows "d \<in> set (mkeys w) \<and> greedy_isAssignable st d"
  using assms findBestDestination_in [of dsts loads d]
    findBestDestination_in [of "filter (greedy_isAssignable st) (ord (mkeys w))" loads d]
  by (auto simp: selectDestinationExecutor_def Let_def is_order_set [OF assms(1)] simp del: set_map
      split: if_splits)

text \<open>A shard a rebalance may move now.\<close>

definition movable :: "LoadBalancingGreedyConfig \<Rightarrow> NamespaceState \<Rightarrow> gotime \<Rightarrow> string \<Rightarrow> bool" where
  "movable cfg st now s = (\<exists>stats. mget (ShardStats st) s = Some stats \<and> hasSmoothedLoadUpdate stats
     \<and> \<not> onCooldown stats now (PerShardCooldown cfg)
     \<and> \<not> SmoothedLoad stats < minShardSmoothedLoadForMove)"

definition good_candidate ::
    "LoadBalancingGreedyConfig \<Rightarrow> NamespaceState \<Rightarrow> gotime \<Rightarrow> greedy_state \<Rightarrow> moveCandidate \<Rightarrow> bool" where
  "good_candidate cfg st now g c =
     (mc_assignmentIndex c < length (slice (gs_working g) (mc_from c))
      \<and> slice (gs_working g) (mc_from c) ! mc_assignmentIndex c = mc_shardID c
      \<and> mc_shardID c \<notin> set (gs_moved g) \<and> movable cfg st now (mc_shardID c)
      \<and> measuredShardLoad (mc_shardID c) (ShardStats st) = Some (mc_smoothedLoad c)
      \<and> 0 < computeBenefitOfMove (mzero 0 (gs_loads g) (mc_from c)) (mzero 0 (gs_loads g) (mc_to c))
             (mc_smoothedLoad c))"

lemma findBestShardForMove_good:
  assumes "findBestShardForMove (gs_working g) (ShardStats st) src dst (gs_loads g) (gs_moved g) now
      (PerShardCooldown cfg) = (c, True)"
  shows "good_candidate cfg st now g c \<and> mc_from c = src \<and> mc_to c = dst"
proof -
  let ?P = "\<lambda>c. good_candidate cfg st now g c \<and> mc_from c = src \<and> mc_to c = dst"
  let ?benefit = "computeBenefitOfMove (mzero 0 (gs_loads g) src) (mzero 0 (gs_loads g) dst)"
  define step where "step = (\<lambda>(i, shard) (bestCandidate, bestBenefit).
      if shard \<in> set (gs_moved g) then (bestCandidate, bestBenefit)
      else case mget (ShardStats st) shard of
        None \<Rightarrow> (bestCandidate, bestBenefit)
      | Some stats \<Rightarrow>
          if \<not> hasSmoothedLoadUpdate stats then (bestCandidate, bestBenefit)
          else if onCooldown stats now (PerShardCooldown cfg) then (bestCandidate, bestBenefit)
          else let load = SmoothedLoad stats
            in if load < minShardSmoothedLoadForMove then (bestCandidate, bestBenefit)
               else let benefit = ?benefit load
                 in if benefit \<le> 0 then (bestCandidate, bestBenefit)
                    else if bestBenefit < benefit
                    then (\<lparr>mc_shardID = shard, mc_smoothedLoad = load, mc_from = src,
                           mc_to = dst, mc_assignmentIndex = i\<rparr>, benefit)
                    else (bestCandidate, bestBenefit))"
  have "\<forall>(i, s) \<in> set xs. i < length (slice (gs_working g) src) \<and> slice (gs_working g) src ! i = s \<Longrightarrow>
      mc_shardID b = [] \<or> ?P b \<Longrightarrow> fold step xs (b, x) = (c, y) \<Longrightarrow> mc_shardID c = [] \<or> ?P c"
    for xs :: "(nat \<times> string) list" and b x y
  proof (induction xs arbitrary: b x)
    case (Cons p xs)
    obtain i s where p: "p = (i, s)" by force
    obtain b' x' where b': "step p (b, x) = (b', x')" by force
    have "b' = b \<or> ?P b'"
      using b' Cons.prems(1) float_less_pos
      by (auto simp: step_def p Let_def good_candidate_def movable_def measuredShardLoad_def
          split: if_splits option.splits)
    then have "mc_shardID b' = [] \<or> ?P b'" using Cons.prems(2) by blast
    moreover have "fold step xs (b', x') = (c, y)" using Cons.prems(3) b' by simp
    ultimately show ?case using Cons.IH [of b' x'] Cons.prems(1) by simp
  qed simp
  note run = this
  obtain y where y: "fold step (List.enumerate 0 (slice (gs_working g) src)) (zero_moveCandidate, 0) = (c, y)"
    and c: "mc_shardID c \<noteq> []"
    using assms unfolding findBestShardForMove_def Let_def step_def by (auto split: prod.splits)
  have "\<forall>(i, s) \<in> set (List.enumerate 0 (slice (gs_working g) src)).
      i < length (slice (gs_working g) src) \<and> slice (gs_working g) src ! i = s"
    by (auto simp: in_set_enumerate_eq)
  from run [OF this _ y] c show ?thesis by (simp add: zero_moveCandidate_def)
qed

lemma tryNextSource_good:
  assumes "tryNextSource srcs dst (gs_working g) (ShardStats st) (gs_loads g) (gs_moved g) now
      (PerShardCooldown cfg) = (c, True)"
  shows "good_candidate cfg st now g c \<and> mc_from c \<in> set srcs \<and> mc_from c \<noteq> dst \<and> mc_to c = dst"
  using assms
proof (induction srcs)
  case (Cons s srcs)
  then show ?case
    using findBestShardForMove_good [of g st s dst now cfg c]
    by (auto simp: Let_def split: if_splits prod.splits)
qed simp

section \<open>Lemmas on the loop\<close>

definition move_of :: "moveCandidate \<Rightarrow> Move" where
  "move_of c = \<lparr>mv_ShardID = mc_shardID c, mv_From = mc_from c, mv_To = mc_to c\<rparr>"

definition greedy_inv :: "greedy_state \<Rightarrow> bool" where
  "greedy_inv g = (wf_map (gs_working g) \<and> disjoint_slices (gs_working g) \<and> wf_map (gs_loads g)
     \<and> set (mkeys (gs_loads g)) = set (mkeys (gs_working g)))"

lemma distinct_slice:
  assumes "wf_map m" "disjoint_slices m"
  shows "distinct (slice m k)"
proof -
  have "count (mset (slice m k)) x \<le> count (all_shards m) x" for x
    using slice_subset_all_shards [OF assms(1), of k] by (simp add: mset_subset_eq_count)
  then have "disjoint_slices [(k, slice m k)]"
    using assms(2) unfolding disjoint_slices_count
    by (metis add.right_neutral all_shards_Cons all_shards_Nil le_trans)
  then show ?thesis by (simp add: disjoint_slices_def)
qed

text \<open>With distinct slices the candidate's index is the one \<open>slices.Index\<close> finds.\<close>

lemma applyMoveCandidate_applyMove:
  assumes "greedy_inv g" "good_candidate cfg st now g c"
  shows "applyMoveCandidate (gs_working g) c = applyMove (gs_working g) (move_of c)"
    and "\<exists>w. applyMove (gs_working g) (move_of c) = Inr w"
proof -
  have i: "mc_assignmentIndex c < length (slice (gs_working g) (mc_from c))"
    and s: "slice (gs_working g) (mc_from c) ! mc_assignmentIndex c = mc_shardID c"
    using assms(2) by (simp_all add: good_candidate_def)
  have "distinct (slice (gs_working g) (mc_from c))"
    using assms(1) by (simp add: greedy_inv_def distinct_slice)
  from slices_Index_nth [OF this i] show "applyMoveCandidate (gs_working g) c = applyMove (gs_working g) (move_of c)"
    using i s by (simp add: applyMoveCandidate_def applyMove_def move_of_def)
  show "\<exists>w. applyMove (gs_working g) (move_of c) = Inr w"
    using i s applyMove_Inr [of "move_of c" "gs_working g"] nth_mem [OF i] by (simp add: move_of_def)
qed

lemma planAndApplyNextMove_ok:
  assumes inv: "greedy_inv g" and ord: "\<And>j. is_order (\<pi> j)"
  obtains (stop) "planAndApplyNextMove \<pi> cfg st mean now g = Inr None"
  | (moved) c w where
      "planAndApplyNextMove \<pi> cfg st mean now g = Inr (Some (c, \<lparr>gs_working = w,
         gs_loads = updateExecutorLoadsAfterMove (mc_from c) (mc_to c) (gs_loads g) (mc_smoothedLoad c),
         gs_moved = List.insert (mc_shardID c) (gs_moved g)\<rparr>))"
      "applyMove (gs_working g) (move_of c) = Inr w" "good_candidate cfg st now g c"
      "mc_from c \<in> set (mkeys (gs_working g))" "mc_to c \<in> set (mkeys (gs_working g))"
      "mc_from c \<noteq> mc_to c" "greedy_isAssignable st (mc_to c)"
      "mean * HysteresisUpperBand cfg < mzero 0 (gs_loads g) (mc_from c)"
proof -
  obtain srcs dsts where cl: "classifySourcesAndDestinations (\<pi> 0) (gs_loads g) st mean
      (HysteresisUpperBand cfg) (HysteresisLowerBand cfg) = (srcs, dsts)" by force
  obtain d ok where sel: "selectDestinationExecutor (\<pi> 1) dsts (gs_working g) st (gs_loads g) mean
      (SevereImbalanceRatio cfg) = (d, ok)" by force
  obtain c found where f: "findNextMoveCandidate (\<pi> 2) srcs d (gs_working g) (ShardStats st)
      (gs_loads g) (gs_moved g) now (PerShardCooldown cfg) = (c, found)" by force
  have wf: "wf_map (gs_loads g)" and keys: "set (mkeys (gs_loads g)) = set (mkeys (gs_working g))"
    using inv by (auto simp: greedy_inv_def)
  note sets = classify_sets [OF ord wf cl]
  show thesis
  proof (cases "srcs = [] \<or> \<not> ok \<or> \<not> found")
    case True
    then show ?thesis using stop cl sel f by (auto simp: planAndApplyNextMove_def)
  next
    case False
    have "set (sortByDescendingLoad (\<pi> 2) srcs (gs_loads g)) = set srcs"
      by (simp add: sortByDescendingLoad_def is_order_set [OF ord])
    then have good: "good_candidate cfg st now g c" and src: "mc_from c \<in> set srcs"
      and ne: "mc_from c \<noteq> mc_to c" and to: "mc_to c = d"
      using tryNextSource_good [of _ d g st now cfg c] f False
      by (auto simp: findNextMoveCandidate_def)
    obtain w where w: "applyMove (gs_working g) (move_of c) = Inr w"
      and w': "applyMoveCandidate (gs_working g) c = Inr w"
      using applyMoveCandidate_applyMove [OF inv good] by metis
    have d: "d \<in> set (mkeys (gs_working g))" "greedy_isAssignable st d"
      using selectDestination_in [OF ord, of 1 dsts "gs_working g" st "gs_loads g" mean _ d]
        sel False sets(2) keys by auto
    obtain x where x: "(mc_from c, x) \<in> set (gs_loads g)" "mean * HysteresisUpperBand cfg < x"
      using src sets(1) by auto
    then have "mzero 0 (gs_loads g) (mc_from c) = x" by (simp add: mzero_def mget_eq_iff [OF wf, THEN iffD2])
    moreover have "mc_from c \<in> set (mkeys (gs_working g))"
      using x(1) keys by (metis fst_conv image_eqI list.set_map)
    moreover have "planAndApplyNextMove \<pi> cfg st mean now g = Inr (Some (c, \<lparr>gs_working = w,
         gs_loads = updateExecutorLoadsAfterMove (mc_from c) (mc_to c) (gs_loads g) (mc_smoothedLoad c),
         gs_moved = List.insert (mc_shardID c) (gs_moved g)\<rparr>))"
      using cl sel f False w' by (simp add: planAndApplyNextMove_def)
    ultimately show ?thesis using moved w good d ne x(2) to by auto
  qed
qed

lemma greedy_inv_step:
  assumes "greedy_inv g" "applyMove (gs_working g) (move_of c) = Inr w"
    and "mc_from c \<in> set (mkeys (gs_working g))" "mc_to c \<in> set (mkeys (gs_working g))"
  shows "greedy_inv \<lparr>gs_working = w,
      gs_loads = updateExecutorLoadsAfterMove (mc_from c) (mc_to c) (gs_loads g) l, gs_moved = ms\<rparr>"
    and "mkeys w = mkeys (gs_working g)"
proof -
  have wf: "wf_map (gs_working g)" using assms(1) by (simp add: greedy_inv_def)
  show k: "mkeys w = mkeys (gs_working g)"
    using applyMove_keys [OF assms(2)] assms(3,4) by (simp add: move_of_def)
  have "all_shards w = all_shards (gs_working g)" using applyMove_all_shards [OF assms(2) wf] .
  then have "disjoint_slices w" using assms(1) by (simp add: greedy_inv_def disjoint_slices_count)
  moreover have "wf_map w" using applyMove_wf [OF assms(2) wf] .
  ultimately show "greedy_inv \<lparr>gs_working = w,
      gs_loads = updateExecutorLoadsAfterMove (mc_from c) (mc_to c) (gs_loads g) l, gs_moved = ms\<rparr>"
    using assms(1,3,4) k
    by (auto simp: greedy_inv_def updateExecutorLoadsAfterMove_def Let_def mkeys_mput simp del: set_map)
qed

text \<open>What holds of every planned move.\<close>

definition valid_move ::
    "LoadBalancingGreedyConfig \<Rightarrow> NamespaceState \<Rightarrow> gotime \<Rightarrow> string set \<Rightarrow> Move \<Rightarrow> bool" where
  "valid_move cfg st now executors m =
     (mv_From m \<in> executors \<and> mv_To m \<in> executors \<and> mv_From m \<noteq> mv_To m
      \<and> greedy_isAssignable st (mv_To m) \<and> movable cfg st now (mv_ShardID m))"

lemma greedy_moves_ok:
  assumes ord: "\<And>i j. is_order (\<pi> i j)"
  shows "greedy_inv g \<Longrightarrow> \<exists>ms w. greedy_moves \<pi> cfg st mean now i n g = Inr ms \<and> length ms \<le> n
    \<and> applyMoves (gs_working g) ms = Inr w \<and> distinct (map mv_ShardID ms)
    \<and> set (map mv_ShardID ms) \<inter> set (gs_moved g) = {}
    \<and> (\<forall>m \<in> set ms. valid_move cfg st now (set (mkeys (gs_working g))) m)"
proof (induction n arbitrary: g i)
  case (Suc n)
  from planAndApplyNextMove_ok [where cfg = cfg and st = st and mean = mean and now = now,
      OF Suc.prems, of "\<pi> i", OF ord]
  show ?case
  proof cases
    case (2 c w)
    note moved = this
    define g' where "g' = \<lparr>gs_working = w,
         gs_loads = updateExecutorLoadsAfterMove (mc_from c) (mc_to c) (gs_loads g) (mc_smoothedLoad c),
         gs_moved = List.insert (mc_shardID c) (gs_moved g)\<rparr>"
    have "greedy_inv g'" and k: "mkeys w = mkeys (gs_working g)"
      using greedy_inv_step [OF Suc.prems moved(2,4,5)] by (simp_all add: g'_def)
    then obtain ms w' where ms: "greedy_moves \<pi> cfg st mean now (Suc i) n g' = Inr ms" "length ms \<le> n"
      "applyMoves w ms = Inr w'" "distinct (map mv_ShardID ms)"
      "set (map mv_ShardID ms) \<inter> set (gs_moved g') = {}"
      "\<forall>m \<in> set ms. valid_move cfg st now (set (mkeys w)) m"
      using Suc.IH [of g' "Suc i"] by (auto simp: g'_def)
    have "valid_move cfg st now (set (mkeys (gs_working g))) (move_of c)"
      using moved(3-7) by (simp add: valid_move_def move_of_def good_candidate_def)
    moreover have "mc_shardID c \<notin> set (gs_moved g)" using moved(3) by (simp add: good_candidate_def)
    ultimately have "greedy_moves \<pi> cfg st mean now i (Suc n) g = Inr (move_of c # ms)
        \<and> length (move_of c # ms) \<le> Suc n
        \<and> applyMoves (gs_working g) (move_of c # ms) = Inr w'
        \<and> distinct (map mv_ShardID (move_of c # ms))
        \<and> set (map mv_ShardID (move_of c # ms)) \<inter> set (gs_moved g) = {}
        \<and> (\<forall>m \<in> set (move_of c # ms). valid_move cfg st now (set (mkeys (gs_working g))) m)"
      using moved(1,2) ms k by (auto simp: g'_def [symmetric] move_of_def) (auto simp: g'_def)
    then show ?thesis by blast
  qed simp
qed simp

section \<open>Lemmas on executor loads\<close>

abbreviation effective_load :: "NamespaceState \<Rightarrow> assignments \<Rightarrow> string \<Rightarrow> float64" where
  "effective_load st cur s \<equiv>
     effectiveShardLoad s (ShardStats st) (averageMeasuredShardLoad cur (ShardStats st))"

lemma cloneAssignments_id: "wf_map cur \<Longrightarrow> cloneAssignments cur = cur"
  by (simp add: cloneAssignments_def store_loop_map case_prod_beta')

lemma computeExecutorLoads_map:
  assumes "wf_map cur" "cur \<noteq> []"
  shows "\<exists>mean. computeExecutorLoads cur st =
    Some (map (\<lambda>(e, ss). (e, sum_list (map (effective_load st cur) ss))) cur, mean)"
proof -
  let ?f = "effective_load st cur"
  have inner: "fold (\<lambda>s (loads, total). let load = ?f s
        in (mput e (mzero 0 loads e + load) loads, total + load)) ss (loads @ [(e, x)], total) =
      (loads @ [(e, x + sum_list (map ?f ss))], total + sum_list (map ?f ss))"
    if "e \<notin> set (mkeys loads)" for e loads ss x total
    using that
  proof (induction ss arbitrary: x total)
    case (Cons s ss)
    have "mzero 0 (loads @ [(e, x)]) e = x"
      using Cons.prems by (simp add: mzero_def map_add_def map_of_eq_None_iff [THEN iffD2] split: option.splits)
    moreover have "mput e y (loads @ [(e, x)]) = loads @ [(e, y)]" for y
      using Cons.prems by (induction loads) auto
    ultimately show ?case using Cons by (simp add: Let_def add.assoc)
  qed simp
  have "wf_map xs \<Longrightarrow> set (mkeys xs) \<inter> set (mkeys loads) = {} \<Longrightarrow> \<exists>total'.
      fold (\<lambda>(e, shards) (loads, total). fold (\<lambda>s (loads, total). let load = ?f s
        in (mput e (mzero 0 loads e + load) loads, total + load)) shards (mput e 0 loads, total))
      xs (loads, total) = (loads @ map (\<lambda>(e, ss). (e, sum_list (map ?f ss))) xs, total')"
    for xs :: assignments and loads total
  proof (induction xs arbitrary: loads total)
    case (Cons p xs)
    obtain e ss where p: "p = (e, ss)" by force
    have "e \<notin> set (mkeys loads)" using Cons.prems(2) p by auto
    then show ?case
      using Cons.prems Cons.IH [of "loads @ [(e, sum_list (map ?f ss))]" "total + sum_list (map ?f ss)"]
      by (simp add: p mput_notin inner)
  qed simp
  from this [OF assms(1), of "[]" 0] show ?thesis
    using assms(2) by (auto simp: computeExecutorLoads_def Let_def)
qed

text \<open>
  Finite statistics: the smoothed loads are finite numbers. Then so are the average and the
  effective loads.
\<close>

definition finite_stats :: "NamespaceState \<Rightarrow> bool" where
  "finite_stats st = list_all (\<lambda>(_, s). is_fin (SmoothedLoad s)) (ShardStats st)"

lemma measured_finite: "finite_stats st \<Longrightarrow> measuredShardLoad s (ShardStats st) = Some l \<Longrightarrow> is_fin l"
  by (auto simp: measuredShardLoad_def finite_stats_def list_all_iff split: option.splits if_splits
      dest!: map_of_SomeD)

lemma average_finite:
  assumes "finite_stats st"
  shows "is_fin (averageMeasuredShardLoad cur (ShardStats st))"
proof -
  let ?step = "\<lambda>shardID (sum, count).
      (case measuredShardLoad shardID (ShardStats st) of None \<Rightarrow> (sum, count)
       | Some smoothedLoad \<Rightarrow> (sum + smoothedLoad, count + 1))"
  have inner: "is_fin (fst a) \<Longrightarrow> is_fin (fst (fold ?step ss a))" for ss and a :: "float64 \<times> nat"
  proof (induction ss arbitrary: a)
    case (Cons s ss)
    have "is_fin (fst (?step s a))"
      using Cons.prems measured_finite [OF assms, of s]
      by (auto simp: case_prod_beta is_fin_add split: option.splits)
    then show ?case using Cons.IH by simp
  qed simp
  have "is_fin (fst a) \<Longrightarrow> is_fin (fst (fold (\<lambda>(_, shards). fold ?step shards) xs a))"
    for xs :: assignments and a :: "float64 \<times> nat"
  proof (induction xs arbitrary: a)
    case (Cons p xs)
    then show ?case using inner [of a "snd p"] by (cases p) simp
  qed simp
  then have "is_fin (fst (fold (\<lambda>(_, shards). fold ?step shards) cur (0, 0 :: nat)))" by simp
  then show ?thesis
    by (auto simp: averageMeasuredShardLoad_def float_of_nat_def Let_def split: prod.splits
        elim!: is_finE)
qed

lemma effective_finite: "finite_stats st \<Longrightarrow> is_fin (effectiveShardLoad s (ShardStats st)
    (averageMeasuredShardLoad cur (ShardStats st)))"
  using measured_finite [of st s] average_finite [of st cur]
  by (auto simp: effectiveShardLoad_def split: option.splits)

definition executor_load :: "(string \<Rightarrow> float64) \<Rightarrow> string list \<Rightarrow> real" where
  "executor_load f ss = sum_list (map (\<lambda>s. the_fin (f s)) ss)"

lemma sum_list_Fin: "(\<And>s. is_fin (f s)) \<Longrightarrow> sum_list (map f ss) = Fin (executor_load f ss)"
proof (induction ss)
  case (Cons s ss)
  obtain r where "f s = Fin r" using Cons.prems by (metis is_finE)
  with Cons show ?case by (simp add: executor_load_def)
qed (simp add: executor_load_def)

section \<open>Lemmas on the sum of squared loads\<close>

definition sum_squares :: "(string \<Rightarrow> float64) \<Rightarrow> assignments \<Rightarrow> real" where
  "sum_squares f w = (\<Sum>e \<in> set (mkeys w). (executor_load f (slice w e))\<^sup>2)"

lemma executor_load_mset: "mset ss = mset ts \<Longrightarrow> executor_load f ss = executor_load f ts"
  by (metis executor_load_def mset_map sum_mset_sum_list)

lemma executor_load_remove:
  assumes "mset ss = mset ts - {#s#}" "s \<in> set ts"
  shows "executor_load f ss = executor_load f ts - the_fin (f s)"
proof -
  have "mset ts = mset (s # ss)" using assms by simp
  from executor_load_mset [OF this, of f] show ?thesis by (simp add: executor_load_def)
qed

lemma sum_squares_move:
  assumes "wf_map w" "applyMove w m = Inr w'" "mv_From m \<noteq> mv_To m"
    and "mv_From m \<in> set (mkeys w)" "mv_To m \<in> set (mkeys w)"
    and F: "F = executor_load f (slice w (mv_From m))" and T: "T = executor_load f (slice w (mv_To m))"
    and x: "x = the_fin (f (mv_ShardID m))"
  shows "sum_squares f w' = sum_squares f w - (F\<^sup>2 + T\<^sup>2 - ((F - x)\<^sup>2 + (T + x)\<^sup>2))"
proof -
  let ?K = "set (mkeys w)" and ?f = "mv_From m" and ?t = "mv_To m"
  let ?sq = "\<lambda>w e. (executor_load f (slice w e))\<^sup>2"
  have k: "set (mkeys w') = ?K" using applyMove_keys [OF assms(2,4,5)] by simp
  have split: "(\<Sum>e \<in> ?K. h e) = h ?f + (h ?t + (\<Sum>e \<in> ?K - {?f} - {?t}. h e))" for h :: "string \<Rightarrow> real"
    using assms(3-5) by (simp add: sum.remove [of ?K ?f] sum.remove [of "?K - {?f}" ?t] del: set_map)
  have s: "mv_ShardID m \<in> set (slice w ?f)"
    using assms(2) slices_Index_None [of "slice w ?f" "mv_ShardID m"]
    by (auto simp: applyMove_def split: option.splits)
  have f': "executor_load f (slice w' ?f) = F - x"
    unfolding F x by (rule executor_load_remove [OF applyMove_slice(1) [OF assms(2,3)] s])
  have t': "executor_load f (slice w' ?t) = T + x"
    by (simp add: T x applyMove_slice(2) [OF assms(2,3)] executor_load_def)
  have rest: "(\<Sum>e \<in> ?K - {?f} - {?t}. ?sq w' e) = (\<Sum>e \<in> ?K - {?f} - {?t}. ?sq w e)"
    by (rule sum.cong) (auto simp: applyMove_slice(3) [OF assms(2,3)])
  show ?thesis
    unfolding sum_squares_def k split [of "?sq w'"] split [of "?sq w"] rest f' t' F T by simp
qed

definition loads_track :: "(string \<Rightarrow> float64) \<Rightarrow> greedy_state \<Rightarrow> bool" where
  "loads_track f g = (\<forall>e \<in> set (mkeys (gs_working g)).
     mzero 0 (gs_loads g) e = Fin (executor_load f (slice (gs_working g) e)))"

lemma benefit_Fin:
  "0 < computeBenefitOfMove (Fin F) (Fin T) (Fin x) \<longleftrightarrow> (F - x)\<^sup>2 + (T + x)\<^sup>2 < F\<^sup>2 + T\<^sup>2"
  by (simp add: computeBenefitOfMove_def Let_def power2_eq_square)

lemma greedy_step_decreases:
  assumes inv: "greedy_inv g" and tr: "loads_track f g"
    and meas: "f (mc_shardID c) = mc_smoothedLoad c" and fin: "is_fin (mc_smoothedLoad c)"
    and w: "applyMove (gs_working g) (move_of c) = Inr w"
    and good: "good_candidate cfg st now g c"
    and k: "mc_from c \<in> set (mkeys (gs_working g))" "mc_to c \<in> set (mkeys (gs_working g))"
      "mc_from c \<noteq> mc_to c"
  shows "sum_squares f w < sum_squares f (gs_working g)"
    and "loads_track f \<lparr>gs_working = w,
      gs_loads = updateExecutorLoadsAfterMove (mc_from c) (mc_to c) (gs_loads g) (mc_smoothedLoad c),
      gs_moved = ms\<rparr>"
proof -
  define F where "F = executor_load f (slice (gs_working g) (mc_from c))"
  define T where "T = executor_load f (slice (gs_working g) (mc_to c))"
  obtain x where x: "mc_smoothedLoad c = Fin x" using fin by (rule is_finE)
  have loads: "mzero 0 (gs_loads g) (mc_from c) = Fin F" "mzero 0 (gs_loads g) (mc_to c) = Fin T"
    using tr k(1,2) by (auto simp: loads_track_def F_def T_def simp del: set_map)
  have wf: "wf_map (gs_working g)" using inv by (simp add: greedy_inv_def)
  have "(F - x)\<^sup>2 + (T + x)\<^sup>2 < F\<^sup>2 + T\<^sup>2"
    using good by (simp add: good_candidate_def loads x benefit_Fin)
  moreover have "sum_squares f w = sum_squares f (gs_working g) - (F\<^sup>2 + T\<^sup>2 - ((F - x)\<^sup>2 + (T + x)\<^sup>2))"
    by (rule sum_squares_move [OF wf w]) (use k meas x in \<open>simp_all add: move_of_def F_def T_def del: set_map\<close>)
  ultimately show "sum_squares f w < sum_squares f (gs_working g)" by simp
  have ne: "mv_From (move_of c) \<noteq> mv_To (move_of c)" using k(3) by (simp add: move_of_def)
  note sl = applyMove_slice [OF w ne, unfolded move_of_def Move.simps]
  have s: "mc_shardID c \<in> set (slice (gs_working g) (mc_from c))"
    using good by (metis good_candidate_def nth_mem)
  have keys: "set (mkeys w) = set (mkeys (gs_working g))"
    using applyMove_keys [OF w] k by (simp add: move_of_def)
  have "executor_load f (slice w (mc_from c)) = F - x"
    using executor_load_remove [OF sl(1) s, of f] by (simp add: F_def meas x)
  moreover have "executor_load f (slice w (mc_to c)) = T + x"
    using meas x by (simp add: sl(2) T_def executor_load_def)
  ultimately show "loads_track f \<lparr>gs_working = w,
      gs_loads = updateExecutorLoadsAfterMove (mc_from c) (mc_to c) (gs_loads g) (mc_smoothedLoad c),
      gs_moved = ms\<rparr>"
    using tr k(3) loads
    by (auto simp: loads_track_def updateExecutorLoadsAfterMove_def Let_def gomap_simps keys x sl(3)
        simp del: set_map)
qed

lemma greedy_moves_decrease:
  assumes ord: "\<And>i j. is_order (\<pi> i j)" and fs: "finite_stats st"
    and meas: "\<And>s l. measuredShardLoad s (ShardStats st) = Some l \<Longrightarrow> f s = l"
  shows "greedy_inv g \<Longrightarrow> loads_track f g \<Longrightarrow> greedy_moves \<pi> cfg st mean now i n g = Inr (xs @ m # ys) \<Longrightarrow>
    applyMoves (gs_working g) xs = Inr w\<^sub>1 \<Longrightarrow> applyMove w\<^sub>1 m = Inr w\<^sub>2 \<Longrightarrow>
    sum_squares f w\<^sub>2 < sum_squares f w\<^sub>1"
proof (induction n arbitrary: g i xs)
  case (Suc n)
  from planAndApplyNextMove_ok [where cfg = cfg and st = st and mean = mean and now = now,
      OF Suc.prems(1), of "\<pi> i", OF ord]
  show ?case
  proof cases
    case (2 c w)
    define g' where "g' = \<lparr>gs_working = w,
         gs_loads = updateExecutorLoadsAfterMove (mc_from c) (mc_to c) (gs_loads g) (mc_smoothedLoad c),
         gs_moved = List.insert (mc_shardID c) (gs_moved g)\<rparr>"
    obtain ms where ms: "greedy_moves \<pi> cfg st mean now (Suc i) n g' = Inr ms"
      "xs @ m # ys = move_of c # ms"
      using Suc.prems(3) 2(1) by (auto simp: g'_def move_of_def split: sum.splits)
    have m: "measuredShardLoad (mc_shardID c) (ShardStats st) = Some (mc_smoothedLoad c)"
      using 2(3) by (simp add: good_candidate_def)
    note step = greedy_step_decreases [OF Suc.prems(1,2) meas [OF m] measured_finite [OF fs m]
        2(2,3,4,5,6)]
    have inv: "greedy_inv g'" and tr: "loads_track f g'"
      using greedy_inv_step [OF Suc.prems(1) 2(2,4,5)] step(2) by (simp_all add: g'_def)
    show ?thesis
    proof (cases xs)
      case Nil
      then show ?thesis using step(1) ms(2) Suc.prems(4,5) 2(2) by auto
    next
      case (Cons x xs')
      then have "x = move_of c" "ms = xs' @ m # ys" using ms(2) by simp_all
      then show ?thesis
        using Suc.IH [OF inv tr, of "Suc i" xs'] Suc.prems(4,5) 2(2) Cons ms(1) by (simp add: g'_def)
    qed
  next
    case 1
    then show ?thesis using Suc.prems(3) by simp
  qed
qed simp

lemma total_shards: "fold (\<lambda>(_, shards) total. total + length shards) cur 0 = size (all_shards cur)"
proof -
  have "fold (\<lambda>(_, shards) total. total + length shards) cur n = n + size (all_shards cur)" for n
    by (induction cur arbitrary: n) (auto simp: all_shards_def)
  then show ?thesis by simp
qed

text \<open>The loop's start satisfies its invariant.\<close>

lemma greedy_start:
  assumes "wf_map cur" "disjoint_slices cur" "computeExecutorLoads cur st = Some (loads, mean)"
  shows "greedy_inv \<lparr>gs_working = cur, gs_loads = loads, gs_moved = []\<rparr>"
    and "finite_stats st \<Longrightarrow>
      loads_track (effective_load st cur) \<lparr>gs_working = cur, gs_loads = loads, gs_moved = []\<rparr>"
proof -
  let ?f = "effective_load st cur"
  have "cur \<noteq> []" using assms(3) by (auto simp: computeExecutorLoads_def)
  then have loads: "loads = map (\<lambda>(e, ss). (e, sum_list (map ?f ss))) cur"
    using computeExecutorLoads_map [OF assms(1), of st] assms(3) by auto
  then have k: "mkeys loads = mkeys cur" by (simp add: case_prod_beta' comp_def)
  then show "greedy_inv \<lparr>gs_working = cur, gs_loads = loads, gs_moved = []\<rparr>"
    using assms(1,2) by (simp add: greedy_inv_def wf_map_def k del: set_map)
  assume fs: "finite_stats st"
  have "mzero 0 loads e = Fin (executor_load ?f (slice cur e))" if "e \<in> set (mkeys cur)" for e
  proof -
    obtain ss where ss: "mget cur e = Some ss" using \<open>e \<in> set (mkeys cur)\<close> mhas_mkeys [of cur e] by (auto simp: mhas_def)
    then have "mget loads e = Some (sum_list (map ?f ss))"
      by (simp add: loads map_of_map)
    then show ?thesis using ss sum_list_Fin [of ?f ss] effective_finite [OF fs] by (simp add: mzero_def)
  qed
  then show "loads_track ?f \<lparr>gs_working = cur, gs_loads = loads, gs_moved = []\<rparr>"
    by (simp add: loads_track_def del: set_map)
qed

lemma greedy_PlanRebalance_cases:
  assumes "wf_map cur"
  obtains (none) "greedy_PlanRebalance \<pi> cfg now st cur = Inr []"
  | (loop) loads mean where "computeExecutorLoads cur st = Some (loads, mean)"
      "greedy_PlanRebalance \<pi> cfg now st cur = greedy_moves \<pi> cfg st mean now 0
         (nat (computeMoveBudget (size (all_shards cur)) (MoveBudgetProportion cfg)))
         \<lparr>gs_working = cur, gs_loads = loads, gs_moved = []\<rparr>"
  by (cases "computeExecutorLoads cur st";
      cases "computeMoveBudget (size (all_shards cur)) (MoveBudgetProportion cfg) \<le> 0")
     (auto simp: greedy_PlanRebalance_def cloneAssignments_id [OF assms] total_shards Let_def
       split: prod.splits)

lemma greedy_plan_ok:
  assumes "\<forall>i j. is_order (\<pi> i j)" and "wf_map cur" and "disjoint_slices cur"
  shows "\<exists>ms w. greedy_PlanRebalance \<pi> cfg now st cur = Inr ms \<and> applyMoves cur ms = Inr w
    \<and> length ms \<le> nat (computeMoveBudget (size (all_shards cur)) (MoveBudgetProportion cfg))
    \<and> distinct (map mv_ShardID ms) \<and> (\<forall>m \<in> set ms. valid_move cfg st now (set (mkeys cur)) m)"
proof (cases rule: greedy_PlanRebalance_cases [OF assms(2), of \<pi> cfg now st])
  case (2 loads mean)
  have "is_order (\<pi> i j)" for i j using assms(1) by simp
  from greedy_moves_ok [of \<pi>, OF this greedy_start(1) [OF assms(2,3) 2(1)],
        of cfg st mean now 0 "nat (computeMoveBudget (size (all_shards cur)) (MoveBudgetProportion cfg))"]
  show ?thesis unfolding 2(2) by auto
qed simp

interpretation greedy_rebalance: rebalance_strategy "greedy_PlanRebalance \<pi> cfg now"
  "\<lambda>_ _. \<forall>i j. is_order (\<pi> i j)" for \<pi> cfg now
proof
  fix cur :: assignments and st
  assume "wf_map cur" "disjoint_slices cur" "\<forall>i j. is_order (\<pi> i j)"
  note ok = greedy_plan_ok [OF this(3,1,2), of cfg now st]
  then show "\<exists>ms cur'. greedy_PlanRebalance \<pi> cfg now st cur = Inr ms \<and> applyMoves cur ms = Inr cur'"
    by blast
  show "mv_From m \<in> set (mkeys cur) \<and> mv_To m \<in> set (mkeys cur)"
    if "greedy_PlanRebalance \<pi> cfg now st cur = Inr ms" and "m \<in> set ms" for ms m
    using ok that by (auto simp: valid_move_def simp del: set_map)
qed

section \<open>Properties\<close>

text \<open>
  C17. A greedy rebalance always yields a plan, whatever the statistics hold. The plan has at
  most as many moves as the budget allows, moves no shard twice, and can be applied move by
  move; every move takes a measured shard that is not on cooldown from one of the given
  executors to another, assignable one.
\<close>
theorem greedy_rebalance_plan:
  assumes "\<forall>i j. is_order (\<pi> i j)" and "wf_map cur" and "disjoint_slices cur"
  shows "\<exists>ms w. greedy_PlanRebalance \<pi> cfg now st cur = Inr ms \<and> applyMoves cur ms = Inr w
    \<and> length ms \<le> nat (computeMoveBudget (size (all_shards cur)) (MoveBudgetProportion cfg))
    \<and> distinct (map mv_ShardID ms) \<and> (\<forall>m \<in> set ms. valid_move cfg st now (set (mkeys cur)) m)"
  using assms by (rule greedy_plan_ok)

text \<open>
  An example: \<open>a\<close> holds two measured shards, \<open>b\<close> holds none, and the bands are tight enough
  for one move.
\<close>

definition example_config :: LoadBalancingGreedyConfig where
  "example_config =
     \<lparr>PerShardCooldown = 60, LoadSmoothingTimeConstant = None, MoveBudgetProportion = Fin (1 / 2),
      HysteresisUpperBand = Fin (11 / 10), HysteresisLowerBand = Fin (9 / 10),
      SevereImbalanceRatio = Fin 2\<rparr>"

definition example_heartbeat :: HeartbeatState where
  "example_heartbeat =
     \<lparr>LastHeartbeat = 10, hb_Status = ExecutorStatusACTIVE, ReportedShards = [], hb_Metadata = [],
      hb_HostMetadata = None\<rparr>"

definition example_state :: NamespaceState where
  "example_state =
     \<lparr>ExecutorMetadata = [], ShardAssignments = [], DrainedShards = [], Revision = 9,
      AssignmentRevision = 9, Executors = [(''a'', example_heartbeat), (''b'', example_heartbeat)],
      ShardStats = [(''s'', \<lparr>SmoothedLoad = Fin 4, LastUpdateTime = 1, LastMoveTime = 0\<rparr>),
                    (''t'', \<lparr>SmoothedLoad = Fin 3, LastUpdateTime = 1, LastMoveTime = 0\<rparr>)],
      DrainedHosts = []\<rparr>"

abbreviation example_assignments :: assignments where
  "example_assignments \<equiv> [(''a'', [''s'', ''t'']), (''b'', [])]"

abbreviation example_move :: Move where
  "example_move \<equiv> \<lparr>mv_ShardID = ''s'', mv_From = ''a'', mv_To = ''b''\<rparr>"

lemma example_plan:
  "greedy_PlanRebalance (\<lambda>_ _ xs. xs) example_config 100 example_state example_assignments =
     Inr [example_move]"
  by code_simp

lemma example_finite: "finite_stats example_state"
  by (simp add: finite_stats_def example_state_def)

theorem greedy_rebalance_plan_witness:
  "length [example_move] \<le>
     nat (computeMoveBudget (size (all_shards example_assignments)) (MoveBudgetProportion example_config))
   \<and> valid_move example_config example_state 100 {''a'', ''b''} example_move"
  using greedy_rebalance_plan [of "\<lambda>_ _ xs. xs" example_assignments example_config 100 example_state]
  by (simp add: example_plan disjoint_slices_def insert_commute)



text \<open>
  The greedy strategy leaves a balanced namespace alone: when no executor's load exceeds
  the upper hysteresis band around the mean, it plans no move.
\<close>
theorem greedy_rebalance_settled:
  assumes "is_order (\<pi> 0 0)" and "wf_map cur" and "computeExecutorLoads cur st = Some (loads, mean)"
    and "list_all (\<lambda>(_, load). \<not> mean * HysteresisUpperBand cfg < load) loads"
  shows "greedy_PlanRebalance \<pi> cfg now st cur = Inr []"
proof (cases rule: greedy_PlanRebalance_cases [OF assms(2), of \<pi> cfg now st])
  case (2 loads' mean')
  let ?n = "nat (computeMoveBudget (size (all_shards cur)) (MoveBudgetProportion cfg))"
  have eq: "loads' = loads" "mean' = mean" using 2(1) assms(3) by simp_all
  have "cur \<noteq> []" using assms(3) by (auto simp: computeExecutorLoads_def)
  then have "wf_map loads"
    using computeExecutorLoads_map [OF assms(2), of st] assms(2,3)
    by (auto simp: wf_map_def case_prod_beta' comp_def)
  then have "set (mrange (\<pi> 0 0) loads) = set loads" by (rule set_mrange [OF assms(1)])
  then have "fst (classifySourcesAndDestinations (\<pi> 0 0) loads st mean (HysteresisUpperBand cfg)
      (HysteresisLowerBand cfg)) = []"
    using assms(4) by (auto simp: classify_filter filter_empty_conv list_all_iff)
  then show ?thesis
    unfolding 2(2) eq by (cases ?n) (auto simp: planAndApplyNextMove_def split: prod.splits)
qed simp

theorem greedy_rebalance_settled_witness:
  "greedy_PlanRebalance (\<lambda>_ _ xs. xs) (example_config\<lparr>HysteresisUpperBand := Fin (6 / 5)\<rparr>) 100
     example_state [(''a'', [''s'']), (''b'', [''t''])] = Inr []"
proof (rule greedy_rebalance_settled)
  show "computeExecutorLoads [(''a'', [''s'']), (''b'', [''t''])] example_state =
      Some ([(''a'', Fin 4), (''b'', Fin 3)], Fin (7 / 2))"
    by code_simp
qed (simp_all add: example_config_def)

end
