(* ===== verification/LoadBalancer.thy ===== *)
theory LoadBalancer
  imports Naive Greedy
begin

text \<open>
  The dispatch of \<open>loadbalancer/loadbalancer.go\<close>: each entry point reads the namespace's load
  balancing mode and calls the strategy it names. Duplicates of a placement request are
  collapsed before any strategy sees them. \<open>imbalance_metrics.go\<close> contributes the two
  imbalance measures.
\<close>

section \<open>Operations\<close>

definition errUnsupportedMode :: err where
  "errUnsupportedMode = ErrorString ''unsupported load balancing mode''"

definition dedupeShardIDs :: "string list \<Rightarrow> string list" where
  "dedupeShardIDs shardIDs =
     snd (fold (\<lambda>shardID (seen, unique).
                  if shardID \<in> set seen then (seen, unique)
                  else (List.insert shardID seen, unique @ [shardID]))
            shardIDs ([], []))"

definition PlanInitialPlacement :: "Config \<Rightarrow> NamespaceState \<Rightarrow> string list \<Rightarrow> Placement list result" where
  "PlanInitialPlacement cfg state shardIDs =
     (let shardIDs = dedupeShardIDs shardIDs
      in case GetLoadBalancingMode cfg of
           LoadBalancingModeNAIVE \<Rightarrow> naive_PlanInitialPlacement state shardIDs
         | LoadBalancingModeGREEDY \<Rightarrow> greedy_PlanInitialPlacement state shardIDs
         | _ \<Rightarrow> Inl errUnsupportedMode)"

definition PlanRebalance ::
    "(nat \<Rightarrow> nat \<Rightarrow> order) \<Rightarrow> Config \<Rightarrow> gotime \<Rightarrow> NamespaceState \<Rightarrow> assignments \<Rightarrow> Move list result" where
  "PlanRebalance \<pi> cfg now state currentAssignments =
     (case GetLoadBalancingMode cfg of
        LoadBalancingModeNAIVE \<Rightarrow>
          naive_PlanRebalance (\<pi> 0 0) (\<pi> 0 1) (LoadBalancingNaive cfg) state currentAssignments
      | LoadBalancingModeGREEDY \<Rightarrow>
          greedy_PlanRebalance \<pi> (LoadBalancingGreedy cfg) now state currentAssignments
      | _ \<Rightarrow> Inl errUnsupportedMode)"

text \<open>
  The statistics and the flag that asks for a write; no statistics when there is nothing to
  prepare.
\<close>

definition lb_PrepareShardStatistics ::
    "Config \<Rightarrow> (string, ShardStatusReport) gomap \<Rightarrow> AssignedState option
      \<Rightarrow> (string, ShardStatistics) gomap \<Rightarrow> gotime \<Rightarrow> ((string, ShardStatistics) gomap \<times> bool) result" where
  "lb_PrepareShardStatistics cfg reportedShards assignedState previousStats now =
     (case GetLoadBalancingMode cfg of
        LoadBalancingModeGREEDY \<Rightarrow>
          (case assignedState of
             None \<Rightarrow> Inr ([], False)
           | Some assigned \<Rightarrow>
               if length reportedShards = 0 then Inr ([], False)
               else Inr (PrepareShardStatistics (LoadBalancingGreedy cfg) reportedShards assigned
                           previousStats now))
      | LoadBalancingModeNAIVE \<Rightarrow> Inr ([], False)
      | _ \<Rightarrow> Inl errUnsupportedMode)"

definition PrepareAssignmentStatistics ::
    "order \<Rightarrow> Config \<Rightarrow> (string, string) gomap \<Rightarrow> (string, AssignedState) gomap
      \<Rightarrow> (string, ShardStatistics) gomap \<Rightarrow> gotime \<Rightarrow> ExecutorShardStatistics list result" where
  "PrepareAssignmentStatistics ord cfg previousOwnersByShard newAssignments previousStatistics
       assignmentTime =
     (case GetLoadBalancingMode cfg of
        LoadBalancingModeGREEDY \<Rightarrow>
          Inr (greedy_PrepareAssignmentStatistics ord previousOwnersByShard newAssignments
                 previousStatistics assignmentTime)
      | LoadBalancingModeNAIVE \<Rightarrow> Inr []
      | _ \<Rightarrow> Inl errUnsupportedMode)"

section \<open>Imbalance measures\<close>

fun Sqrt :: "float64 \<Rightarrow> float64" where
  "Sqrt (Fin a) = (if a < 0 then NaN else Fin (sqrt a))"
| "Sqrt PosInf = PosInf"
| "Sqrt _ = NaN"

definition maxOverMean :: "float64 list \<Rightarrow> float64" where
  "maxOverMean values =
     (if length values = 0 then 0
      else let (total, maxValue) =
             fold (\<lambda>value (total, maxValue).
                     (total + value, if maxValue < value then value else maxValue)) values (0, 0);
               mean = total / float_of_nat (length values)
           in if float_eq mean 0 then 0 else maxValue / mean)"

definition coefficientOfVariation :: "float64 list \<Rightarrow> float64" where
  "coefficientOfVariation values =
     (if length values = 0 then 0
      else let total = fold (\<lambda>value total. total + value) values 0;
               mean = total / float_of_nat (length values)
           in if float_eq mean 0 then 0
              else let variance = fold (\<lambda>value variance. let delta = value - mean
                                          in variance + delta * delta) values 0;
                       variance = variance / float_of_nat (length values)
                   in Sqrt variance / mean)"

section \<open>Lemmas\<close>

lemma dedupe_fold:
  "set seen = set unique \<Longrightarrow> distinct unique \<Longrightarrow>
     (case fold (\<lambda>shardID (seen, unique). if shardID \<in> set seen then (seen, unique)
                   else (List.insert shardID seen, unique @ [shardID])) ss (seen, unique) of
        (seen', unique') \<Rightarrow> distinct unique' \<and> set unique' = set unique \<union> set ss)"
proof (induction ss arbitrary: seen unique)
  case (Cons s ss)
  show ?case
  proof (cases "s \<in> set seen")
    case True
    then show ?thesis using Cons by (simp add: insert_absorb)
  next
    case False
    then show ?thesis
      using Cons.prems Cons.IH [of "List.insert s seen" "unique @ [s]"] by (simp add: case_prod_beta)
  qed
qed simp

lemma dedupe_distinct: "distinct (dedupeShardIDs ss)"
  and dedupe_set: "set (dedupeShardIDs ss) = set ss"
  using dedupe_fold [of "[]" "[]" ss] by (auto simp: dedupeShardIDs_def split: prod.splits)

lemma dedupe_Nil: "dedupeShardIDs ss = [] \<longleftrightarrow> ss = []"
  by (metis dedupe_set set_empty)

text \<open>
  What the assigner relies on: a plan places each requested shard once, on an assignable
  executor, and planning fails only without one or with an unsupported mode.
\<close>

locale batch_placer =
  fixes place :: "NamespaceState \<Rightarrow> string list \<Rightarrow> Placement list result"
    and supported :: bool
  assumes batch_Inr: "wf_state st \<Longrightarrow> place st ss = Inr ps \<Longrightarrow>
      distinct (map pl_ShardID ps) \<and> set (map pl_ShardID ps) = set ss
      \<and> set (map pl_ExecutorID ps) \<subseteq> set (AssignableExecutorIDs st [])"
    and batch_Inl: "wf_state st \<Longrightarrow> place st ss = Inl e \<Longrightarrow> supported \<Longrightarrow>
      e = ErrNoActiveExecutors \<and> AssignableExecutorIDs st [] = [] \<and> ss \<noteq> []"
begin

lemma batch_complete:
  assumes "wf_state st" "supported" "AssignableExecutorIDs st [] \<noteq> []"
  obtains ps where "place st ss = Inr ps" "distinct (map pl_ShardID ps)"
    "set (map pl_ShardID ps) = set ss"
    "set (map pl_ExecutorID ps) \<subseteq> set (AssignableExecutorIDs st [])"
  using assms batch_Inl [of st ss] batch_Inr [of st ss] by (cases "place st ss") auto

end

interpretation lb_placement: batch_placer "PlanInitialPlacement cfg"
  "GetLoadBalancingMode cfg \<noteq> LoadBalancingModeINVALID" for cfg
proof
  fix st ss ps
  assume wf: "wf_state st" and p: "PlanInitialPlacement cfg st ss = Inr ps"
  have "placed_on (AssignableExecutorIDs st []) (dedupeShardIDs ss) ps"
    using p naive_placement.place_Inr [OF wf] greedy_placement.place_Inr [OF wf]
    by (auto simp: PlanInitialPlacement_def Let_def split: LoadBalancingMode.splits)
  then show "distinct (map pl_ShardID ps) \<and> set (map pl_ShardID ps) = set ss
      \<and> set (map pl_ExecutorID ps) \<subseteq> set (AssignableExecutorIDs st [])"
    by (auto simp: placed_on_def dedupe_distinct dedupe_set)
next
  fix st ss e
  assume wf: "wf_state st" and p: "PlanInitialPlacement cfg st ss = Inl e"
    and m: "GetLoadBalancingMode cfg \<noteq> LoadBalancingModeINVALID"
  have "e = ErrNoActiveExecutors \<and> AssignableExecutorIDs st [] = [] \<and> dedupeShardIDs ss \<noteq> []"
    using p m naive_placement.place_cases [OF wf, of "dedupeShardIDs ss"]
      greedy_placement.place_cases [OF wf, of "dedupeShardIDs ss"]
      naive_placement.place_empty [of st] greedy_placement.place_empty [of st]
    by (cases "dedupeShardIDs ss = []")
       (auto simp: PlanInitialPlacement_def Let_def split: LoadBalancingMode.splits)
  then show "e = ErrNoActiveExecutors \<and> AssignableExecutorIDs st [] = [] \<and> ss \<noteq> []"
    by (simp add: dedupe_Nil)
qed

text \<open>The inputs on which a rebalance plan is certain to apply, per mode.\<close>

definition plan_accepts ::
    "(nat \<Rightarrow> nat \<Rightarrow> order) \<Rightarrow> Config \<Rightarrow> NamespaceState \<Rightarrow> assignments \<Rightarrow> bool" where
  "plan_accepts \<pi> cfg st cur =
     ((\<forall>i j. is_order (\<pi> i j)) \<and> GetLoadBalancingMode cfg \<noteq> LoadBalancingModeINVALID
      \<and> (GetLoadBalancingMode cfg = LoadBalancingModeNAIVE \<longrightarrow> loads_ok (calcShardLoad (\<pi> 0 0) st) cur))"

interpretation lb_rebalance: rebalance_strategy "PlanRebalance \<pi> cfg now" "plan_accepts \<pi> cfg" for \<pi> cfg now
proof
  fix cur :: assignments and st
  assume cur: "wf_map cur" "disjoint_slices cur" and acc: "plan_accepts \<pi> cfg st cur"
  have n: "GetLoadBalancingMode cfg = LoadBalancingModeNAIVE \<Longrightarrow>
      is_order (\<pi> 0 1) \<and> loads_ok (calcShardLoad (\<pi> 0 0) st) cur"
    and g: "\<forall>i j. is_order (\<pi> i j)" and m: "GetLoadBalancingMode cfg \<noteq> LoadBalancingModeINVALID"
    using acc by (auto simp: plan_accepts_def)
  show "\<exists>ms cur'. PlanRebalance \<pi> cfg now st cur = Inr ms \<and> applyMoves cur ms = Inr cur'"
    using n m naive_rebalance.plan_applies [OF cur, of "\<pi> 0 1" "\<pi> 0 0" st]
      greedy_rebalance.plan_applies [OF cur g, of "LoadBalancingGreedy cfg" now st]
    by (cases "GetLoadBalancingMode cfg") (simp_all add: PlanRebalance_def)
  show "mv_From m \<in> set (mkeys cur) \<and> mv_To m \<in> set (mkeys cur)"
    if "PlanRebalance \<pi> cfg now st cur = Inr ms" "m \<in> set ms" for ms m
    using that n m naive_rebalance.plan_keys [OF cur, of "\<pi> 0 1" "\<pi> 0 0" st]
      greedy_rebalance.plan_keys [OF cur g, of "LoadBalancingGreedy cfg" now st]
    by (cases "GetLoadBalancingMode cfg") (simp_all add: PlanRebalance_def)
qed

section \<open>Properties\<close>


definition naive_config :: Config where
  "naive_config = \<lparr>cfg_LoadBalancingMode = ''naive'', LoadBalancingNaive = \<lparr>MaxDeviation = Fin 2\<rparr>,
     LoadBalancingGreedy = example_config\<rparr>"

lemma naive_config_mode: "GetLoadBalancingMode naive_config = LoadBalancingModeNAIVE"
  by (simp add: GetLoadBalancingMode_def LoadBalancingMode_table_def naive_config_def)


end
