(* ===== verification/Processor.thy ===== *)
theory Processor
  imports LoadBalancer StoreInterface
begin

text \<open>
  The leader's work on one namespace, \<open>leader/process/processor.go\<close>: finding stale executors
  and statistics, computing a new distribution of the shards, and writing it through the store
  with the leader's guard.

  \<^item> Range statements whose order matters take orders from a family \<open>\<omega>\<close>: \<open>\<omega> j i\<close> is the order
    of the range at place \<open>j\<close>, visited for the \<open>i\<close>-th time.
  \<^item> The store is a record of functions over a database state; \<open>env\<close> is what other processes do
    to the database between the leader's calls.
  \<^item> Clock readings are parameters, as is the result of \<open>rand.Intn\<close>.
  \<^item> Indexing an empty slice panics; the stealing loop returns \<open>None\<close> then.
  \<^item> Metrics and log lines are left out, except the count of owners per shard.
\<close>

section \<open>Stale executors and statistics\<close>

definition identifyStaleExecutors :: "gotime \<Rightarrow> duration \<Rightarrow> NamespaceState \<Rightarrow> (string, int) gomap" where
  "identifyStaleExecutors now heartbeatTTL namespaceState =
     store_loop (\<lambda>executorID state.
         if heartbeatTTL < time_Sub now (LastHeartbeat state)
         then Some (ModRevision (mzero zero_AssignedState (ShardAssignments namespaceState) executorID))
         else None)
       (Executors namespaceState) []"

definition activeShards :: "gotime \<Rightarrow> duration \<Rightarrow> NamespaceState \<Rightarrow> gostrset" where
  "activeShards now heartbeatTTL namespaceState =
     (let assigned =
        fold (\<lambda>(executorID, assignedState) active.
                (case mget (Executors namespaceState) executorID of
                   None \<Rightarrow> active
                 | Some executor \<Rightarrow>
                     let isActive = (hb_Status executor = ExecutorStatusACTIVE);
                         isNotStale = (time_Sub now (LastHeartbeat executor) \<le> heartbeatTTL)
                     in if isActive \<and> isNotStale
                        then fold List.insert (mkeys (AssignedShards assignedState)) active
                        else active))
          (ShardAssignments namespaceState) []
      in fold (\<lambda>(_, heartbeatState) active.
                 fold (\<lambda>(shardID, shardStatusReport) active.
                         if ssr_Status shardStatusReport \<noteq> ShardStatusDONE
                         then List.insert shardID active else active)
                   (ReportedShards heartbeatState) active)
           (Executors namespaceState) assigned)"

definition identifyStaleShardStats ::
    "order \<Rightarrow> gotime \<Rightarrow> duration \<Rightarrow> NamespaceState \<Rightarrow> string list" where
  "identifyStaleShardStats ord now heartbeatTTL namespaceState =
     map fst (filter (\<lambda>(shardID, stats).
         if shardID \<in> set (activeShards now heartbeatTTL namespaceState) then False
         else let recentUpdate = (\<not> IsZero (LastUpdateTime stats)
                    \<and> time_Sub now (LastUpdateTime stats) \<le> heartbeatTTL);
                  recentMove = (\<not> IsZero (LastMoveTime stats)
                    \<and> time_Sub now (LastMoveTime stats) \<le> heartbeatTTL)
              in if recentUpdate \<or> recentMove then False else True)
       (mrange ord (ShardStats namespaceState)))"

section \<open>The shards of a namespace\<close>

text \<open>\<open>strconv.FormatInt(i, 10)\<close> of a non-negative number.\<close>

definition digit :: "nat \<Rightarrow> char" where
  "digit d = char_of (48 + d)"

fun FormatInt :: "nat \<Rightarrow> string" where
  "FormatInt n = (if n < 10 then [digit n] else FormatInt (n div 10) @ [digit (n mod 10)])"

declare FormatInt.simps [simp del]

definition makeShards :: "int \<Rightarrow> string list" where
  "makeShards num = map FormatInt [0 ..< nat num]"

definition getShards :: "Namespace \<Rightarrow> NamespaceState \<Rightarrow> (string, ShardState) gomap \<Rightarrow> string list" where
  "getShards cfg namespaceState deletedShards =
     (if NsType cfg = NamespaceTypeFixed then makeShards (ShardNum cfg)
      else if NsType cfg = NamespaceTypeEphemeral
      then concat (map (\<lambda>(_, state).
             filter (\<lambda>shardID. \<not> mhas deletedShards shardID) (mkeys (AssignedShards state)))
             (ShardAssignments namespaceState))
      else [])"

definition findDeletedShards :: "order \<Rightarrow> NamespaceState \<Rightarrow> (string, ShardState) gomap" where
  "findDeletedShards ord namespaceState =
     fold (\<lambda>(executorID, executor) deletedShards.
             fold (\<lambda>(shardID, shardState) deletedShards.
                     if ssr_Status shardState = ShardStatusDONE
                     then mput shardID \<lparr>ss_ExecutorID = executorID\<rparr> deletedShards
                     else deletedShards)
               (ReportedShards executor) deletedShards)
       (mrange ord (Executors namespaceState)) []"

definition findDrainedAssignedShards :: "NamespaceState \<Rightarrow> string list \<Rightarrow> string list" where
  "findDrainedAssignedShards namespaceState executors =
     (if length (DrainedShards namespaceState) = 0 then []
      else fold (\<lambda>executorID drainedAssigned.
              fold (\<lambda>shardID drainedAssigned.
                      if IsShardDrained namespaceState shardID
                      then List.insert shardID drainedAssigned else drainedAssigned)
                (mkeys (AssignedShards (mzero zero_AssignedState (ShardAssignments namespaceState) executorID)))
                drainedAssigned)
           executors [])"

section \<open>Computing a distribution\<close>

record reassign_state =
  rs_available :: gostrset
  rs_shardsToReassign :: "string list"
  rs_currentAssignments :: assignments

text \<open>The body of the loops over the stored assignments, for one shard of one executor.\<close>

definition reassign_shard :: "bool \<Rightarrow> string \<Rightarrow> string \<Rightarrow> reassign_state \<Rightarrow> reassign_state" where
  "reassign_shard isAssignable executorID shardID rs =
     (if shardID \<in> set (rs_available rs)
      then let rs = rs\<lparr>rs_available := remove1 shardID (rs_available rs)\<rparr>
           in if isAssignable
              then rs\<lparr>rs_currentAssignments := mput executorID
                        (slice (rs_currentAssignments rs) executorID @ [shardID]) (rs_currentAssignments rs)\<rparr>
              else rs\<lparr>rs_shardsToReassign := rs_shardsToReassign rs @ [shardID]\<rparr>
      else rs)"

definition findShardsToReassign ::
    "(nat \<Rightarrow> nat \<Rightarrow> order) \<Rightarrow> Namespace \<Rightarrow> gostrset \<Rightarrow> NamespaceState \<Rightarrow> (string, ShardState) gomap
      \<Rightarrow> string list \<times> assignments" where
  "findShardsToReassign \<omega> namespaceCfg assignableExecutors namespaceState deletedShards =
     (let allAvailableShards =
        fold (\<lambda>shardID available.
                if IsShardDrained namespaceState shardID then available
                else List.insert shardID available)
          (getShards namespaceCfg namespaceState deletedShards) [];
          start = \<lparr>rs_available = allAvailableShards, rs_shardsToReassign = [],
            rs_currentAssignments = fold (\<lambda>executorID m. mput executorID [] m) assignableExecutors []\<rparr>;
          rs = fold (\<lambda>(i, executorID, state).
                 fold (reassign_shard (executorID \<in> set assignableExecutors) executorID)
                   (\<omega> 1 i (mkeys (AssignedShards state))))
               (List.enumerate 0 (mrange (\<omega> 0 0) (ShardAssignments namespaceState))) start
      in (rs_shardsToReassign rs @ \<omega> 2 0 (rs_available rs), rs_currentAssignments rs))"

definition findExecutorsToUnassign ::
    "NamespaceState \<Rightarrow> gostrset \<Rightarrow> (string, int) gomap \<Rightarrow> (string, int) gomap" where
  "findExecutorsToUnassign namespaceState assignableExecutors staleExecutors =
     store_loop (\<lambda>executorID state.
         if length (AssignedShards state) = 0 then None
         else if executorID \<in> set assignableExecutors then None
         else if mhas staleExecutors executorID then None
         else Some (ModRevision state))
       (ShardAssignments namespaceState) []"

text \<open>\<open>i\<close> is the number \<open>rand.Intn(len(activeExecutors))\<close> returned.\<close>

fun updateAssignments_loop :: "string list \<Rightarrow> string list \<Rightarrow> nat \<Rightarrow> assignments \<Rightarrow> assignments" where
  "updateAssignments_loop [] activeExecutors i cur = cur"
| "updateAssignments_loop (shardID # shardIDs) activeExecutors i cur =
     (let executorID = activeExecutors ! (i mod length activeExecutors)
      in updateAssignments_loop shardIDs activeExecutors (Suc i)
           (mput executorID (slice cur executorID @ [shardID]) cur))"

definition updateAssignments ::
    "nat \<Rightarrow> string list \<Rightarrow> string list \<Rightarrow> assignments \<Rightarrow> bool \<times> assignments" where
  "updateAssignments i shardsToReassign activeExecutors cur =
     (if length shardsToReassign = 0 then (False, cur)
      else (True, updateAssignments_loop shardsToReassign activeExecutors i cur))"

text \<open>
  Stealing for empty executors. The targets of the two nested loops, in order, are the empty
  executors repeated; \<open>stealRound\<close> picks the executor to steal from.
\<close>

fun steal_loop :: "string list \<Rightarrow> nat \<Rightarrow> string list \<Rightarrow> assignments \<Rightarrow> assignments option" where
  "steal_loop executorsWithShards stealRound [] cur = Some cur"
| "steal_loop executorsWithShards stealRound (emptyExecutor # targets) cur =
     (let executorToSteelFrom = executorsWithShards ! (stealRound mod length executorsWithShards)
      in case slice cur executorToSteelFrom of
           [] \<Rightarrow> None
         | stolenShard # rest \<Rightarrow>
             let cur = mput executorToSteelFrom rest cur;
                 cur = mput emptyExecutor (slice cur emptyExecutor @ [stolenShard]) cur
             in steal_loop executorsWithShards (Suc stealRound) targets cur)"

definition classify_executors :: "assignments \<Rightarrow> string list \<times> string list \<times> nat" where
  "classify_executors cur =
     fold (\<lambda>executorID (emptyExecutors, executorsWithShards, minShardsCurrentlyAssigned).
             if length (slice cur executorID) = 0
             then (emptyExecutors @ [executorID], executorsWithShards, minShardsCurrentlyAssigned)
             else (emptyExecutors, executorsWithShards @ [executorID],
                   if minShardsCurrentlyAssigned = 0
                      \<or> length (slice cur executorID) < minShardsCurrentlyAssigned
                   then length (slice cur executorID) else minShardsCurrentlyAssigned))
       (sort (mkeys cur)) ([], [], 0)"

definition assignShardsToEmptyExecutors :: "assignments \<Rightarrow> (bool \<times> assignments) option" where
  "assignShardsToEmptyExecutors cur =
     (let (emptyExecutors, executorsWithShards, minShardsCurrentlyAssigned) = classify_executors cur
      in if length emptyExecutors = 0 \<or> length executorsWithShards = 0 then Some (False, cur)
         else let numShardsToAssignEmptyExecutors =
                minShardsCurrentlyAssigned * length executorsWithShards div length cur
              in map_option (Pair True)
                   (steal_loop executorsWithShards 0
                      (concat (replicate numShardsToAssignEmptyExecutors emptyExecutors)) cur))"

section \<open>Building the new state\<close>

definition shardSetsEqual ::
    "(string, ShardAssignment) gomap \<Rightarrow> (string, ShardAssignment) gomap \<Rightarrow> bool" where
  "shardSetsEqual a b =
     (if length a \<noteq> length b then False
      else list_all (\<lambda>(k, va). (case mget b k of
                                  None \<Rightarrow> False
                                | Some vb \<Rightarrow> sa_Status va = sa_Status vb)) a)"

definition handoverStat ::
    "NamespaceState \<Rightarrow> (string, string) gomap \<Rightarrow> string \<Rightarrow> string \<Rightarrow> ShardHandoverStats option" where
  "handoverStat namespaceState previousOwnersByShard executorID shardID =
     (case mget previousOwnersByShard shardID of
        None \<Rightarrow> None
      | Some previousOwner \<Rightarrow>
          if previousOwner = executorID then None
          else if IsShardDrained namespaceState shardID then None
          else (case ns_Executor namespaceState previousOwner of
                  None \<Rightarrow> None
                | Some previousExecutor \<Rightarrow>
                    Some \<lparr>PreviousExecutorLastHeartbeatTime = LastHeartbeat (exec_Heartbeat previousExecutor),
                          sh_HandoverType = (if IsDraining previousExecutor then HandoverTypeGRACEFUL
                                             else HandoverTypeEMERGENCY)\<rparr>))"

definition buildHandoverStats ::
    "NamespaceState \<Rightarrow> (string, string) gomap \<Rightarrow> string \<Rightarrow> string list \<Rightarrow> (string, ShardHandoverStats) gomap" where
  "buildHandoverStats namespaceState previousOwnersByShard executorID shardIDs =
     fold (\<lambda>shardID stats.
             (case handoverStat namespaceState previousOwnersByShard executorID shardID of
                None \<Rightarrow> stats
              | Some stat \<Rightarrow> mput shardID stat stats))
       shardIDs []"

definition assignedShardsMap :: "string list \<Rightarrow> (string, ShardAssignment) gomap" where
  "assignedShardsMap shards =
     fold (\<lambda>shardID m. mput shardID \<lparr>sa_Status = AssignmentStatusREADY\<rparr> m) shards []"

text \<open>The entry of one executor, and whether its assignment changed.\<close>

definition newAssignment ::
    "NamespaceState \<Rightarrow> (string, string) gomap \<Rightarrow> gotime \<Rightarrow> string \<Rightarrow> string list \<Rightarrow> AssignedState \<times> bool" where
  "newAssignment namespaceState previousOwnersByShard now executorID shards =
     (let assigned = assignedShardsMap shards;
          (modRevision, lastUpdated, changed) =
            (case mget (ShardAssignments namespaceState) executorID of
               None \<Rightarrow> (0, now, True)
             | Some oldState \<Rightarrow>
                 if shardSetsEqual (AssignedShards oldState) assigned
                 then (ModRevision oldState, LastUpdated oldState, False)
                 else (ModRevision oldState, now, True))
      in (\<lparr>AssignedShards = assigned,
           as_HandoverStats = buildHandoverStats namespaceState previousOwnersByShard executorID shards,
           LastUpdated = lastUpdated, ModRevision = modRevision\<rparr>, changed))"

definition buildNewAssignmentsState ::
    "NamespaceState \<Rightarrow> assignments \<Rightarrow> (string, int) gomap \<Rightarrow> (string, string) gomap \<Rightarrow> gotime
      \<Rightarrow> (string, AssignedState) gomap \<times> gostrset" where
  "buildNewAssignmentsState namespaceState cur executorsToUnassign previousOwnersByShard now =
     (let (newAssignments, changedExecutors) =
        fold (\<lambda>(executorID, shards) (newAssignments, changedExecutors).
                let (assigned, changed) =
                      newAssignment namespaceState previousOwnersByShard now executorID shards
                in (mput executorID assigned newAssignments,
                    if changed then List.insert executorID changedExecutors else changedExecutors))
          cur ([], [])
      in fold (\<lambda>(executorID, modRevision) (newAssignments, changedExecutors).
                 (mput executorID
                    \<lparr>AssignedShards = [], as_HandoverStats = [], LastUpdated = now,
                     ModRevision = modRevision\<rparr> newAssignments,
                  List.insert executorID changedExecutors))
           executorsToUnassign (newAssignments, changedExecutors))"

section \<open>One rebalance\<close>

text \<open>
  What a rebalance decides to do with a snapshot of the namespace: the part of
  \<open>rebalanceShardsImpl\<close> between the store calls. \<open>t\<close> gives the clock readings in the order of
  the calls to \<open>Now\<close>.
\<close>

datatype decision =
    NoActiveExecutors "(string, int) gomap"
  | DistributionError err
  | DistributionPanic
  | Unchanged
  | Distribute AssignShardsRequest "(string, string) gomap"

definition computeDistribution ::
    "(nat \<Rightarrow> nat \<Rightarrow> order) \<Rightarrow> (nat \<Rightarrow> nat \<Rightarrow> order) \<Rightarrow> nat \<Rightarrow> Config \<Rightarrow> LeaderProcess \<Rightarrow> Namespace
      \<Rightarrow> (nat \<Rightarrow> gotime) \<Rightarrow> NamespaceState \<Rightarrow> decision" where
  "computeDistribution \<omega> \<pi> i sdConfig cfg namespaceCfg t namespaceState =
     (let staleExecutors = identifyStaleExecutors (t 0) (HeartbeatTTL cfg) namespaceState;
          activeExecutors = AssignableExecutorIDs namespaceState staleExecutors
      in if length activeExecutors = 0 then NoActiveExecutors staleExecutors
         else
           let deletedShards = findDeletedShards (\<omega> 3 0) namespaceState;
               assignableExecutors = activeExecutors;
               (shardsToReassign, cur) = findShardsToReassign \<omega> namespaceCfg assignableExecutors
                 namespaceState deletedShards;
               executorsToUnassign =
                 findExecutorsToUnassign namespaceState assignableExecutors staleExecutors;
               drainedAssignedShards = findDrainedAssignedShards namespaceState activeExecutors
           in case assignShardsToEmptyExecutors cur of
                None \<Rightarrow> DistributionPanic
              | Some (assignedToEmptyExecutors, cur) \<Rightarrow>
                  let (updatedAssignments, cur) =
                        updateAssignments i shardsToReassign activeExecutors cur
                  in case PlanRebalance \<pi> sdConfig (t 1) namespaceState cur of
                       Inl e \<Rightarrow> DistributionError (Errorf ''load balance'' e)
                     | Inr loadBalanceMoves \<Rightarrow>
                         (case applyMoves cur loadBalanceMoves of
                            Inl e \<Rightarrow> DistributionError (Errorf ''apply load balance moves'' e)
                          | Inr cur \<Rightarrow>
                              let distributionChanged =
                                    (length deletedShards > 0 \<or> length staleExecutors > 0
                                     \<or> length loadBalanceMoves > 0 \<or> length drainedAssignedShards > 0
                                     \<or> length executorsToUnassign > 0 \<or> assignedToEmptyExecutors
                                     \<or> updatedAssignments)
                              in if \<not> distributionChanged then Unchanged
                                 else
                                   let previousOwnersByShard = ShardOwners (\<omega> 4 0) namespaceState;
                                       (newAssignments, changedExecutors) = buildNewAssignmentsState
                                         namespaceState cur executorsToUnassign previousOwnersByShard (t 2)
                                   in Distribute
                                        \<lparr>NewState = namespaceState\<lparr>ShardAssignments := newAssignments\<rparr>,
                                         ExecutorsToDelete = staleExecutors,
                                         ChangedExecutors = Some changedExecutors\<rparr>
                                        previousOwnersByShard))"

text \<open>
  The whole operation; \<open>None\<close> is a panic. \<open>namespaceCfg\<close> is the effective configuration,
  \<open>name\<close> the namespace's name.
\<close>

definition rebalanceShardsImpl ::
    "('db, 'g) Store \<Rightarrow> (nat \<Rightarrow> 'db \<Rightarrow> 'db) \<Rightarrow> 'g \<Rightarrow> (nat \<Rightarrow> nat \<Rightarrow> order) \<Rightarrow> (nat \<Rightarrow> nat \<Rightarrow> order) \<Rightarrow> nat
      \<Rightarrow> Config \<Rightarrow> LeaderProcess \<Rightarrow> Namespace \<Rightarrow> string \<Rightarrow> (nat \<Rightarrow> gotime) \<Rightarrow> 'db
      \<Rightarrow> (unit result \<times> 'db) option" where
  "rebalanceShardsImpl S env guard \<omega> \<pi> i sdConfig cfg namespaceCfg name t db =
     (case GetState S db name of
        Inl e \<Rightarrow> Some (Inl (Errorf ''get state'' e), db)
      | Inr namespaceState \<Rightarrow>
          (case computeDistribution \<omega> \<pi> i sdConfig cfg namespaceCfg t namespaceState of
             NoActiveExecutors staleExecutors \<Rightarrow>
               if length staleExecutors > 0
               then Some (Inr (), snd (DeleteExecutors S (env 0 db) name (\<omega> 5 0 (mkeys staleExecutors)) guard))
               else Some (Inr (), db)
           | DistributionError e \<Rightarrow> Some (Inl e, db)
           | DistributionPanic \<Rightarrow> None
           | Unchanged \<Rightarrow> Some (Inr (), db)
           | Distribute request previousOwnersByShard \<Rightarrow>
               (case AssignShards S (env 0 db) name request guard of
                  (Inl e, db) \<Rightarrow> Some (Inl (Errorf ''assign shards'' e), db)
                | (Inr _, db) \<Rightarrow>
                    (case PrepareAssignmentStatistics (\<omega> 6 0) sdConfig previousOwnersByShard
                            (ShardAssignments (NewState request)) (ShardStats namespaceState) (t 2) of
                       Inl _ \<Rightarrow> Some (Inr (), db)
                     | Inr updates \<Rightarrow>
                         if length updates > 0
                         then Some (Inr (), snd (RecordShardStatisticsBatch S (env 1 db) name updates))
                         else Some (Inr (), db)))))"

definition rebalanceShards ::
    "('db, 'g) Store \<Rightarrow> (nat \<Rightarrow> 'db \<Rightarrow> 'db) \<Rightarrow> 'g \<Rightarrow> (nat \<Rightarrow> nat \<Rightarrow> order) \<Rightarrow> (nat \<Rightarrow> nat \<Rightarrow> order) \<Rightarrow> nat
      \<Rightarrow> Config \<Rightarrow> LeaderProcess \<Rightarrow> Namespace \<Rightarrow> int \<Rightarrow> (nat \<Rightarrow> gotime) \<Rightarrow> 'db
      \<Rightarrow> (unit result \<times> 'db) option" where
  "rebalanceShards S env guard \<omega> \<pi> i sdConfig cfg namespaceCfg fixedShardNum t db =
     rebalanceShardsImpl S env guard \<omega> \<pi> i sdConfig cfg (EffectiveNamespace namespaceCfg fixedShardNum)
       (Name namespaceCfg) t db"

text \<open>One tick of the loop that removes stale statistics.\<close>

definition shardStatsCleanup ::
    "('db, 'g) Store \<Rightarrow> (nat \<Rightarrow> 'db \<Rightarrow> 'db) \<Rightarrow> 'g \<Rightarrow> order \<Rightarrow> Config \<Rightarrow> LeaderProcess \<Rightarrow> string \<Rightarrow> gotime \<Rightarrow> 'db \<Rightarrow> 'db" where
  "shardStatsCleanup S env guard ord sdConfig cfg name now db =
     (if GetLoadBalancingMode sdConfig \<noteq> LoadBalancingModeGREEDY then db
      else case GetState S db name of
             Inl e \<Rightarrow> db
           | Inr namespaceState \<Rightarrow>
               let staleShardStats = identifyStaleShardStats ord now (HeartbeatTTL cfg) namespaceState
               in if length staleShardStats = 0 then db
                  else snd (DeleteShardStats S (env 0 db) name staleShardStats guard))"

section \<open>Processor settings and metrics\<close>

definition NewProcessorFactory_cfg :: "LeaderProcess \<Rightarrow> LeaderProcess" where
  "NewProcessorFactory_cfg cfg =
     \<lparr>Period = (if Period cfg \<le> 0 then 10 ^ 9 else Period cfg),
      RebalanceCooldown = (if RebalanceCooldown cfg = 0 then 250 * 10 ^ 6 else RebalanceCooldown cfg),
      Timeout = (if Timeout cfg \<le> 0 then 10 ^ 9 else Timeout cfg),
      HeartbeatTTL = (if HeartbeatTTL cfg \<le> 0 then 10 * 10 ^ 9 else HeartbeatTTL cfg)\<rparr>"

text \<open>
  \<open>emitMaxOwnersPerShardMetric\<close>: the owners of each shard, the largest number of owners, and
  the shards that reached two.
\<close>

definition countOwners ::
    "(string, AssignedState) gomap \<Rightarrow> (string, string list) gomap \<times> nat \<times> string list" where
  "countOwners shardAssignments =
     fold (\<lambda>(executorID, assignedState).
             fold (\<lambda>shardID (shardToExecutors, maxOwners, errorShards).
                     let shardToExecutors =
                           mput shardID (slice shardToExecutors shardID @ [executorID]) shardToExecutors;
                         count = length (slice shardToExecutors shardID)
                     in (shardToExecutors, if maxOwners < count then count else maxOwners,
                         if count = 2 then errorShards @ [shardID] else errorShards))
               (mkeys (AssignedShards assignedState)))
       shardAssignments ([], 0, [])"

section \<open>Lemmas on shard names\<close>

definition digits_value :: "string \<Rightarrow> nat" where
  "digits_value = foldl (\<lambda>v c. 10 * v + (of_char c - 48)) 0"

lemma digits_value_FormatInt: "digits_value (FormatInt n) = n"
proof (induction n rule: FormatInt.induct)
  case (1 n)
  have d: "of_char (digit d) = 48 + d" if "d < 10" for d
    using that by (simp add: digit_def of_char_of take_bit_eq_mod)
  show ?case
    using 1 by (subst FormatInt.simps) (auto simp: digits_value_def d)
qed

lemma FormatInt_inj: "FormatInt m = FormatInt n \<Longrightarrow> m = n"
  by (metis digits_value_FormatInt)

lemma distinct_makeShards: "distinct (makeShards n)"
  by (auto simp: makeShards_def distinct_map inj_on_def dest: FormatInt_inj)

lemma set_makeShards: "set (makeShards n) = FormatInt ` {..< nat n}"
  by (auto simp: makeShards_def)

section \<open>Lemmas on stale executors and statistics\<close>

lemma mget_identifyStaleExecutors:
  assumes "wf_state st"
  shows "mhas (identifyStaleExecutors now ttl st) e \<longleftrightarrow>
    (\<exists>h. mget (Executors st) e = Some h \<and> ttl < time_Sub now (LastHeartbeat h))"
  by (auto simp: identifyStaleExecutors_def mhas_def mget_store_loop [OF wf_stateD(2) [OF assms]]
      split: option.splits)

lemma stale_ModRevision:
  assumes "wf_state st" "mget (identifyStaleExecutors now ttl st) e = Some r"
  shows "r = ModRevision (mzero zero_AssignedState (ShardAssignments st) e)"
  using assms(2)
  by (auto simp: identifyStaleExecutors_def mget_store_loop [OF wf_stateD(2) [OF assms(1)]]
      split: option.splits if_splits)

lemma set_fold_insert [simp]: "set (fold List.insert xs acc) = set xs \<union> set acc"
  by (induction xs arbitrary: acc) auto

lemma distinct_fold_insert: "distinct acc \<Longrightarrow> distinct (fold List.insert xs acc)"
  by (induction xs arbitrary: acc) auto

text \<open>Loops that add the elements passing a test to a set.\<close>

lemma set_fold_insert_if:
  "set (fold (\<lambda>x acc. if P x then List.insert (f x) acc else acc) xs acc) =
     set acc \<union> f ` {x \<in> set xs. P x}"
  by (induction xs arbitrary: acc) auto

lemma distinct_fold_insert_if:
  "distinct acc \<Longrightarrow> distinct (fold (\<lambda>x acc. if P x then List.insert (f x) acc else acc) xs acc)"
  by (induction xs arbitrary: acc) auto

lemma set_fold_Union:
  assumes "\<And>x acc. set (step x acc) = set acc \<union> F x"
  shows "set (fold step xs acc) = set acc \<union> (\<Union>x \<in> set xs. F x)"
  by (induction xs arbitrary: acc) (auto simp: assms)

lemma set_activeShards:
  "s \<in> set (activeShards now ttl st) \<longleftrightarrow>
     (\<exists>e a h. (e, a) \<in> set (ShardAssignments st) \<and> mhas (AssignedShards a) s
        \<and> mget (Executors st) e = Some h \<and> hb_Status h = ExecutorStatusACTIVE
        \<and> time_Sub now (LastHeartbeat h) \<le> ttl)
     \<or> (\<exists>e h r. (e, h) \<in> set (Executors st) \<and> (s, r) \<in> set (ReportedShards h)
        \<and> ssr_Status r \<noteq> ShardStatusDONE)"
proof -
  define P where "P = (\<lambda>e. \<exists>h. mget (Executors st) e = Some h
      \<and> hb_Status h = ExecutorStatusACTIVE \<and> time_Sub now (LastHeartbeat h) \<le> ttl)"
  let ?assign = "\<lambda>(executorID, assignedState) active.
      (case mget (Executors st) executorID of None \<Rightarrow> active
       | Some executor \<Rightarrow>
           if hb_Status executor = ExecutorStatusACTIVE \<and> time_Sub now (LastHeartbeat executor) \<le> ttl
           then fold List.insert (mkeys (AssignedShards assignedState)) active else active)"
  let ?report = "\<lambda>(_ :: string, heartbeatState) active.
      fold (\<lambda>(shardID, shardStatusReport) active.
              if ssr_Status shardStatusReport \<noteq> ShardStatusDONE
              then List.insert shardID active else active) (ReportedShards heartbeatState) active"
  have a: "set (?assign x acc) = set acc \<union> (if P (fst x) then set (mkeys (AssignedShards (snd x))) else {})"
    for x acc
    by (cases x) (auto simp: P_def Let_def split: option.splits)
  have r: "set (?report x acc) = set acc \<union> fst ` {y \<in> set (ReportedShards (snd x)). ssr_Status (snd y) \<noteq> ShardStatusDONE}"
    for x acc
    using set_fold_insert_if [where P = "\<lambda>y. ssr_Status (snd y) \<noteq> ShardStatusDONE" and f = fst]
    by (cases x) (simp add: case_prod_beta')
  have "set (activeShards now ttl st) =
      (\<Union>x \<in> set (ShardAssignments st). if P (fst x) then set (mkeys (AssignedShards (snd x))) else {})
      \<union> (\<Union>x \<in> set (Executors st). fst ` {y \<in> set (ReportedShards (snd x)). ssr_Status (snd y) \<noteq> ShardStatusDONE})"
    by (simp only: activeShards_def Let_def set_fold_Union [of ?report, OF r]
        set_fold_Union [of ?assign, OF a] set_simps Un_empty_left Un_commute)
  then have "s \<in> set (activeShards now ttl st) \<longleftrightarrow>
      (\<exists>x \<in> set (ShardAssignments st). P (fst x) \<and> mhas (AssignedShards (snd x)) s)
      \<or> (\<exists>x \<in> set (Executors st). \<exists>y \<in> set (ReportedShards (snd x)).
           fst y = s \<and> ssr_Status (snd y) \<noteq> ShardStatusDONE)"
    unfolding mhas_mkeys by auto
  then show ?thesis unfolding P_def by (simp add: Bex_def split_paired_Ex) blast
qed

section \<open>Lemmas on reassignment\<close>

definition available :: "Namespace \<Rightarrow> NamespaceState \<Rightarrow> (string, ShardState) gomap \<Rightarrow> string set" where
  "available cfg st deleted = {s \<in> set (getShards cfg st deleted). \<not> IsShardDrained st s}"

definition reassign_inv :: "string list \<Rightarrow> string multiset \<Rightarrow> reassign_state \<Rightarrow> bool" where
  "reassign_inv es A rs = (wf_map (rs_currentAssignments rs)
     \<and> set (mkeys (rs_currentAssignments rs)) = set es
     \<and> mset (rs_available rs) + mset (rs_shardsToReassign rs) + all_shards (rs_currentAssignments rs) = A)"

lemma reassign_inv_step:
  assumes inv: "reassign_inv es A rs" and b: "b \<longleftrightarrow> e \<in> set es"
  shows "reassign_inv es A (reassign_shard b e s rs)"
proof (cases "s \<in> set (rs_available rs)")
  case True
  let ?cur = "rs_currentAssignments rs" and ?av = "remove1 s (rs_available rs)"
  have wf: "wf_map ?cur" and keys: "set (mkeys ?cur) = set es"
    and sum: "add_mset s (mset ?av) + mset (rs_shardsToReassign rs) + all_shards ?cur = A"
    using inv True by (simp_all add: reassign_inv_def)
  have "s \<in># A" using sum by auto
  show ?thesis
  proof (cases b)
    case True
    then have "set (mkeys (mput e (slice ?cur e @ [s]) ?cur)) = set es"
      using b keys unfolding mkeys_mput by auto
    then show ?thesis
      using True \<open>s \<in> set (rs_available rs)\<close> \<open>s \<in># A\<close> wf sum all_shards_append [OF wf, of e "[s]"]
      by (simp add: reassign_inv_def reassign_shard_def)
  next
    case False
    then show ?thesis
      using \<open>s \<in> set (rs_available rs)\<close> \<open>s \<in># A\<close> wf keys sum by (simp add: reassign_inv_def reassign_shard_def)
  qed
next
  case False
  then show ?thesis using inv by (simp add: reassign_shard_def)
qed

lemma reassign_inv_fold:
  "reassign_inv es A rs \<Longrightarrow> b = (e \<in> set es) \<Longrightarrow> reassign_inv es A (fold (reassign_shard b e) ss rs)"
  by (induction ss arbitrary: rs) (simp_all add: reassign_inv_step)

lemma reassign_inv_folds:
  "reassign_inv es A rs \<Longrightarrow> reassign_inv es A (fold (\<lambda>(i, executorID, state).
     fold (reassign_shard (executorID \<in> set es) executorID) (f i state)) xs rs)"
proof (induction xs arbitrary: rs)
  case (Cons x xs)
  then show ?case by (cases x) (simp add: reassign_inv_fold)
qed simp

lemma findShardsToReassign_partition:
  assumes ord: "\<And>i j. is_order (\<omega> i j)" and "distinct es"
    and f: "findShardsToReassign \<omega> cfg es st deleted = (reassign, cur)"
  shows "wf_map cur" "set (mkeys cur) = set es"
    "mset reassign + all_shards cur = mset_set (available cfg st deleted)"
proof -
  define A where "A = fold (\<lambda>s acc. if IsShardDrained st s then acc else List.insert s acc)
      (getShards cfg st deleted) []"
  define start where "start = \<lparr>rs_available = A, rs_shardsToReassign = [],
      rs_currentAssignments = fold (\<lambda>e m. mput e [] m) es []\<rparr>"
  define rs where "rs = fold (\<lambda>(i, executorID, state).
      fold (reassign_shard (executorID \<in> set es) executorID) (\<omega> 1 i (mkeys (AssignedShards state))))
      (List.enumerate 0 (mrange (\<omega> 0 0) (ShardAssignments st))) start"
  have neg: "(\<lambda>s acc. if IsShardDrained st s then acc else List.insert s acc) =
      (\<lambda>s acc. if \<not> IsShardDrained st s then List.insert (id s) acc else acc)" by (auto intro!: ext)
  have "set A = available cfg st deleted" "distinct A"
    unfolding A_def neg set_fold_insert_if available_def by (auto intro!: distinct_fold_insert_if)
  then have A: "mset A = mset_set (available cfg st deleted)" by (metis mset_set_set)
  have "fold (\<lambda>e m. mput e [] m) es [] = map (\<lambda>e. (e, [] :: string list)) es"
    using fold_mput_map [OF assms(2), of "[]" "\<lambda>_. []"] by simp
  then have "reassign_inv es (mset A) start"
    using assms(2) by (simp add: reassign_inv_def start_def wf_map_def comp_def all_shards_def)
  then have inv: "reassign_inv es (mset A) rs" unfolding rs_def by (rule reassign_inv_folds)
  have r: "reassign = rs_shardsToReassign rs @ \<omega> 2 0 (rs_available rs)" "cur = rs_currentAssignments rs"
    using f by (simp_all add: findShardsToReassign_def Let_def A_def start_def rs_def)
  from inv show "wf_map cur" "set (mkeys cur) = set es"
    "mset reassign + all_shards cur = mset_set (available cfg st deleted)"
    by (auto simp: reassign_inv_def r A [symmetric] is_orderD [OF ord] ac_simps)
qed

end
