(* ===== verification/Distribution.thy ===== *)
theory Distribution
  imports Processor
begin

text \<open>
  Correctness of the leader's rebalance (\<open>Processor\<close>): stealing for empty executors never runs
  out of shards, every step keeps the multiset of shards, and the distribution that is written
  gives every available shard exactly one assignable owner.
\<close>

section \<open>Stealing for empty executors\<close>

text \<open>How often rounds \<open>k, \<dots>, k + n - 1\<close> steal from the \<open>j\<close>-th of \<open>d\<close> executors.\<close>

definition steals :: "nat \<Rightarrow> nat \<Rightarrow> nat \<Rightarrow> nat \<Rightarrow> nat" where
  "steals d k n j = length (filter (\<lambda>i. i mod d = j) [k ..< k + n])"

lemma steals_Suc: "steals d k (Suc n) j = (if k mod d = j then 1 else 0) + steals d (Suc k) n j"
proof -
  have "[k ..< k + Suc n] = k # [Suc k ..< Suc k + n]" by (simp add: upt_conv_Cons del: upt_Suc)
  then show ?thesis by (simp add: steals_def del: upt_Suc)
qed

text \<open>Round \<open>i\<close> is determined by \<open>i div d\<close> among the rounds that hit the same executor.\<close>

lemma steals_bound:
  assumes "n \<le> m * d"
  shows "steals d 0 n j \<le> m"
proof -
  let ?R = "{i. i < n \<and> i mod d = j}"
  have "steals d 0 n j = card (set (filter (\<lambda>i. i mod d = j) [0 ..< n]))"
    unfolding steals_def by (subst distinct_card) simp_all
  also have "set (filter (\<lambda>i. i mod d = j) [0 ..< n]) = ?R" by auto
  also have "card ?R = card ((\<lambda>i. i div d) ` ?R)"
  proof (rule card_image [symmetric], rule inj_onI)
    fix x y assume "x \<in> ?R" "y \<in> ?R" "x div d = y div d"
    then show "x = y" by (metis (mono_tags, lifting) div_mult_mod_eq mem_Collect_eq)
  qed
  also have "\<dots> \<le> card {..< m}"
    using assms by (intro card_mono) (auto simp: less_mult_imp_div_less)
  finally show ?thesis by simp
qed

text \<open>
  A run of the loop: it never meets an empty slice, keeps the keys and all shards, gives each
  target one shard per visit and takes as many from each executor as \<^const>\<open>steals\<close> says.
\<close>

lemma steal_loop_ok:
  assumes "distinct D" "D \<noteq> []"
  shows "wf_map cur \<Longrightarrow> set D \<subseteq> set (mkeys cur) \<Longrightarrow> set ts \<subseteq> set (mkeys cur) \<Longrightarrow> set ts \<inter> set D = {} \<Longrightarrow>
    (\<forall>j < length D. steals (length D) k (length ts) j \<le> length (slice cur (D ! j))) \<Longrightarrow>
    \<exists>cur'. steal_loop D k ts cur = Some cur' \<and> mkeys cur' = mkeys cur
      \<and> all_shards cur' = all_shards cur
      \<and> (\<forall>e. e \<notin> set D \<longrightarrow> length (slice cur' e) = length (slice cur e) + count_list ts e)
      \<and> (\<forall>j < length D. length (slice cur' (D ! j)) + steals (length D) k (length ts) j
           = length (slice cur (D ! j)))"
proof (induction ts arbitrary: k cur)
  case Nil
  then show ?case by (simp add: steals_def)
next
  case (Cons t ts)
  let ?d = "length D" and ?r = "k mod length D" and ?src = "D ! (k mod length D)"
  have r: "?r < ?d" using assms(2) by simp
  then have src: "?src \<in> set D" by simp
  have "steals ?d k (length (t # ts)) ?r \<le> length (slice cur ?src)" using Cons.prems(5) r by blast
  then obtain s rest where sl: "slice cur ?src = s # rest"
    by (cases "slice cur ?src") (auto simp: steals_Suc)
  define c where "c = mput ?src rest cur"
  define c' where "c' = mput t (slice c t @ [s]) c"
  have t: "t \<notin> set D" "t \<in> set (mkeys cur)" using Cons.prems(3,4) by auto
  then have ne: "t \<noteq> ?src" using src by blast
  have kc: "mkeys c' = mkeys cur"
    using t(2) src Cons.prems(2) by (auto simp: c'_def c_def mkeys_mput_in simp del: set_map)
  have slc: "slice c' e = (if e = t then slice cur t @ [s] else if e = ?src then rest else slice cur e)" for e
    using ne by (simp add: c'_def c_def gomap_simps)
  have "all_shards c + mset (slice cur ?src) = all_shards cur + mset rest"
    using all_shards_mput [OF Cons.prems(1)] by (simp add: c_def)
  then have "all_shards c + {#s#} = all_shards cur" unfolding sl by simp
  then have all: "all_shards c' = all_shards cur"
    using all_shards_append [of c t "[s]"] Cons.prems(1) by (simp add: c'_def c_def)
  have len: "length (slice c' (D ! j)) = length (slice cur (D ! j)) - (if ?r = j then 1 else 0)"
    if "j < ?d" for j
    using that t(1) nth_mem [OF that] nth_eq_iff_index_eq [OF assms(1) that r] sl
    by (auto simp: slc)
  have pos: "length (slice cur (D ! ?r)) > 0" using sl by simp
  have "\<forall>j < ?d. steals ?d (Suc k) (length ts) j \<le> length (slice c' (D ! j))"
    using Cons.prems(5) len by (auto simp: steals_Suc)
  then obtain cur' where cur': "steal_loop D (Suc k) ts c' = Some cur'" "mkeys cur' = mkeys c'"
    "all_shards cur' = all_shards c'"
    "\<forall>e. e \<notin> set D \<longrightarrow> length (slice cur' e) = length (slice c' e) + count_list ts e"
    "\<forall>j < ?d. length (slice cur' (D ! j)) + steals ?d (Suc k) (length ts) j = length (slice c' (D ! j))"
    using Cons.IH [of c' "Suc k"] Cons.prems(1-4) kc by (auto simp: c'_def c_def simp del: set_map)
  have "steal_loop D k (t # ts) cur = Some cur'"
    using cur'(1) sl by (simp add: c_def c'_def)
  moreover have "length (slice cur' e) = length (slice cur e) + count_list (t # ts) e" if "e \<notin> set D" for e
    using cur'(4) that src by (auto simp: slc)
  moreover have "length (slice cur' (D ! j)) + steals ?d k (length (t # ts)) j = length (slice cur (D ! j))"
    if "j < ?d" for j
    using cur'(5) len [OF that] that pos by (auto simp: steals_Suc)
  ultimately show ?case using cur'(2,3) kc all by simp
qed

text \<open>The executors without and with shards, and the smallest number of shards of the latter.\<close>

definition empty_executors :: "assignments \<Rightarrow> string list" where
  "empty_executors cur = filter (\<lambda>e. slice cur e = []) (sort (mkeys cur))"

definition donor_executors :: "assignments \<Rightarrow> string list" where
  "donor_executors cur = filter (\<lambda>e. slice cur e \<noteq> []) (sort (mkeys cur))"

definition min_shards :: "assignments \<Rightarrow> nat" where
  "min_shards cur = snd (snd (classify_executors cur))"

lemma classify_executors_spec:
  "\<exists>m. classify_executors cur = (empty_executors cur, donor_executors cur, m)
     \<and> (\<forall>e \<in> set (donor_executors cur). m \<le> length (slice cur e))"
proof -
  define step where "step = (\<lambda>executorID (emptyExecutors, executorsWithShards, minShards).
      if length (slice cur executorID) = 0
      then (emptyExecutors @ [executorID], executorsWithShards, minShards)
      else (emptyExecutors, executorsWithShards @ [executorID],
            if minShards = 0 \<or> length (slice cur executorID) < minShards
            then length (slice cur executorID) else minShards))"
  have "\<exists>m. fold step xs ([], [], 0) = (filter (\<lambda>e. slice cur e = []) xs, filter (\<lambda>e. slice cur e \<noteq> []) xs, m)
      \<and> (\<forall>e \<in> set (filter (\<lambda>e. slice cur e \<noteq> []) xs). m \<le> length (slice cur e))
      \<and> (m = 0 \<longleftrightarrow> filter (\<lambda>e. slice cur e \<noteq> []) xs = [])" for xs
  proof (induction xs rule: rev_induct)
    case (snoc x xs)
    then obtain m where m: "fold step xs ([], [], 0) =
        (filter (\<lambda>e. slice cur e = []) xs, filter (\<lambda>e. slice cur e \<noteq> []) xs, m)"
      "\<forall>e \<in> set (filter (\<lambda>e. slice cur e \<noteq> []) xs). m \<le> length (slice cur e)"
      "m = 0 \<longleftrightarrow> filter (\<lambda>e. slice cur e \<noteq> []) xs = []" by blast
    show ?case
    proof (cases "slice cur x = []")
      case True
      then show ?thesis using m by (simp add: step_def)
    next
      case False
      then show ?thesis using m by (auto simp: step_def filter_empty_conv)
    qed
  qed simp
  from this [of "sort (mkeys cur)"] show ?thesis
    unfolding classify_executors_def step_def empty_executors_def donor_executors_def by blast
qed

lemma classify_executors_eq:
  "classify_executors cur = (empty_executors cur, donor_executors cur, min_shards cur)"
  and min_shards_le: "e \<in> set (donor_executors cur) \<Longrightarrow> min_shards cur \<le> length (slice cur e)"
  using classify_executors_spec [of cur] by (auto simp: min_shards_def)

lemma empties_and_donors: "length (empty_executors cur) + length (donor_executors cur) = length cur"
  using sum_length_filter_compl [of "\<lambda>e. slice cur e = []" "sort (mkeys cur)"]
  by (simp add: empty_executors_def donor_executors_def)

definition stolen_each :: "assignments \<Rightarrow> nat" where
  "stolen_each cur = min_shards cur * length (donor_executors cur) div length cur"

lemma stolen_total: "stolen_each cur * length (empty_executors cur) \<le> min_shards cur * length (donor_executors cur)"
proof -
  have "stolen_each cur * length (empty_executors cur) \<le> stolen_each cur * length cur"
    using empties_and_donors [of cur] by simp
  also have "\<dots> \<le> min_shards cur * length (donor_executors cur)"
    by (simp add: stolen_each_def)
  finally show ?thesis .
qed

lemma count_list_concat_replicate: "count_list (concat (replicate n xs)) x = n * count_list xs x"
  by (induction n) simp_all

lemma assignShardsToEmptyExecutors_ok:
  assumes wf: "wf_map cur"
  shows "\<exists>b cur'. assignShardsToEmptyExecutors cur = Some (b, cur') \<and> mkeys cur' = mkeys cur
    \<and> all_shards cur' = all_shards cur \<and> wf_map cur'
    \<and> b = (empty_executors cur \<noteq> [] \<and> donor_executors cur \<noteq> [])
    \<and> (\<forall>e \<in> set (empty_executors cur). length (slice cur' e) = (if b then stolen_each cur else 0))"
proof (cases "empty_executors cur = [] \<or> donor_executors cur = []")
  case True
  then have "assignShardsToEmptyExecutors cur = Some (False, cur)"
    by (auto simp: assignShardsToEmptyExecutors_def classify_executors_eq)
  then show ?thesis using True wf by (auto simp: empty_executors_def)
next
  case False
  let ?D = "donor_executors cur" and ?E = "empty_executors cur"
  let ?ts = "concat (replicate (stolen_each cur) ?E)"
  have dist: "distinct ?D" "distinct ?E"
    using wf by (simp_all add: donor_executors_def empty_executors_def wf_map_def)
  have sub: "set ?D \<subseteq> set (mkeys cur)" "set ?ts \<subseteq> set (mkeys cur)" "set ?ts \<inter> set ?D = {}"
    by (auto simp: donor_executors_def empty_executors_def)
  have len: "length ?ts = stolen_each cur * length ?E" by (simp add: length_concat sum_list_replicate)
  have enough: "\<forall>j < length ?D. steals (length ?D) 0 (length ?ts) j \<le> length (slice cur (?D ! j))"
    using steals_bound [of "length ?ts" "min_shards cur" "length ?D"] stolen_total [of cur] len
      min_shards_le [OF nth_mem] by (metis le_trans)
  obtain cur' where c: "steal_loop ?D 0 ?ts cur = Some cur'" "mkeys cur' = mkeys cur"
    "all_shards cur' = all_shards cur"
    "\<forall>e. e \<notin> set ?D \<longrightarrow> length (slice cur' e) = length (slice cur e) + count_list ?ts e"
    using steal_loop_ok [OF dist(1) _ wf sub enough] False by blast
  have "length (slice cur' e) = stolen_each cur" if e: "e \<in> set ?E" for e
  proof -
    have "count_list ?E e = 1" using dist(2) e by (simp add: count_list_eq_length_filter distinct_length_filter)
    moreover have "e \<notin> set ?D" "slice cur e = []" using e by (auto simp: donor_executors_def empty_executors_def)
    ultimately show ?thesis using c(4) by (simp add: count_list_concat_replicate)
  qed
  moreover have "assignShardsToEmptyExecutors cur = Some (True, cur')"
    using False c(1) by (simp add: assignShardsToEmptyExecutors_def classify_executors_eq stolen_each_def)
  ultimately show ?thesis
    using False c(2,3) wf by (intro exI [of _ True] exI [of _ cur']) (simp add: wf_map_def)
qed

section \<open>Placing the remaining shards\<close>

lemma updateAssignments_loop_ok:
  assumes "es \<noteq> []"
  shows "wf_map cur \<Longrightarrow> set es \<subseteq> set (mkeys cur) \<Longrightarrow>
    mkeys (updateAssignments_loop ss es i cur) = mkeys cur
    \<and> all_shards (updateAssignments_loop ss es i cur) = all_shards cur + mset ss"
proof (induction ss arbitrary: i cur)
  case (Cons s ss)
  let ?e = "es ! (i mod length es)"
  let ?cur = "mput ?e (slice cur ?e @ [s]) cur"
  have "?e \<in> set (mkeys cur)" using assms Cons.prems(2) by auto
  then have "mkeys ?cur = mkeys cur" by (rule mkeys_mput_in)
  moreover have "all_shards ?cur = all_shards cur + {#s#}"
    using all_shards_append [OF Cons.prems(1), of ?e "[s]"] by simp
  ultimately show ?case
    using Cons.IH [of ?cur "Suc i"] Cons.prems by (simp add: Let_def del: set_map)
qed simp

lemma updateAssignments_ok:
  assumes "es \<noteq> []" "wf_map cur" "set es \<subseteq> set (mkeys cur)"
    and "updateAssignments i ss es cur = (b, cur')"
  shows "mkeys cur' = mkeys cur" "all_shards cur' = all_shards cur + mset ss" "wf_map cur'"
    "b \<longleftrightarrow> ss \<noteq> []"
  using assms(4) updateAssignments_loop_ok [OF assms(1-3), of ss i] assms(2)
  by (auto simp: updateAssignments_def wf_map_def split: if_splits)

section \<open>The state that is written\<close>

lemma assignedShardsMap_map:
  "distinct ss \<Longrightarrow> assignedShardsMap ss = map (\<lambda>s. (s, \<lparr>sa_Status = AssignmentStatusREADY\<rparr>)) ss"
  using fold_mput_map [of ss "[]" "\<lambda>_. \<lparr>sa_Status = AssignmentStatusREADY\<rparr>"]
  by (simp add: assignedShardsMap_def)

lemma newAssignment_shards:
  "AssignedShards (fst (newAssignment st owners now e ss)) = assignedShardsMap ss"
  by (simp add: newAssignment_def Let_def split: option.splits prod.splits)

lemma newAssignment_ModRevision:
  "ModRevision (fst (newAssignment st owners now e ss)) =
     ModRevision (mzero zero_AssignedState (ShardAssignments st) e)"
  by (simp add: newAssignment_def Let_def mzero_def zero_AssignedState_def split: option.splits prod.splits)

lemma newAssignment_changed:
  "snd (newAssignment st owners now e ss) \<longleftrightarrow>
     (case mget (ShardAssignments st) e of None \<Rightarrow> True
      | Some old \<Rightarrow> \<not> shardSetsEqual (AssignedShards old) (assignedShardsMap ss))"
  by (simp add: newAssignment_def Let_def split: option.splits prod.splits)

definition emptied :: "gotime \<Rightarrow> int \<Rightarrow> AssignedState" where
  "emptied now r = \<lparr>AssignedShards = [], as_HandoverStats = [], LastUpdated = now, ModRevision = r\<rparr>"

lemma buildNewAssignmentsState_map:
  assumes "wf_map cur" "wf_map un" "set (mkeys cur) \<inter> set (mkeys un) = {}"
  shows "\<exists>changed. buildNewAssignmentsState st cur un owners now =
      (map (\<lambda>(e, ss). (e, fst (newAssignment st owners now e ss))) cur
         @ map (\<lambda>(e, r). (e, emptied now r)) un, changed)
    \<and> (\<forall>e. e \<in> set changed \<longleftrightarrow>
         (\<exists>ss. (e, ss) \<in> set cur \<and> snd (newAssignment st owners now e ss)) \<or> e \<in> set (mkeys un))"
proof -
  let ?na = "\<lambda>e ss. newAssignment st owners now e ss"
  let ?step1 = "\<lambda>(executorID, shards) (newAssignments, changedExecutors).
      let (assigned, changed) = ?na executorID shards
      in (mput executorID assigned newAssignments,
          if changed then List.insert executorID changedExecutors else changedExecutors)"
  let ?step2 = "\<lambda>(executorID, modRevision) (newAssignments, changedExecutors).
      (mput executorID \<lparr>AssignedShards = [], as_HandoverStats = [], LastUpdated = now,
         ModRevision = modRevision\<rparr> newAssignments, List.insert executorID changedExecutors)"
  have one: "\<exists>ch. fold ?step1 xs (m, c) = (m @ map (\<lambda>(e, ss). (e, fst (?na e ss))) xs, ch)
      \<and> (\<forall>e. e \<in> set ch \<longleftrightarrow> e \<in> set c \<or> (\<exists>ss. (e, ss) \<in> set xs \<and> snd (?na e ss)))"
    if "wf_map xs" "set (mkeys xs) \<inter> set (mkeys m) = {}" for xs m c
    using that
  proof (induction xs arbitrary: m c)
    case (Cons p xs)
    obtain e ss where p: "p = (e, ss)" by force
    have e: "e \<notin> set (mkeys m)" using Cons.prems(2) p by auto
    define m' where "m' = m @ [(e, fst (?na e ss))]"
    define c' where "c' = (if snd (?na e ss) then List.insert e c else c)"
    have "?step1 p (m, c) = (m', c')"
      using e by (simp add: p m'_def c'_def mput_notin Let_def case_prod_beta)
    moreover have "wf_map xs" "set (mkeys xs) \<inter> set (mkeys m') = {}"
      using Cons.prems by (auto simp: p m'_def)
    ultimately show ?case
      using Cons.IH [of m' c'] by (auto simp: p m'_def c'_def)
  qed simp
  have two: "\<exists>ch. fold ?step2 xs (m, c) = (m @ map (\<lambda>(e, r). (e, emptied now r)) xs, ch)
      \<and> (\<forall>e. e \<in> set ch \<longleftrightarrow> e \<in> set c \<or> e \<in> set (mkeys xs))"
    if "wf_map xs" "set (mkeys xs) \<inter> set (mkeys m) = {}" for xs m c
    using that
  proof (induction xs arbitrary: m c)
    case (Cons p xs)
    obtain e r where p: "p = (e, r)" by force
    define m' where "m' = m @ [(e, emptied now r)]"
    have e: "e \<notin> set (mkeys m)" using Cons.prems(2) p by auto
    then have "?step2 p (m, c) = (m', List.insert e c)" by (simp add: p m'_def mput_notin emptied_def)
    moreover have "wf_map xs" "set (mkeys xs) \<inter> set (mkeys m') = {}"
      using Cons.prems by (auto simp: p m'_def)
    ultimately show ?case using Cons.IH [of m' "List.insert e c"] by (auto simp: p m'_def)
  qed simp
  obtain c1 where c1: "fold ?step1 cur ([], []) = (map (\<lambda>(e, ss). (e, fst (?na e ss))) cur, c1)"
    "\<forall>e. e \<in> set c1 \<longleftrightarrow> (\<exists>ss. (e, ss) \<in> set cur \<and> snd (?na e ss))"
    using one [OF assms(1), of "[]" "[]"] by auto
  have "set (mkeys un) \<inter> set (mkeys (map (\<lambda>(e, ss). (e, fst (?na e ss))) cur)) = {}"
    using assms(3) by (auto simp: case_prod_beta comp_def)
  then obtain c2 where "fold ?step2 un (map (\<lambda>(e, ss). (e, fst (?na e ss))) cur, c1) =
      (map (\<lambda>(e, ss). (e, fst (?na e ss))) cur @ map (\<lambda>(e, r). (e, emptied now r)) un, c2)"
    "\<forall>e. e \<in> set c2 \<longleftrightarrow> e \<in> set c1 \<or> e \<in> set (mkeys un)"
    using two [OF assms(2), of "map (\<lambda>(e, ss). (e, fst (?na e ss))) cur" c1] by auto
  then show ?thesis using c1 by (simp add: buildNewAssignmentsState_def)
qed

text \<open>The assignments written hold exactly the shards of the computed distribution.\<close>

lemma new_assignments_shards:
  assumes "disjoint_slices cur"
  shows "assigned_shards (map (\<lambda>(e, ss). (e, fst (newAssignment st owners now e ss))) cur
      @ map (\<lambda>(e, r). (e, emptied now r)) un) = all_shards cur"
    and "single_owner (map (\<lambda>(e, ss). (e, fst (newAssignment st owners now e ss))) cur
      @ map (\<lambda>(e, r). (e, emptied now r)) un)"
proof -
  have d: "distinct ss" if "(e, ss) \<in> set cur" for e ss
    using assms that by (auto simp: disjoint_slices_def distinct_concat_iff)
  have one: "map (\<lambda>(_, a). mkeys (AssignedShards a)) (map (\<lambda>(e, ss). (e, fst (newAssignment st owners now e ss))) cur)
      = map snd cur"
    using d by (auto simp: newAssignment_shards assignedShardsMap_map comp_def)
  have two: "concat (map (\<lambda>(_, a). mkeys (AssignedShards a)) (map (\<lambda>(e, r). (e, emptied now r)) un)) = []"
    by (auto simp: emptied_def)
  have c: "concat (map (\<lambda>(_, a). mkeys (AssignedShards a))
      (map (\<lambda>(e, ss). (e, fst (newAssignment st owners now e ss))) cur
        @ map (\<lambda>(e, r). (e, emptied now r)) un)) = concat (map snd cur)"
    by (simp only: map_append [of "\<lambda>(_, a). mkeys (AssignedShards a)"] concat_append one two append_Nil2)
  show "assigned_shards (map (\<lambda>(e, ss). (e, fst (newAssignment st owners now e ss))) cur
      @ map (\<lambda>(e, r). (e, emptied now r)) un) = all_shards cur"
    unfolding assigned_shards_def all_shards_def c ..
  show "single_owner (map (\<lambda>(e, ss). (e, fst (newAssignment st owners now e ss))) cur
      @ map (\<lambda>(e, r). (e, emptied now r)) un)"
    using assms unfolding single_owner_def disjoint_slices_def c .
qed

section \<open>The shards that are distributed\<close>

definition reported_done :: "NamespaceState \<Rightarrow> string \<Rightarrow> bool" where
  "reported_done st s = (\<exists>(e, h) \<in> set (Executors st). \<exists>(s', r) \<in> set (ReportedShards h).
     s' = s \<and> ssr_Status r = ShardStatusDONE)"

lemma mhas_findDeletedShards:
  assumes "is_order ord" "wf_state st"
  shows "mhas (findDeletedShards ord st) s \<longleftrightarrow> reported_done st s"
proof -
  have inner: "mhas (fold (\<lambda>(shardID, shardState) deleted. if ssr_Status shardState = ShardStatusDONE
        then mput shardID \<lparr>ss_ExecutorID = e\<rparr> deleted else deleted) rs m) s \<longleftrightarrow>
      mhas m s \<or> (\<exists>(s', r) \<in> set rs. s' = s \<and> ssr_Status r = ShardStatusDONE)" for e rs m
  proof (induction rs arbitrary: m)
    case (Cons p rs)
    then show ?case by (cases p) auto
  qed simp
  have "mhas (fold (\<lambda>(executorID, executor) deleted. fold (\<lambda>(shardID, shardState) deleted.
        if ssr_Status shardState = ShardStatusDONE
        then mput shardID \<lparr>ss_ExecutorID = executorID\<rparr> deleted else deleted)
        (ReportedShards executor) deleted) xs m) s \<longleftrightarrow>
      mhas m s \<or> (\<exists>(e, h) \<in> set xs. \<exists>(s', r) \<in> set (ReportedShards h).
        s' = s \<and> ssr_Status r = ShardStatusDONE)" for xs m
  proof (induction xs arbitrary: m)
    case (Cons p xs)
    then show ?case by (cases p) (simp add: inner)
  qed simp
  from this [of "mrange ord (Executors st)" "[]"] show ?thesis
    by (simp add: findDeletedShards_def reported_done_def set_mrange [OF assms(1) wf_stateD(2) [OF assms(2)]])
qed

lemma finite_available [simp]: "finite (available cfg st deleted)"
  by (simp add: available_def)

lemma available_fixed:
  "NsType cfg = NamespaceTypeFixed \<Longrightarrow>
     available cfg st deleted = {FormatInt i |i. i < nat (ShardNum cfg) \<and> \<not> IsShardDrained st (FormatInt i)}"
  by (auto simp: available_def getShards_def set_makeShards)

lemma available_ephemeral:
  assumes "is_order ord" "wf_state st" "NsType cfg = NamespaceTypeEphemeral"
  shows "available cfg st (findDeletedShards ord st) =
    {s. s \<in># assigned_shards (ShardAssignments st) \<and> \<not> reported_done st s \<and> \<not> IsShardDrained st s}"
  using namespace_types_differ [symmetric]
  by (auto simp: available_def getShards_def assigned_shards_def case_prod_beta assms(3)
      mhas_findDeletedShards [OF assms(1,2)])

section \<open>The whole computation\<close>

text \<open>
  When planning is certain to succeed: a supported mode and, in naive mode, reported loads that
  are finite, not negative, and have a sum a \<open>float64\<close> can hold.
\<close>

definition plan_safe :: "(nat \<Rightarrow> nat \<Rightarrow> order) \<Rightarrow> Config \<Rightarrow> NamespaceState \<Rightarrow> string set \<Rightarrow> bool" where
  "plan_safe \<pi> sdConfig st A =
     (GetLoadBalancingMode sdConfig \<noteq> LoadBalancingModeINVALID
      \<and> (GetLoadBalancingMode sdConfig = LoadBalancingModeNAIVE \<longrightarrow>
           list_all (\<lambda>(_, l). is_fin l \<and> 0 \<le> l) (calcShardLoad (\<pi> 0 0) st)
           \<and> Fin (\<Sum>s \<in> A. load_of (calcShardLoad (\<pi> 0 0) st) s) \<le> MaxFloat64))"

lemma entry_subset_all_shards: "(k, xs) \<in> set m \<Longrightarrow> mset xs \<subseteq># all_shards m"
  by (induction m) (auto intro: subset_mset.order_trans mset_subset_eq_add_right)

lemma subset_mset_set:
  assumes "mset xs \<subseteq># mset_set A" "finite A"
  shows "distinct xs" "set xs \<subseteq> A"
proof -
  show "set xs \<subseteq> A" using assms set_mset_mono by fastforce
  have "count (mset xs) x \<le> count (mset_set A) x" for x using assms(1) by (rule mset_subset_eq_count)
  moreover have "count (mset_set A) x \<le> 1" for x by (cases "x \<in> A"; cases "finite A") simp_all
  ultimately have "count (mset xs) x \<le> 1" for x using le_trans by blast
  then show "distinct xs" using disjoint_slices_count [of "[((), xs)]"] by (simp add: disjoint_slices_def)
qed

lemma plan_safe_accepts:
  assumes "plan_safe \<pi> sd st A" "\<And>i j. is_order (\<pi> i j)" "all_shards cur = mset_set A" "finite A"
  shows "plan_accepts \<pi> sd st cur"
proof -
  let ?sl = "calcShardLoad (\<pi> 0 0) st"
  have "loads_ok ?sl cur" if m: "GetLoadBalancingMode sd = LoadBalancingModeNAIVE"
  proof -
    have fin: "list_all (\<lambda>(_, l). is_fin l \<and> 0 \<le> l) ?sl"
      and sum: "Fin (\<Sum>s \<in> A. load_of ?sl s) \<le> MaxFloat64"
      using assms(1) m by (simp_all add: plan_safe_def)
    have nn: "nonneg_loads ?sl" using fin by (rule nonneg_loadsI)
    have "naive_executorLoad ?sl ss \<le> MaxFloat64" if ss: "(e, ss) \<in> set cur" for e ss
    proof -
      have "mset ss \<subseteq># mset_set A" using entry_subset_all_shards [OF ss] assms(3) by simp
      note d = subset_mset_set(1) [OF this assms(4)] and sub = subset_mset_set(2) [OF this assms(4)]
      have "sum_list (map (load_of ?sl) ss) = (\<Sum>s \<in> set ss. load_of ?sl s)"
        using d by (simp add: sum_list_distinct_conv_sum_set)
      also have "\<dots> \<le> (\<Sum>s \<in> A. load_of ?sl s)"
        using sub assms(4) nonneg_loadsD(2) [OF nn] by (intro sum_mono2) auto
      finally have "Fin (sum_list (map (load_of ?sl) ss)) \<le> Fin (\<Sum>s \<in> A. load_of ?sl s)" by simp
      then show ?thesis
        using sum unfolding naive_executorLoad_sum [OF nn] MaxFloat64_def by simp
    qed
    then show ?thesis using fin by (auto simp: loads_ok_def list_all_iff)
  qed
  then show ?thesis using assms(1,2) by (auto simp: plan_accepts_def plan_safe_def)
qed

text \<open>
  What the leader works out for a snapshot: the distribution \<open>cur\<close> and the executors to empty,
  when some executor is assignable.
\<close>

lemma computeDistribution_cases:
  assumes wf: "wf_state st" and om: "\<And>i j. is_order (\<omega> i j)" and pi: "\<And>i j. is_order (\<pi> i j)"
    and stale: "stale = identifyStaleExecutors (t 0) (HeartbeatTTL cfg) st"
    and act: "act = AssignableExecutorIDs st stale" and ne: "act \<noteq> []"
    and A: "A = available ns st (findDeletedShards (\<omega> 3 0) st)"
    and safe: "plan_safe \<pi> sd st A"
    and un: "un = findExecutorsToUnassign st act stale"
  obtains (unchanged) "computeDistribution \<omega> \<pi> i sd cfg ns t st = Unchanged" "stale = []" "un = []"
  | (distribute) cur new changed where
      "computeDistribution \<omega> \<pi> i sd cfg ns t st = Distribute
         \<lparr>NewState = st\<lparr>ShardAssignments := new\<rparr>, ExecutorsToDelete = stale,
          ChangedExecutors = Some changed\<rparr> (ShardOwners (\<omega> 4 0) st)"
      "buildNewAssignmentsState st cur un (ShardOwners (\<omega> 4 0) st) (t 2) = (new, changed)"
      "wf_map cur" "set (mkeys cur) = set act" "all_shards cur = mset_set A" "disjoint_slices cur"
proof -
  let ?del = "findDeletedShards (\<omega> 3 0) st"
  obtain re cur0 where f: "findShardsToReassign \<omega> ns act st ?del = (re, cur0)" by force
  note p0 = findShardsToReassign_partition [OF om _ f]
  have d: "distinct act" using distinct_AssignableExecutorIDs [OF wf] act by simp
  obtain b1 cur1 where e: "assignShardsToEmptyExecutors cur0 = Some (b1, cur1)"
    and c1: "mkeys cur1 = mkeys cur0" "all_shards cur1 = all_shards cur0" "wf_map cur1"
    using assignShardsToEmptyExecutors_ok [OF p0(1) [OF d]] by blast
  obtain b2 cur2 where u: "updateAssignments i re act cur1 = (b2, cur2)" by force
  have "set act \<subseteq> set (mkeys cur1)" using p0(2) [OF d] c1(1) by simp
  note c2 = updateAssignments_ok [OF ne c1(3) this u]
  have all2: "all_shards cur2 = mset_set A"
    using p0(3) [OF d] c1(2) c2(2) A by (simp add: ac_simps)
  have fin: "finite A" by (simp add: A)
  have disj: "disjoint_slices cur2"
    using all2 unfolding disjoint_slices_count by (simp add: count_mset_set')
  have acc: "plan_accepts \<pi> sd st cur2" by (rule plan_safe_accepts [OF safe pi all2 fin])
  obtain ms cur3 where pl: "PlanRebalance \<pi> sd (t 1) st cur2 = Inr ms" "applyMoves cur2 ms = Inr cur3"
    and c3: "mkeys cur3 = mkeys cur2" "all_shards cur3 = all_shards cur2" "wf_map cur3" "disjoint_slices cur3"
    by (rule lb_rebalance.plan_preserves [OF c2(3) disj acc])
  define changes where "changes = (length ?del > 0 \<or> length stale > 0 \<or> length ms > 0
      \<or> length (findDrainedAssignedShards st act) > 0 \<or> length un > 0 \<or> b1 \<or> b2)"
  obtain new changed where new:
    "buildNewAssignmentsState st cur3 un (ShardOwners (\<omega> 4 0) st) (t 2) = (new, changed)" by force
  have comp: "computeDistribution \<omega> \<pi> i sd cfg ns t st = (if changes then Distribute
         \<lparr>NewState = st\<lparr>ShardAssignments := new\<rparr>, ExecutorsToDelete = stale,
          ChangedExecutors = Some changed\<rparr> (ShardOwners (\<omega> 4 0) st) else Unchanged)"
    using ne unfolding computeDistribution_def Let_def stale [symmetric] act [symmetric] f prod.case
      un [symmetric] e option.case u pl sum.case new changes_def
    by simp
  show thesis
  proof (cases changes)
    case False
    then show ?thesis using unchanged comp by (simp add: changes_def)
  next
    case True
    then show ?thesis
      by (intro distribute [OF _ new]) (use comp c3 all2 c2(1) c1(1) p0(2) [OF d] in simp_all)
  qed
qed

lemma mget_findExecutorsToUnassign:
  assumes "wf_state st"
  shows "mget (findExecutorsToUnassign st act stale) e = Some r \<longleftrightarrow>
    (\<exists>a. mget (ShardAssignments st) e = Some a \<and> AssignedShards a \<noteq> [] \<and> e \<notin> set act
       \<and> \<not> mhas stale e \<and> r = ModRevision a)"
  by (auto simp: findExecutorsToUnassign_def mget_store_loop [OF wf_stateD(1) [OF assms]]
      split: option.splits)

lemma wf_findExecutorsToUnassign [simp]: "wf_map (findExecutorsToUnassign st act stale)"
  by (simp add: findExecutorsToUnassign_def)

text \<open>
  The request a rebalance writes, in terms of the snapshot: which executors it names, which
  shards it gives them, and under which revisions.
\<close>

definition good_request ::
    "NamespaceState \<Rightarrow> (string, int) gomap \<Rightarrow> string list \<Rightarrow> string set \<Rightarrow> AssignShardsRequest \<Rightarrow> bool" where
  "good_request st stale act A req =
     (let new = ShardAssignments (NewState req)
      in wf_map new \<and> single_owner new \<and> set_mset (assigned_shards new) = A
         \<and> (\<forall>(e, a) \<in> set new. AssignedShards a \<noteq> [] \<longrightarrow> e \<in> set act)
         \<and> set act \<subseteq> set (mkeys new)
         \<and> ExecutorsToDelete req = stale \<and> set (mkeys new) \<inter> set (mkeys stale) = {}
         \<and> (\<forall>(e, a) \<in> set new.
              ModRevision a = ModRevision (mzero zero_AssignedState (ShardAssignments st) e))
         \<and> (\<forall>(e, a) \<in> set (ShardAssignments st). AssignedShards a \<noteq> [] \<longrightarrow> mhas new e \<or> mhas stale e)
         \<and> (\<exists>changed. ChangedExecutors req = Some changed
              \<and> (\<forall>(e, a) \<in> set new. e \<notin> set changed \<longrightarrow>
                   (\<exists>old. mget (ShardAssignments st) e = Some old
                      \<and> shardSetsEqual (AssignedShards old) (AssignedShards a)))))"

lemma distribution_good_request:
  assumes wf: "wf_state st" and om: "\<And>i j. is_order (\<omega> i j)" and pi: "\<And>i j. is_order (\<pi> i j)"
    and stale: "stale = identifyStaleExecutors (t 0) (HeartbeatTTL cfg) st"
    and act: "act = AssignableExecutorIDs st stale"
    and A: "A = available ns st (findDeletedShards (\<omega> 3 0) st)"
    and safe: "plan_safe \<pi> sd st A"
    and dist: "computeDistribution \<omega> \<pi> i sd cfg ns t st = Distribute req owners"
  shows "good_request st stale act A req"
proof -
  let ?un = "findExecutorsToUnassign st act stale"
  have ne: "act \<noteq> []"
    using dist unfolding act stale computeDistribution_def Let_def by (auto split: if_splits)
  show ?thesis
  proof (cases rule: computeDistribution_cases
      [where \<omega> = \<omega> and \<pi> = \<pi> and t = t and i = i and un = ?un,
       OF wf om pi stale act ne A safe refl])
    case 1
    then show ?thesis using dist by simp
  next
    case (2 cur new changed)
    let ?ow = "ShardOwners (\<omega> 4 0) st"
    have inact: "e \<notin> set act" if "e \<in> set (mkeys ?un)" for e
      using that mget_findExecutorsToUnassign [OF wf, of act stale e] mhas_mkeys [of ?un e]
      by (auto simp: mhas_def simp del: set_map)
    then have disj: "set (mkeys cur) \<inter> set (mkeys ?un) = {}" using 2(4) by auto
    obtain changed' where new: "new = map (\<lambda>(e, ss). (e, fst (newAssignment st ?ow (t 2) e ss))) cur
         @ map (\<lambda>(e, r). (e, emptied (t 2) r)) ?un"
      and ch: "\<forall>e. e \<in> set changed \<longleftrightarrow> (\<exists>ss. (e, ss) \<in> set cur \<and> snd (newAssignment st ?ow (t 2) e ss))
         \<or> e \<in> set (mkeys ?un)"
      using buildNewAssignmentsState_map [OF 2(3) wf_findExecutorsToUnassign disj, of st ?ow "t 2"] 2(2)
      by auto
    have req: "req = \<lparr>NewState = st\<lparr>ShardAssignments := new\<rparr>, ExecutorsToDelete = stale,
        ChangedExecutors = Some changed\<rparr>" using 2(1) dist by simp
    have keys: "set (mkeys new) = set act \<union> set (mkeys ?un)"
      using 2(4) by (auto simp: new case_prod_beta' comp_def image_iff)
    have wfn: "wf_map new"
      using 2(3) disj wf_findExecutorsToUnassign [of st act stale]
      by (simp add: new wf_map_def case_prod_beta' comp_def)
    have inc: "(e, ss) \<in> set cur \<Longrightarrow> e \<in> set act" for e ss using 2(4) by force
    have entries: "(e, a) \<in> set new \<Longrightarrow> (\<exists>ss. (e, ss) \<in> set cur \<and> e \<in> set act
        \<and> a = fst (newAssignment st ?ow (t 2) e ss)) \<or> (\<exists>r. (e, r) \<in> set ?un \<and> a = emptied (t 2) r)" for e a
      using inc by (auto simp: new)
    have un: "\<exists>a. mget (ShardAssignments st) e = Some a \<and> AssignedShards a \<noteq> [] \<and> \<not> mhas stale e
        \<and> r = ModRevision a" if "(e, r) \<in> set ?un" for e r
      using that mget_findExecutorsToUnassign [OF wf, of act stale e r]
        mget_eq_iff [OF wf_findExecutorsToUnassign [of st act stale], of e r] by blast
    have shards: "single_owner new" "set_mset (assigned_shards new) = A"
      using new_assignments_shards [OF 2(6)] 2(5) by (simp_all add: new A)
    have rev: "ModRevision a = ModRevision (mzero zero_AssignedState (ShardAssignments st) e)"
      if "(e, a) \<in> set new" for e a
      using entries [OF that]
      by (auto simp: newAssignment_ModRevision) (auto simp: emptied_def mzero_def dest!: un)
    have ac: "e \<in> set act" if "(e, a) \<in> set new" "AssignedShards a \<noteq> []" for e a
      using entries [OF that(1)] that(2) by (auto simp: emptied_def)
    have ns: "\<not> mhas stale e" if k: "e \<in> set (mkeys new)" for e
    proof (cases "e \<in> set act")
      case True
      then show ?thesis using set_AssignableExecutorIDs [OF wf, of e stale] by (auto simp: act)
    next
      case False
      then obtain r where "(e, r) \<in> set ?un" using k keys by auto
      from un [OF this] show ?thesis by blast
    qed
    have cov: "mhas new e \<or> mhas stale e" if "(e, a) \<in> set (ShardAssignments st)" "AssignedShards a \<noteq> []" for e a
    proof (rule ccontr)
      assume c: "\<not> ?thesis"
      then have "e \<notin> set act" using keys by (auto simp: mhas_mkeys)
      moreover have "mget (ShardAssignments st) e = Some a"
        using that(1) by (simp add: mget_eq_iff [OF wf_stateD(1) [OF wf]])
      ultimately have "mget ?un e = Some (ModRevision a)"
        using c that(2) by (simp add: mget_findExecutorsToUnassign [OF wf])
      from mget_in_mkeys [OF this] have "e \<in> set (mkeys new)" using keys by blast
      then show False using c by (simp add: mhas_mkeys)
    qed
    have unch: "\<exists>old. mget (ShardAssignments st) e = Some old
        \<and> shardSetsEqual (AssignedShards old) (AssignedShards a)"
      if u: "(e, a) \<in> set new" "e \<notin> set changed" for e a
    proof -
      obtain ss where ss: "(e, ss) \<in> set cur" "a = fst (newAssignment st ?ow (t 2) e ss)"
        using entries [OF u(1)] u(2) ch by (auto simp: image_iff)
      then have "\<not> snd (newAssignment st ?ow (t 2) e ss)" using u(2) ch by blast
      then show ?thesis
        using newAssignment_changed [of st ?ow "t 2" e ss] ss(2)
        by (auto simp: newAssignment_shards split: option.splits)
    qed
    have disjoint: "set (mkeys new) \<inter> set (mkeys stale) = {}"
      using ns unfolding mhas_mkeys by blast
    have act_keys: "set act \<subseteq> set (mkeys new)" using keys by blast
    have NS: "ShardAssignments (NewState req) = new" "ExecutorsToDelete req = stale"
      "ChangedExecutors req = Some changed" by (simp_all add: req)
    show ?thesis
      unfolding good_request_def Let_def NS
      by (intro conjI exI [of _ changed] refl wfn shards disjoint act_keys)
         (use rev ac cov unch in \<open>blast+\<close>)
  qed
qed

section \<open>Properties of the distribution\<close>

text \<open>
  A namespace for the examples: \<open>a\<close> is active and owns shard \<open>0\<close>, \<open>b\<close> is active and owns
  nothing, \<open>c\<close> drains and owns shard \<open>1\<close>, \<open>d\<close> sent its last heartbeat long ago and owns shard
  \<open>3\<close>; shard \<open>2\<close> is drained.
\<close>

definition leader_heartbeat :: "gotime \<Rightarrow> ExecutorStatus \<Rightarrow> HeartbeatState" where
  "leader_heartbeat now status = example_heartbeat\<lparr>LastHeartbeat := now, hb_Status := status\<rparr>"

definition owns :: "string list \<Rightarrow> int \<Rightarrow> AssignedState" where
  "owns ss r = \<lparr>AssignedShards = map (\<lambda>s. (s, \<lparr>sa_Status = AssignmentStatusREADY\<rparr>)) ss,
     as_HandoverStats = [], LastUpdated = 1, ModRevision = r\<rparr>"

definition leader_state :: NamespaceState where
  "leader_state = example_state\<lparr>
     ShardAssignments := [(''a'', owns [''0''] 5), (''c'', owns [''1''] 6), (''d'', owns [''3''] 7)],
     DrainedShards := [''2''],
     Executors := [(''a'', leader_heartbeat 1000 ExecutorStatusACTIVE),
                   (''b'', leader_heartbeat 1000 ExecutorStatusACTIVE),
                   (''c'', leader_heartbeat 1000 ExecutorStatusDRAINING),
                   (''d'', leader_heartbeat 10 ExecutorStatusACTIVE)]\<rparr>"

definition greedy_config :: Config where
  "greedy_config = naive_config\<lparr>cfg_LoadBalancingMode := ''greedy''\<rparr>"

definition leader_process :: LeaderProcess where
  "leader_process = \<lparr>Period = 1, RebalanceCooldown = 1, Timeout = 1, HeartbeatTTL = 100\<rparr>"

definition fixed_ns :: Namespace where
  "fixed_ns = \<lparr>Name = ''ns'', NsType = NamespaceTypeFixed, ShardNum = 4\<rparr>"

definition ephemeral_ns :: Namespace where
  "ephemeral_ns = \<lparr>Name = ''ns'', NsType = NamespaceTypeEphemeral, ShardNum = 0\<rparr>"

abbreviation id_orders :: "nat \<Rightarrow> nat \<Rightarrow> order" where
  "id_orders \<equiv> \<lambda>_ _ xs. xs"

lemma leader_state_wf: "wf_state leader_state"
  by (simp add: leader_state_def example_state_def wf_state_def wf_assigned_def owns_def
      leader_heartbeat_def example_heartbeat_def)

lemma greedy_config_mode: "GetLoadBalancingMode greedy_config = LoadBalancingModeGREEDY"
  by (simp add: GetLoadBalancingMode_def LoadBalancingMode_table_def greedy_config_def)

lemma greedy_plan_safe: "plan_safe \<pi> greedy_config st A"
  by (simp add: plan_safe_def greedy_config_mode)

definition is_distribute :: "decision \<Rightarrow> bool" where
  "is_distribute d = (case d of Distribute _ _ \<Rightarrow> True | _ \<Rightarrow> False)"

lemma leader_distributes:
  "is_distribute (computeDistribution id_orders id_orders 0 greedy_config leader_process fixed_ns (\<lambda>_. 1000) leader_state)"
  "is_distribute (computeDistribution id_orders id_orders 0 greedy_config leader_process ephemeral_ns (\<lambda>_. 1000) leader_state)"
  by code_simp+

text \<open>Both namespace types at once; the properties below split it.\<close>

lemma distribution_owners:
  assumes "wf_state st" and "\<forall>i j. is_order (\<omega> i j)" and "\<forall>i j. is_order (\<pi> i j)"
    and "plan_safe \<pi> sd st (available ns st (findDeletedShards (\<omega> 3 0) st))"
    and "computeDistribution \<omega> \<pi> i sd cfg ns t st = Distribute req owners"
  shows "good_request st (identifyStaleExecutors (t 0) (HeartbeatTTL cfg) st)
    (AssignableExecutorIDs st (identifyStaleExecutors (t 0) (HeartbeatTTL cfg) st))
    (available ns st (findDeletedShards (\<omega> 3 0) st)) req"
  by (rule distribution_good_request [OF assms(1) _ _ refl refl refl assms(4,5)])
     (use assms(2,3) in simp_all)

text \<open>
  C14. In a fixed namespace of \<open>n\<close> shards, the distribution a rebalance writes gives every shard
  \<open>0, \<dots>, n - 1\<close> that is not drained exactly one owner, gives no owner to any other shard, and
  only executors that are active, not stale and not on a drained host own anything. It holds for
  every order of the map ranges, every random offset and every clock.
\<close>
theorem fixed_namespace_complete:
  assumes "wf_state st" and "\<forall>i j. is_order (\<omega> i j)" and "\<forall>i j. is_order (\<pi> i j)"
    and "NsType ns = NamespaceTypeFixed"
    and "plan_safe \<pi> sd st {FormatInt k |k. k < nat (ShardNum ns) \<and> \<not> IsShardDrained st (FormatInt k)}"
    and "computeDistribution \<omega> \<pi> i sd cfg ns t st = Distribute req owners"
  shows "single_owner (ShardAssignments (NewState req))
    \<and> (s \<in># assigned_shards (ShardAssignments (NewState req)) \<longleftrightarrow>
         (\<exists>k < nat (ShardNum ns). s = FormatInt k \<and> \<not> IsShardDrained st s))
    \<and> (mget (ShardAssignments (NewState req)) e = Some a \<and> AssignedShards a \<noteq> [] \<longrightarrow>
         e \<in> set (AssignableExecutorIDs st (identifyStaleExecutors (t 0) (HeartbeatTTL cfg) st)))"
  using distribution_owners [OF assms(1-3) _ assms(6)] assms(5)
  by (auto simp: available_fixed [OF assms(4)] good_request_def Let_def dest: map_of_SomeD)

theorem fixed_namespace_complete_witness:
  "\<exists>req owners. computeDistribution id_orders id_orders 0 greedy_config leader_process fixed_ns
       (\<lambda>_. 1000) leader_state = Distribute req owners
     \<and> single_owner (ShardAssignments (NewState req))
     \<and> ''3'' \<in># assigned_shards (ShardAssignments (NewState req))
     \<and> ''2'' \<notin># assigned_shards (ShardAssignments (NewState req))"
proof -
  obtain req owners where d: "computeDistribution id_orders id_orders 0 greedy_config leader_process
      fixed_ns (\<lambda>_. 1000) leader_state = Distribute req owners"
    using leader_distributes(1) by (auto simp: is_distribute_def split: decision.splits)
  note spec = fixed_namespace_complete [OF leader_state_wf _ _ _ greedy_plan_safe d]
  have "FormatInt 3 = ''3''" by code_simp
  then have "\<exists>k < nat (ShardNum fixed_ns). ''3'' = FormatInt k \<and> \<not> IsShardDrained leader_state ''3''"
    by (intro exI [of _ 3]) (simp add: fixed_ns_def leader_state_def IsShardDrained_def)
  moreover have "IsShardDrained leader_state ''2''" by (simp add: leader_state_def IsShardDrained_def)
  ultimately show ?thesis
    using d spec [of "''3''"] spec [of "''2''"] by (auto simp: fixed_ns_def)
qed

text \<open>
  C15. In an ephemeral namespace the distribution keeps exactly the shards that were assigned,
  minus those an executor reported done and those that are drained, each with one assignable
  owner: a rebalance neither loses nor duplicates nor invents a shard.
\<close>
theorem ephemeral_namespace_preserved:
  assumes "wf_state st" and "\<forall>i j. is_order (\<omega> i j)" and "\<forall>i j. is_order (\<pi> i j)"
    and "NsType ns = NamespaceTypeEphemeral"
    and "plan_safe \<pi> sd st {s. s \<in># assigned_shards (ShardAssignments st) \<and> \<not> reported_done st s
      \<and> \<not> IsShardDrained st s}"
    and "computeDistribution \<omega> \<pi> i sd cfg ns t st = Distribute req owners"
  shows "single_owner (ShardAssignments (NewState req))
    \<and> (s \<in># assigned_shards (ShardAssignments (NewState req)) \<longleftrightarrow>
         s \<in># assigned_shards (ShardAssignments st) \<and> \<not> reported_done st s \<and> \<not> IsShardDrained st s)
    \<and> (mget (ShardAssignments (NewState req)) e = Some a \<and> AssignedShards a \<noteq> [] \<longrightarrow>
         e \<in> set (AssignableExecutorIDs st (identifyStaleExecutors (t 0) (HeartbeatTTL cfg) st)))"
proof -
  have ord: "is_order (\<omega> 3 0)" using assms(2) by simp
  show ?thesis
    using distribution_owners [OF assms(1-3) _ assms(6)] assms(5)
    by (auto simp: available_ephemeral [OF ord assms(1,4)] good_request_def Let_def dest: map_of_SomeD)
qed

theorem ephemeral_namespace_preserved_witness:
  "\<exists>req owners. computeDistribution id_orders id_orders 0 greedy_config leader_process ephemeral_ns
       (\<lambda>_. 1000) leader_state = Distribute req owners
     \<and> single_owner (ShardAssignments (NewState req))
     \<and> ''3'' \<in># assigned_shards (ShardAssignments (NewState req))
     \<and> ''4'' \<notin># assigned_shards (ShardAssignments (NewState req))"
proof -
  obtain req owners where d: "computeDistribution id_orders id_orders 0 greedy_config leader_process
      ephemeral_ns (\<lambda>_. 1000) leader_state = Distribute req owners"
    using leader_distributes(2) by (auto simp: is_distribute_def split: decision.splits)
  note spec = ephemeral_namespace_preserved [OF leader_state_wf _ _ _ greedy_plan_safe d]
  show ?thesis
    using d spec [of "''3''"] spec [of "''4''"]
    by (auto simp: ephemeral_ns_def leader_state_def assigned_shards_def owns_def IsShardDrained_def
        reported_done_def leader_heartbeat_def example_heartbeat_def)
qed



text \<open>
  C27. Taking shards for executors that have none never indexes an empty slice, loses or
  duplicates no shard and creates no executor, and leaves every executor that had none with the
  same number of shards: the floor of the smallest share times the number of donors over the
  number of executors.
\<close>
theorem steal_for_empty_executors:
  assumes "wf_map cur"
  shows "\<exists>b cur'. assignShardsToEmptyExecutors cur = Some (b, cur') \<and> mkeys cur' = mkeys cur
    \<and> all_shards cur' = all_shards cur
    \<and> b = (empty_executors cur \<noteq> [] \<and> donor_executors cur \<noteq> [])
    \<and> (mhas cur e \<and> slice cur e = [] \<longrightarrow> length (slice cur' e) = (if b then stolen_each cur else 0))"
  using assignShardsToEmptyExecutors_ok [OF assms] by (auto simp: empty_executors_def mhas_mkeys)

theorem steal_for_empty_executors_witness:
  "\<exists>b cur'. assignShardsToEmptyExecutors [(''a'', [''0'', ''1'', ''2'']), (''b'', [])] = Some (b, cur')
     \<and> length (slice cur' ''b'') = 1"
proof -
  let ?cur = "[(''a'', [''0'', ''1'', ''2'']), (''b'', [])] :: assignments"
  have "wf_map ?cur" by (simp add: wf_map_def)
  from steal_for_empty_executors [OF this, of "''b''"] obtain b cur' where
    run: "assignShardsToEmptyExecutors ?cur = Some (b, cur')"
    and b: "b = (empty_executors ?cur \<noteq> [] \<and> donor_executors ?cur \<noteq> [])"
    and len: "mhas ?cur ''b'' \<and> slice ?cur ''b'' = [] \<longrightarrow>
      length (slice cur' ''b'') = (if b then stolen_each ?cur else 0)" by (elim exE conjE)
  have ev: "empty_executors ?cur = [''b'']" "donor_executors ?cur = [''a'']" "stolen_each ?cur = 1"
    "mhas ?cur ''b''" "slice ?cur ''b'' = []" by code_simp+
  have "b" using b by (simp add: ev(1,2))
  then have "length (slice cur' ''b'') = 1" using len by (simp only: ev simp_thms if_True)
  with run show ?thesis by (intro exI conjI)
qed


definition conflicting_store :: "(unit, unit) Store" where
  "conflicting_store =
     \<lparr>GetState = (\<lambda>_ _. Inr leader_state), AssignShards = (\<lambda>db _ _ _. (Inl ErrVersionConflict, db)),
      DeleteExecutors = (\<lambda>db _ _ _. (Inr (), db)), RecordShardStatisticsBatch = (\<lambda>db _ _. (Inr (), db)),
      DeleteShardStats = (\<lambda>db _ _ _. (Inr (), db))\<rparr>"


text \<open>
  C28. The clean-up of statistics never proposes a shard that a live active executor owns, that
  some executor still reports, or whose statistics were updated or moved within the heartbeat
  period; every other shard with statistics is proposed.
\<close>
theorem stale_shard_stats:
  assumes "is_order ord" and "wf_map (ShardStats st)"
  shows "s \<in> set (identifyStaleShardStats ord now ttl st) \<longleftrightarrow>
    (\<exists>stats. (s, stats) \<in> set (ShardStats st)
       \<and> \<not> (\<exists>e a h. (e, a) \<in> set (ShardAssignments st) \<and> mhas (AssignedShards a) s
              \<and> mget (Executors st) e = Some h \<and> hb_Status h = ExecutorStatusACTIVE
              \<and> time_Sub now (LastHeartbeat h) \<le> ttl)
       \<and> \<not> (\<exists>e h r. (e, h) \<in> set (Executors st) \<and> (s, r) \<in> set (ReportedShards h)
              \<and> ssr_Status r \<noteq> ShardStatusDONE)
       \<and> \<not> (\<not> IsZero (LastUpdateTime stats) \<and> time_Sub now (LastUpdateTime stats) \<le> ttl)
       \<and> \<not> (\<not> IsZero (LastMoveTime stats) \<and> time_Sub now (LastMoveTime stats) \<le> ttl))"
proof -
  have "s \<in> set (identifyStaleShardStats ord now ttl st) \<longleftrightarrow>
    (\<exists>stats. (s, stats) \<in> set (ShardStats st) \<and> s \<notin> set (activeShards now ttl st)
       \<and> \<not> (\<not> IsZero (LastUpdateTime stats) \<and> time_Sub now (LastUpdateTime stats) \<le> ttl)
       \<and> \<not> (\<not> IsZero (LastMoveTime stats) \<and> time_Sub now (LastMoveTime stats) \<le> ttl))"
    unfolding identifyStaleShardStats_def
    by (auto simp: set_mrange [OF assms] image_iff split_paired_Ex Let_def)
  then show ?thesis unfolding set_activeShards by blast
qed

definition stats_state :: NamespaceState where
  "stats_state = leader_state\<lparr>ShardStats :=
     [(''9'', \<lparr>SmoothedLoad = 0, LastUpdateTime = 5, LastMoveTime = 0\<rparr>)]\<rparr>"

theorem stale_shard_stats_witness: "''9'' \<in> set (identifyStaleShardStats (\<lambda>xs. xs) 1000 100 stats_state)"
proof -
  have "is_order (\<lambda>xs. xs)" "wf_map (ShardStats stats_state)" by (simp_all add: stats_state_def wf_map_def)
  from stale_shard_stats [OF this, of "''9''" 1000 100] show ?thesis
    by (auto simp: stats_state_def leader_state_def owns_def leader_heartbeat_def example_heartbeat_def
        time_Sub_def minDuration_def maxDuration_def)
qed

text \<open>The owners counted so far, while the loops run over a list of executors and shards.\<close>

definition count_owner ::
    "string \<times> string \<Rightarrow> (string, string list) gomap \<times> nat \<times> string list
      \<Rightarrow> (string, string list) gomap \<times> nat \<times> string list" where
  "count_owner = (\<lambda>(executorID, shardID) (shardToExecutors, maxOwners, errorShards).
     let shardToExecutors = mput shardID (slice shardToExecutors shardID @ [executorID]) shardToExecutors;
         count = length (slice shardToExecutors shardID)
     in (shardToExecutors, if maxOwners < count then count else maxOwners,
         if count = 2 then errorShards @ [shardID] else errorShards))"

lemma countOwners_flat:
  "countOwners m = fold count_owner
     (concat (map (\<lambda>(e, a). map (Pair e) (mkeys (AssignedShards a))) m)) ([], 0, [])"
proof -
  have nested: "fold (\<lambda>x. fold f (g x)) xs acc = fold f (concat (map g xs)) acc"
    for f :: "string \<times> string \<Rightarrow> 'b \<Rightarrow> 'b" and g :: "'a \<Rightarrow> _" and xs acc
    by (induction xs arbitrary: acc) simp_all
  have "(\<lambda>(e, a). fold count_owner (map (Pair e) (mkeys (AssignedShards a))))
    = (\<lambda>x. fold count_owner ((\<lambda>(e, a). map (Pair e) (mkeys (AssignedShards a))) x))"
    by (simp add: fun_eq_iff)
  note flat = nested [of count_owner "\<lambda>(e, a). map (Pair e) (mkeys (AssignedShards a))", folded this]
  show ?thesis
    unfolding flat [symmetric] countOwners_def
    by (simp only: fold_map comp_def count_owner_def prod.case)
qed

lemma fold_count_owner:
  "case fold count_owner xs ([], 0, []) of (owners, most, shared) \<Rightarrow>
     (\<forall>s. length (slice owners s) = count_list (map snd xs) s)
     \<and> (most \<le> 1 \<longleftrightarrow> distinct (map snd xs)) \<and> (shared = [] \<longleftrightarrow> distinct (map snd xs))"
proof (induction xs rule: rev_induct)
  case Nil
  then show ?case by (simp add: mzero_def)
next
  case (snoc x xs)
  obtain e s where x: "x = (e, s)" by force
  obtain owners most shared where acc: "fold count_owner xs ([], 0, []) = (owners, most, shared)"
    by (cases "fold count_owner xs ([], 0, [])") simp
  have IH: "\<And>s. length (slice owners s) = count_list (map snd xs) s"
    "most \<le> 1 \<longleftrightarrow> distinct (map snd xs)" "shared = [] \<longleftrightarrow> distinct (map snd xs)"
    using snoc.IH unfolding acc by auto
  have "count_list (map snd xs) s = 0 \<longleftrightarrow> s \<notin> set (map snd xs)" by (simp add: count_list_0_iff)
  moreover have "count_list (map snd xs) s \<le> 1" if "distinct (map snd xs)"
    using that by (simp add: distinct_count_atmost_1 flip: count_mset)
  moreover have "fold count_owner (xs @ [x]) ([], 0, []) =
      (mput s (slice owners s @ [e]) owners, max most (Suc (count_list (map snd xs) s)),
       if count_list (map snd xs) s = 1 then shared @ [s] else shared)"
    unfolding fold_append comp_apply acc x by (simp add: count_owner_def IH(1) Let_def mzero_mput max_def)
  ultimately show ?case
    unfolding x by (auto simp: IH(1,3) IH(2) [unfolded One_nat_def] mzero_mput)
qed

text \<open>
  The count of owners that is logged as an error and published as a gauge is exact: the
  largest number of owners is at most one, and no shard is reported, exactly when no shard has
  two owners.
\<close>
theorem owners_metric_exact:
  "(fst (snd (countOwners m)) \<le> 1 \<longleftrightarrow> single_owner m) \<and> (snd (snd (countOwners m)) = [] \<longleftrightarrow> single_owner m)"
proof -
  let ?xs = "concat (map (\<lambda>(e, a). map (Pair e) (mkeys (AssignedShards a))) m)"
  have "map snd ?xs = concat (map (\<lambda>(_, a). mkeys (AssignedShards a)) m)"
    by (induction m) (auto simp: comp_def)
  then show ?thesis
    using fold_count_owner [of ?xs] by (simp add: countOwners_flat single_owner_def split_beta)
qed

end
