(* ===== verification/StoreRefinement.thy ===== *)
theory StoreRefinement
  imports EtcdStore Distribution
begin

text \<open>
  Correctness of the store on etcd (\<open>EtcdStore\<close>), for every client that satisfies
  \<open>etcd_client\<close> and every codec that satisfies \<open>codec_laws\<close>: what is read is what is stored,
  what is stored by an operation, and the rebalance of \<open>Processor\<close> run on this store.
\<close>

section \<open>Reading what is stored\<close>

text \<open>The value of a key decodes, whatever the executor's data is.\<close>

definition readable_kv :: "'v Codec \<Rightarrow> string \<Rightarrow> string \<Rightarrow> 'v KeyValue \<Rightarrow> bool" where
  "readable_kv K pre ns kv =
     (case ParseExecutorKey pre ns (kv_Key kv) of
        Inl _ \<Rightarrow> False
      | Inr (e, t) \<Rightarrow>
          (case parse_executor_value K pre ns e t kv newParsedExecutorData of
             Some (Inl _) \<Rightarrow> False | _ \<Rightarrow> True))"

lemma wrap_simps [simp]: "wrap msg (Inl e) f = Inl (Errorf msg e)" "wrap msg (Inr x) f = Inr (f x)"
  by (simp_all add: wrap_def)

lemma wrap_Inr: "wrap msg r f = Inr y \<longleftrightarrow> (\<exists>x. r = Inr x \<and> y = f x)"
  by (cases r) auto

lemma wrap_Inl: "wrap msg r f = Inl e \<longleftrightarrow> (\<exists>e'. r = Inl e' \<and> e = Errorf msg e')"
  by (cases r) auto

lemmas key_types = key_type_defs

text \<open>Whether a value decodes does not depend on the data it is stored into.\<close>

lemma parse_value_error:
  "parse_executor_value K pre ns e t kv d = Some (Inl x) \<longleftrightarrow>
     parse_executor_value K pre ns e t kv d' = Some (Inl x)"
  by (auto simp: parse_executor_value_def wrap_Inl Let_def)

lemma parse_value_skip:
  "parse_executor_value K pre ns e t kv d = None \<longleftrightarrow> parse_executor_value K pre ns e t kv d' = None"
  by (auto simp: parse_executor_value_def Let_def)

lemma ParseExecutorKVs_loop_Inr:
  "(\<exists>data'. ParseExecutorKVs_loop K pre ns kvs data = Inr data') \<longleftrightarrow> list_all (readable_kv K pre ns) kvs"
proof (induction kvs arbitrary: data)
  case (Cons kv kvs)
  show ?case
  proof (cases "ParseExecutorKey pre ns (kv_Key kv)")
    case (Inl e)
    then show ?thesis by (simp add: readable_kv_def)
  next
    case (Inr et)
    obtain e t where et: "et = (e, t)" by force
    let ?p = "parse_executor_value K pre ns e t kv"
    show ?thesis
    proof (cases "?p (mzero newParsedExecutorData data e)")
      case None
      moreover from None have "?p newParsedExecutorData = None" using parse_value_skip by metis
      ultimately show ?thesis using Cons Inr by (simp add: et readable_kv_def)
    next
      case (Some r)
      show ?thesis
      proof (cases r)
        case (Inl x)
        moreover from Inl Some have "?p newParsedExecutorData = Some (Inl x)" using parse_value_error by metis
        ultimately show ?thesis using Some \<open>ParseExecutorKey pre ns (kv_Key kv) = Inr et\<close>
          by (simp add: et readable_kv_def)
      next
        case (Inr d)
        moreover from Inr Some have "\<nexists>x. ?p newParsedExecutorData = Some (Inl x)"
          using parse_value_error by (metis Inl_Inr_False option.inject)
        ultimately show ?thesis
          using Some Cons \<open>ParseExecutorKey pre ns (kv_Key kv) = Inr et\<close>
          by (auto simp: et readable_kv_def split: option.splits sum.splits)
      qed
    qed
  qed
qed simp

text \<open>
  A field of the parsed data that only the key type \<open>t\<close> sets: after the loop it has the value of
  that key, or the value it had before when there is no such key.
\<close>

lemma parsed_field:
  assumes other: "\<And>e' t' kv d d'. t' \<noteq> t \<Longrightarrow> parse_executor_value K pre ns e' t' kv d = Some (Inr d') \<Longrightarrow> sel d' = sel d"
    and own: "\<And>kv d d'. parse_executor_value K pre ns e t kv d = Some (Inr d') \<Longrightarrow> sel d' = val kv"
    and known: "\<And>kv d. parse_executor_value K pre ns e t kv d \<noteq> None"
    and slash: "CHR ''/'' \<notin> set e" "CHR ''/'' \<notin> set t" and meta: "t \<noteq> ExecutorMetadataKey"
  shows "ParseExecutorKVs_loop K pre ns kvs data = Inr data' \<Longrightarrow> distinct (map kv_Key kvs) \<Longrightarrow>
    sel (mzero newParsedExecutorData data' e) =
      (case find (\<lambda>kv. kv_Key kv = BuildExecutorKey pre ns e t) kvs of
         None \<Rightarrow> sel (mzero newParsedExecutorData data e) | Some kv \<Rightarrow> val kv)"
proof (induction kvs arbitrary: data)
  case (Cons kv kvs)
  from Cons.prems(1) obtain e' t' where k: "ParseExecutorKey pre ns (kv_Key kv) = Inr (e', t')"
    by (cases "ParseExecutorKey pre ns (kv_Key kv)") auto
  let ?d = "mzero newParsedExecutorData data e'"
  have key: "kv_Key kv = BuildExecutorKey pre ns e t \<longleftrightarrow> e' = e \<and> t' = t"
  proof
    assume "kv_Key kv = BuildExecutorKey pre ns e t"
    then have "ParseExecutorKey pre ns (kv_Key kv) = Inr (e, t)"
      using slash by (simp add: ParseExecutorKey_iff)
    with k show "e' = e \<and> t' = t" by simp
  next
    assume "e' = e \<and> t' = t"
    with k meta show "kv_Key kv = BuildExecutorKey pre ns e t" by (simp add: ParseExecutorKey_iff)
  qed
  show ?case
  proof (cases "parse_executor_value K pre ns e' t' kv ?d")
    case None
    then have "\<not> (e' = e \<and> t' = t)" using known [of kv ?d] by auto
    then show ?thesis using Cons None k key by auto
  next
    case (Some r)
    then obtain d' where d': "r = Inr d'" using Cons.prems(1) k by (cases r) auto
    have step: "ParseExecutorKVs_loop K pre ns kvs (mput e' d' data) = Inr data'"
      using Cons.prems(1) k Some d' by simp
    show ?thesis
    proof (cases "e' = e \<and> t' = t")
      case True
      then have "find (\<lambda>kv. kv_Key kv = BuildExecutorKey pre ns e t) kvs = None"
        using Cons.prems(2) key by (force simp: find_None_iff)
      then show ?thesis
        using Cons.IH [OF step] Cons.prems(2) True key own Some d' by (simp add: mzero_mput)
    next
      case False
      have "sel (mzero newParsedExecutorData (mput e' d' data) e) = sel (mzero newParsedExecutorData data e)"
        using False other [of t' e' kv ?d d'] Some d' own [of kv ?d d'] by (auto simp: mzero_mput)
      then show ?thesis using Cons.IH [OF step] Cons.prems(2) False key by (auto split: option.splits)
    qed
  qed
qed simp

lemma wf_ParseExecutorKVs_loop: "ParseExecutorKVs_loop K pre ns kvs data = Inr data' \<Longrightarrow> wf_map data \<Longrightarrow> wf_map data'"
  by (induction K pre ns kvs data rule: ParseExecutorKVs_loop.induct) (auto split: sum.splits prod.splits option.splits)

text \<open>The assignment record of an executor, as stored.\<close>

definition decode_assigned :: "'v Codec \<Rightarrow> 'v \<Rightarrow> int \<Rightarrow> AssignedState option" where
  "decode_assigned K v r =
     (case DecompressAndUnmarshal K (unmarshal_AssignedState K) v of
        Inl _ \<Rightarrow> None
      | Inr a \<Rightarrow> Some (ToAssignedState (a\<lparr>ModRevision := r\<rparr>)))"

definition assigned_key :: "string \<Rightarrow> string \<Rightarrow> string \<Rightarrow> string" where
  "assigned_key pre ns e = BuildExecutorKey pre ns e ExecutorAssignedStateKey"

definition stored_assignment ::
    "'v Codec \<Rightarrow> string \<Rightarrow> string \<Rightarrow> 'v kvs \<Rightarrow> string \<Rightarrow> AssignedState option" where
  "stored_assignment K pre ns m e =
     (case mget m (assigned_key pre ns e) of None \<Rightarrow> None | Some (v, r) \<Rightarrow> decode_assigned K v r)"

lemma find_range_prefix:
  assumes "wf_map m" "prefix p k"
  shows "find (\<lambda>kv. kv_Key kv = k) (range_prefix p m) =
    map_option (\<lambda>(v, r). \<lparr>kv_Key = k, kv_Value = v, kv_ModRevision = r\<rparr>) (mget m k)"
proof (cases "mget m k")
  case None
  then have "k \<notin> fst ` set m" by (simp add: map_of_eq_None_iff)
  then show ?thesis using None by (auto simp: find_None_iff range_prefix_def rev_image_eqI)
next
  case (Some vr)
  obtain v r where vr: "vr = (v, r)" by force
  let ?kv = "\<lparr>kv_Key = k, kv_Value = v, kv_ModRevision = r\<rparr>"
  have "(k, v, r) \<in> set m" using Some vr map_of_SomeD by fastforce
  then have "?kv \<in> set (range_prefix p m)" using assms(2) by (force simp: range_prefix_def)
  then have "find (\<lambda>kv. kv_Key kv = k) (range_prefix p m) \<noteq> None" by (auto simp: find_None_iff)
  then obtain kv where kv: "find (\<lambda>kv. kv_Key kv = k) (range_prefix p m) = Some kv" by auto
  then have "kv \<in> set (range_prefix p m)" "kv_Key kv = k"
    by (auto simp: find_Some_iff)
  then obtain v' r' where "(k, v', r') \<in> set m" "kv = \<lparr>kv_Key = k, kv_Value = v', kv_ModRevision = r'\<rparr>"
    by (auto simp: range_prefix_def)
  then show ?thesis using assms(1) Some vr kv by (auto simp: mget_eq_iff [symmetric])
qed

lemma distinct_range_prefix: "wf_map m \<Longrightarrow> distinct (map kv_Key (range_prefix p m))"
proof -
  assume "wf_map m"
  have "map kv_Key (range_prefix p m) = map fst (sort_key fst (filter (\<lambda>(k, _). prefix p k) m))"
    by (simp add: range_prefix_def comp_def split_beta)
  moreover have "mset (map fst (sort_key fst (filter (\<lambda>(k, _). prefix p k) m))) =
      mset (map fst (filter (\<lambda>(k, _). prefix p k) m))" by simp
  ultimately show ?thesis
    using \<open>wf_map m\<close> by (metis distinct_map_filter mset_eq_imp_distinct_iff wf_map_def)
qed

lemma set_range_prefix:
  "kv \<in> set (range_prefix p m) \<longleftrightarrow> prefix p (kv_Key kv) \<and> (kv_Key kv, kv_Value kv, kv_ModRevision kv) \<in> set m"
  by (cases kv) (force simp: range_prefix_def)

lemma assigned_key_prefix: "prefix (BuildExecutorsPrefix pre ns) (assigned_key pre ns e)"
  using namespace_prefix_of(4,5) prefix_order.trans unfolding assigned_key_def by blast

lemma slash_key_types [simp]:
  "CHR ''/'' \<notin> set ExecutorAssignedStateKey" "CHR ''/'' \<notin> set ExecutorHeartbeatKey"
  "CHR ''/'' \<notin> set ExecutorStatusKey" "CHR ''/'' \<notin> set ExecutorReportedShardsKey"
  "CHR ''/'' \<notin> set ExecutorShardStatisticsKey" "CHR ''/'' \<notin> set ExecutorHostMetadataKey"
  "CHR ''/'' \<notin> set ExecutorMetadataKey"
  by (simp_all add: key_types)

text \<open>An executor's parsed assignment is the stored one.\<close>

lemma parsed_assignment:
  assumes parse: "ParseExecutorKVs K pre ns (range_prefix p m) = Inr data" and wf: "wf_map m"
    and e: "CHR ''/'' \<notin> set e" and p: "prefix p (assigned_key pre ns e)"
  shows "map_option ToAssignedState (pd_AssignedState (mzero newParsedExecutorData data e)) =
    stored_assignment K pre ns m e"
proof -
  let ?val = "\<lambda>kv. case DecompressAndUnmarshal K (unmarshal_AssignedState K) (kv_Value kv) of
      Inl _ \<Rightarrow> None | Inr a \<Rightarrow> Some (a\<lparr>ModRevision := kv_ModRevision kv\<rparr>)"
  have "pd_AssignedState (mzero newParsedExecutorData data e) =
      (case find (\<lambda>kv. kv_Key kv = BuildExecutorKey pre ns e ExecutorAssignedStateKey) (range_prefix p m) of
         None \<Rightarrow> pd_AssignedState (mzero newParsedExecutorData [] e) | Some kv \<Rightarrow> ?val kv)"
    by (rule parsed_field [where sel = pd_AssignedState and t = ExecutorAssignedStateKey,
          OF _ _ _ e _ _ parse [unfolded ParseExecutorKVs_def] distinct_range_prefix [OF wf]])
       (auto simp: parse_executor_value_def wrap_Inr Let_def key_types split: if_splits)
  then show ?thesis
    using find_range_prefix [OF wf p]
    by (auto simp: stored_assignment_def decode_assigned_def assigned_key_def newParsedExecutorData_def mzero_def
        split: option.splits sum.splits)
qed

text \<open>Executor IDs that are read have no slash.\<close>

lemma parsed_slash_free:
  "ParseExecutorKVs_loop K pre ns kvs data = Inr data' \<Longrightarrow> \<forall>e. mhas data e \<longrightarrow> CHR ''/'' \<notin> set e \<Longrightarrow>
     mhas data' e \<Longrightarrow> CHR ''/'' \<notin> set e"
proof (induction kvs arbitrary: data)
  case (Cons kv kvs)
  from Cons.prems(1) obtain e' t' where k: "ParseExecutorKey pre ns (kv_Key kv) = Inr (e', t')"
    by (cases "ParseExecutorKey pre ns (kv_Key kv)") auto
  then have "CHR ''/'' \<notin> set e'" by (simp add: ParseExecutorKey_iff)
  then have "\<forall>e. mhas (mput e' d data) e \<longrightarrow> CHR ''/'' \<notin> set e" for d using Cons.prems(2) by simp
  then show ?case using Cons k by (auto split: option.splits sum.splits)
qed simp

lemma wf_decode_assigned: "DecompressAndUnmarshal K (unmarshal_AssignedState K) v = Inr a \<Longrightarrow> wf_assigned a"
  by (auto simp: DecompressAndUnmarshal_def unmarshal_AssignedState_def unmarshal_field_def bind_result_Inr
      wf_assigned_def dest!: wf_unmarshal_map split: sum.splits option.splits)

lemma wf_ToAssignedState: "wf_assigned a \<Longrightarrow> wf_assigned (ToAssignedState a)"
  by (simp add: state_conversions_id)

text \<open>What every parsed record satisfies.\<close>

definition wf_parsed :: "ParsedExecutorData \<Rightarrow> bool" where
  "wf_parsed d = (wf_map (pd_ReportedShards d) \<and> wf_map (pd_Metadata d) \<and> wf_map (pd_Statistics d)
     \<and> (case pd_AssignedState d of None \<Rightarrow> True | Some a \<Rightarrow> wf_assigned a))"

lemma wf_parse_value: "parse_executor_value K pre ns e t kv d = Some (Inr d') \<Longrightarrow> wf_parsed d \<Longrightarrow> wf_parsed d'"
  by (auto simp: parse_executor_value_def wrap_Inr Let_def wf_parsed_def unmarshal_ReportedShards_def
      unmarshal_Statistics_def DecompressAndUnmarshal_def bind_result_Inr
      split: if_splits sum.splits dest!: wf_unmarshal_map)
     (auto simp: DecompressAndUnmarshal_def unmarshal_AssignedState_def unmarshal_field_def bind_result_Inr
      wf_assigned_def dest!: wf_unmarshal_map split: sum.splits option.splits)

lemma wf_parsed_new: "wf_parsed newParsedExecutorData"
  by (simp add: wf_parsed_def newParsedExecutorData_def)

lemma list_all_mput: "P (k, v) \<Longrightarrow> list_all P m \<Longrightarrow> list_all P (mput k v m)"
  by (induction m) auto

lemma wf_parsed_loop:
  "ParseExecutorKVs_loop K pre ns kvs data = Inr data' \<Longrightarrow> list_all (\<lambda>(_, d). wf_parsed d) data \<Longrightarrow>
     list_all (\<lambda>(_, d). wf_parsed d) data'"
proof (induction kvs arbitrary: data)
  case (Cons kv kvs)
  from Cons.prems(1) obtain e t where k: "ParseExecutorKey pre ns (kv_Key kv) = Inr (e, t)"
    by (cases "ParseExecutorKey pre ns (kv_Key kv)") auto
  have "wf_parsed (mzero newParsedExecutorData data e)"
    using Cons.prems(2) wf_parsed_new by (auto simp: mzero_def list_all_iff split: option.splits dest: map_of_SomeD)
  then have "list_all (\<lambda>(_, d). wf_parsed d) (mput e d data)"
    if "parse_executor_value K pre ns e t kv (mzero newParsedExecutorData data e) = Some (Inr d)" for d
    using list_all_mput [OF _ Cons.prems(2)] wf_parse_value [OF that] by simp
  then show ?case using Cons k by (auto split: option.splits sum.splits)
qed simp

lemma distinct_parseDrainedShardKVs: "distinct (parseDrainedShardKVs pre ns kvs)"
proof -
  have "distinct acc \<Longrightarrow> distinct (fold (\<lambda>kv drained.
      (case ParseDrainedShardKey pre ns (kv_Key kv) of Inl _ \<Rightarrow> drained
       | Inr shardID \<Rightarrow> List.insert shardID drained)) kvs acc)" for acc
    by (induction kvs arbitrary: acc) (auto split: sum.splits)
  then show ?thesis by (simp add: parseDrainedShardKVs_def)
qed

lemma wf_parseDrainedHostKVs: "wf_map (parseDrainedHostKVs K pre ns kvs)"
proof -
  have loop: "wf_map acc \<Longrightarrow> wf_map (fold (\<lambda>kv drained. (case ParseDrainedHostKey pre ns (kv_Key kv) of
       Inl _ \<Rightarrow> drained | Inr hostname \<Rightarrow> mput hostname (f kv hostname) drained)) kvs acc)" for acc f
    by (induction kvs arbitrary: acc) (auto split: sum.splits)
  show ?thesis unfolding parseDrainedHostKVs_def Let_def by (rule loop [OF wf_map_Nil])
qed

lemma wf_namespaceState_of:
  assumes "wf_map data" "list_all (\<lambda>(_, d). wf_parsed d) data" "distinct ds" "wf_map hs"
  shows "wf_state (namespaceState_of ord data ds hs r)"
proof -
  let ?st = "namespaceState_of ord data ds hs r"
  have d: "wf_parsed d" if "mget data e = Some d" for e d
    using assms(2) map_of_SomeD [OF that] by (auto simp: list_all_iff)
  have wfs: "wf_map (ShardAssignments ?st)" "wf_map (Executors ?st)" "wf_map (ExecutorMetadata ?st)"
    by (simp_all add: namespaceState_of_def)
  have "wf_assigned a" if "(e, a) \<in> set (ShardAssignments ?st)" for e a
  proof -
    have "mget (ShardAssignments ?st) e = Some a" using that wfs(1) by (simp add: mget_eq_iff)
    then obtain d x where "mget data e = Some d" "pd_AssignedState d = Some x" "a = ToAssignedState x"
      by (auto simp: namespaceState_of_def mget_store_loop [OF assms(1)] split: option.splits)
    then show ?thesis using d [of e d] by (simp add: wf_parsed_def wf_ToAssignedState)
  qed
  moreover have "wf_map (ReportedShards h)" if "(e, h) \<in> set (Executors ?st)" for e h
  proof -
    have "mget (Executors ?st) e = Some h" using that wfs(2) by (simp add: mget_eq_iff)
    then show ?thesis
      using d by (auto simp: namespaceState_of_def mget_store_loop [OF assms(1)] wf_parsed_def
          heartbeatFromParsed_def split: option.splits)
  qed
  moreover have "wf_map (ShardStats ?st)"
  proof -
    have inner: "wf_map acc \<Longrightarrow> wf_map (fold (\<lambda>(k, x) m. mput k x m) xs acc)"
      for xs :: "(string, ShardStatistics) gomap" and acc
      by (induction xs arbitrary: acc) auto
    have "wf_map acc \<Longrightarrow> wf_map (fold (\<lambda>(_, d) shardStats. fold (\<lambda>(shardID, statistics) shardStats.
        mput shardID (ToShardStatistics statistics) shardStats) (pd_Statistics d) shardStats) ys acc)"
      for ys :: "(string \<times> ParsedExecutorData) list" and acc
      by (induction ys arbitrary: acc) (auto intro: inner)
    then show ?thesis by (simp add: namespaceState_of_def)
  qed
  ultimately show ?thesis
    using wfs assms(3,4) by (auto simp: wf_state_def list_all_iff) (simp_all add: namespaceState_of_def)
qed

lemma etcd_collapse [simp]: "\<lparr>et_kvs = et_kvs x, et_revision = et_revision x\<rparr> = x"
  by (cases x) simp

text \<open>A store together with the laws of its client and codec.\<close>

locale etcd_backed = etcd_client C view + codec_laws K
  for C :: "('db, 'v) Client" and view :: "'db \<Rightarrow> 'v etcd" and K :: "'v Codec" +
  fixes s :: "('db, 'v) executorStoreImpl"
  assumes client [simp]: "st_client s = C" and codec [simp]: "st_codec s = K"
begin

abbreviation kvs :: "'db \<Rightarrow> 'v kvs" where
  "kvs db \<equiv> et_kvs (view db)"

lemma wf_kvs: "wf_map (kvs db)"
  using view_wf by (simp add: wf_etcd_def)

lemma GetState_read:
  assumes "etcd_GetState ord s db ns = (Inr st, db')"
  obtains data where "ParseExecutorKVs K (st_prefix s) ns
      (range_prefix (BuildExecutorsPrefix (st_prefix s) ns) (kvs db)) = Inr data"
    and "st = namespaceState_of ord data
      (parseDrainedShardKVs (st_prefix s) ns (range_prefix (BuildDrainedShardsPrefix (st_prefix s) ns) (kvs db)))
      (parseDrainedHostKVs K (st_prefix s) ns (range_prefix (BuildDrainedHostsPrefix (st_prefix s) ns) (kvs db)))
      (et_revision (view db))"
    and "view db' = view db"
proof -
  obtain r db\<^sub>1 where c: "Commit C (GetState_txn s ns) db = (r, db\<^sub>1)" by force
  show thesis
  proof (cases r)
    case (Inl e)
    then show thesis using assms c by (simp add: etcd_GetState_def)
  next
    case (Inr resp)
    have run: "run_txn (GetState_txn s ns) (view db) = (resp, view db\<^sub>1)" using commit_done c Inr by simp
    then have "resp = \<lparr>Succeeded = True, Responses =
         [ResponseRange (range_prefix (BuildExecutorsPrefix (st_prefix s) ns) (kvs db)),
          ResponseRange (range_prefix (BuildDrainedShardsPrefix (st_prefix s) ns) (kvs db)),
          ResponseRange (range_prefix (BuildDrainedHostsPrefix (st_prefix s) ns) (kvs db))],
         HeaderRevision = et_revision (view db)\<rparr>" and v: "view db\<^sub>1 = view db"
      by (auto simp: run_txn_def GetState_txn_def empty_Txn_def Let_def)
    then show thesis
      using assms c Inr that by (auto simp: etcd_GetState_def range_kvs_def split: sum.splits)
  qed
qed

lemma GetState_stored:
  assumes "etcd_GetState ord s db ns = (Inr st, db')"
  shows "wf_state st"
    and "CHR ''/'' \<notin> set e \<Longrightarrow> mget (ShardAssignments st) e = stored_assignment K (st_prefix s) ns (kvs db) e"
    and "mhas (Executors st) e \<or> mhas (ShardAssignments st) e \<Longrightarrow> CHR ''/'' \<notin> set e"
    and "view db' = view db"
proof -
  obtain data where data: "ParseExecutorKVs K (st_prefix s) ns
      (range_prefix (BuildExecutorsPrefix (st_prefix s) ns) (kvs db)) = Inr data"
    and st: "st = namespaceState_of ord data
      (parseDrainedShardKVs (st_prefix s) ns (range_prefix (BuildDrainedShardsPrefix (st_prefix s) ns) (kvs db)))
      (parseDrainedHostKVs K (st_prefix s) ns (range_prefix (BuildDrainedHostsPrefix (st_prefix s) ns) (kvs db)))
      (et_revision (view db))"
    and v: "view db' = view db"
    by (rule GetState_read [OF assms])
  note loop = data [unfolded ParseExecutorKVs_def]
  have wf: "wf_map data" using wf_ParseExecutorKVs_loop [OF loop] by simp
  show "wf_state st"
    unfolding st using wf wf_parsed_loop [OF loop]
    by (auto intro!: wf_namespaceState_of distinct_parseDrainedShardKVs wf_parseDrainedHostKVs)
  show "mget (ShardAssignments st) e = stored_assignment K (st_prefix s) ns (kvs db) e"
    if "CHR ''/'' \<notin> set e"
    using parsed_assignment [OF data wf_kvs that assigned_key_prefix]
    by (auto simp: st namespaceState_of_def mget_store_loop [OF wf] mzero_def newParsedExecutorData_def
        split: option.splits)
  show "CHR ''/'' \<notin> set e" if "mhas (Executors st) e \<or> mhas (ShardAssignments st) e"
  proof (rule parsed_slash_free [OF loop])
    show "mhas data e"
      using that by (auto simp: st namespaceState_of_def mhas_def mget_store_loop [OF wf] split: option.splits)
  qed simp
  show "view db' = view db" by (rule v)
qed

end

section \<open>Writing an assignment\<close>

text \<open>The value that is put for an assignment record.\<close>

definition encode_assigned :: "('db, 'v) executorStoreImpl \<Rightarrow> AssignedState \<Rightarrow> 'v" where
  "encode_assigned s a = projr (Write (st_codec s) (st_writer s)
     (json_print (st_codec s) (marshal_AssignedState (st_codec s) (FromAssignedState a))))"

definition is_changed :: "gostrset option \<Rightarrow> string \<Rightarrow> bool" where
  "is_changed changed e = (changed = None \<or> e \<in> set (the changed))"

lemma written_changed:
  "written req e \<longleftrightarrow> mhas (ShardAssignments (NewState req)) e \<and> is_changed (ChangedExecutors req) e"
  by (auto simp: written_def is_changed_def split: option.splits)

lemma assign_puts_Inr:
  assumes "assign_puts s ns changed states = Inr puts"
  shows "puts = map (\<lambda>(e, a). OpPut (assigned_key (st_prefix s) ns e) (encode_assigned s a))
      (filter (\<lambda>(e, _). is_changed changed e) states)"
    and "(e, a) \<in> set states \<Longrightarrow> is_changed changed e \<Longrightarrow>
      Write (st_codec s) (st_writer s) (json_print (st_codec s)
        (marshal_AssignedState (st_codec s) (FromAssignedState a))) = Inr (encode_assigned s a)"
proof -
  have "puts = map (\<lambda>(e, a). OpPut (assigned_key (st_prefix s) ns e) (encode_assigned s a))
      (filter (\<lambda>(e, _). is_changed changed e) states)
    \<and> (\<forall>(e, a) \<in> set states. is_changed changed e \<longrightarrow> Write (st_codec s) (st_writer s) (json_print (st_codec s)
        (marshal_AssignedState (st_codec s) (FromAssignedState a))) = Inr (encode_assigned s a))"
    using assms
  proof (induction states arbitrary: puts)
    case (Cons x states)
    obtain e a where x: "x = (e, a)" by force
    show ?case
    proof (cases "is_changed changed e")
      case False
      then show ?thesis using Cons by (auto simp: x is_changed_def)
    next
      case True
      then obtain w ops where "Write (st_codec s) (st_writer s) (json_print (st_codec s)
          (marshal_AssignedState (st_codec s) (FromAssignedState a))) = Inr w"
        "assign_puts s ns changed states = Inr ops"
        "puts = OpPut (assigned_key (st_prefix s) ns e) w # ops"
        using Cons.prems by (auto simp: x is_changed_def assigned_key_def split: if_splits sum.splits)
      moreover from this(1) have "encode_assigned s a = w" by (simp add: encode_assigned_def)
      ultimately show ?thesis using Cons.IH [of ops] True by (auto simp: x)
    qed
  qed simp
  then show "puts = map (\<lambda>(e, a). OpPut (assigned_key (st_prefix s) ns e) (encode_assigned s a))
      (filter (\<lambda>(e, _). is_changed changed e) states)"
    and "(e, a) \<in> set states \<Longrightarrow> is_changed changed e \<Longrightarrow>
      Write (st_codec s) (st_writer s) (json_print (st_codec s)
        (marshal_AssignedState (st_codec s) (FromAssignedState a))) = Inr (encode_assigned s a)"
    by auto
qed

lemma ops_effect_deletes:
  "ops_effect m\<^sub>0 r (map (\<lambda>(e, _). OpDeletePrefix (f e)) xs) k old =
     (if \<exists>e \<in> fst ` set xs. prefix (f e) k then None else old)"
  by (induction xs arbitrary: old) auto

lemma ops_effect_puts_other:
  "k \<notin> (\<lambda>(e, a). f e) ` set xs \<Longrightarrow> ops_effect m\<^sub>0 r (map (\<lambda>(e, a). OpPut (f e) (g a)) xs) k old = old"
  by (induction xs) auto

lemma ops_effect_puts:
  assumes "wf_map xs" "\<And>e'. e' \<in> set (mkeys xs) \<Longrightarrow> f e' = f e \<longleftrightarrow> e' = e"
  shows "ops_effect m\<^sub>0 r (map (\<lambda>(e, a). OpPut (f e) (g a)) xs) (f e) old =
    (case mget xs e of None \<Rightarrow> old | Some a \<Rightarrow> Some (g a, r))"
  using assms
proof (induction xs arbitrary: old)
  case (Cons x xs)
  obtain e' a where x: "x = (e', a)" by force
  have IH: "ops_effect m\<^sub>0 r (map (\<lambda>(e, a). OpPut (f e) (g a)) xs) (f e) old =
      (case mget xs e of None \<Rightarrow> old | Some a \<Rightarrow> Some (g a, r))" for old
    using Cons by (simp add: x)
  show ?case
  proof (cases "e' = e")
    case True
    then have "mget xs e = None" using Cons.prems(1) by (simp add: x map_of_eq_None_iff)
    then show ?thesis using IH True by (simp add: x)
  next
    case False
    then have "f e' \<noteq> f e" using Cons.prems(2) [of e'] by (simp add: x)
    then show ?thesis using IH False by (simp add: x)
  qed
qed simp

lemma mget_filter_key: "mget (filter (\<lambda>(k, _). P k) m) k = (if P k then mget m k else None)"
  by (induction m) auto

lemma assigned_key_inj:
  "CHR ''/'' \<notin> set e \<Longrightarrow> CHR ''/'' \<notin> set e' \<Longrightarrow> assigned_key pre ns e = assigned_key pre ns e' \<longleftrightarrow> e = e'"
  using BuildExecutorKey_inj [of pre ns e ExecutorAssignedStateKey e' ExecutorAssignedStateKey]
  by (auto simp: assigned_key_def)

lemma assigned_key_not_version:
  "CHR ''/'' \<notin> set ns \<Longrightarrow> ns \<noteq> AssignmentVersionsDir \<Longrightarrow> assigned_key pre ns e \<noteq> BuildAssignmentVersionKey pre ns'"
  using version_key_outside [of ns pre ns'] namespace_prefix_of(1) [of pre ns] assigned_key_prefix [of pre ns e]
    prefix_order.trans by metis

text \<open>Requests whose records survive the trip to the store: IDs without slashes, times in range.\<close>

definition storable_request :: "AssignShardsRequest \<Rightarrow> bool" where
  "storable_request req =
     (wf_map (ShardAssignments (NewState req))
      \<and> list_all (\<lambda>(e, a). CHR ''/'' \<notin> set e \<and> wf_assigned a \<and> timely_assigned a) (ShardAssignments (NewState req))
      \<and> list_all (\<lambda>(e, _). CHR ''/'' \<notin> set e) (ExecutorsToDelete req))"

definition namespace_ok :: "string \<Rightarrow> bool" where
  "namespace_ok ns = (CHR ''/'' \<notin> set ns \<and> ns \<noteq> AssignmentVersionsDir)"

text \<open>What the transaction of \<open>AssignShards\<close> does when its conditions hold.\<close>

definition assign_applied ::
    "('db, 'v) executorStoreImpl \<Rightarrow> string \<Rightarrow> AssignShardsRequest \<Rightarrow> 'v etcd \<Rightarrow> 'v etcd \<Rightarrow> bool" where
  "assign_applied s ns req x y =
     (\<exists>puts. assign_puts s ns (ChangedExecutors req) (ShardAssignments (NewState req)) = Inr puts
        \<and> list_all (holds_cmp (et_kvs x)) (assign_comparisons s ns req)
        \<and> (\<forall>k. mget (et_kvs y) k = ops_effect (et_kvs x) (et_revision x + 1)
             (assign_deletes s ns req @ puts @ [touchAssignmentVersion s ns]) k (mget (et_kvs x) k)))"

context etcd_backed
begin

lemma AssignShards_done:
  assumes "etcd_AssignShards s db ns req guard = (Inr u, db')"
  obtains (no_ops) "db' = db" "ExecutorsToDelete req = []" "\<And>e. \<not> written req e"
  | (committed) puts t where
      "assign_puts s ns (ChangedExecutors req) (ShardAssignments (NewState req)) = Inr puts"
      "guard empty_Txn = Inr t" "list_all (holds_cmp (kvs db)) (If t)"
      "list_all (holds_cmp (kvs db)) (assign_comparisons s ns req)"
      "\<And>k. mget (kvs db') k = ops_effect (kvs db) (et_revision (view db) + 1)
         (assign_deletes s ns req @ puts @ [touchAssignmentVersion s ns]) k (mget (kvs db) k)"
proof -
  obtain puts where puts: "assign_puts s ns (ChangedExecutors req) (ShardAssignments (NewState req)) = Inr puts"
    using assms by (auto simp: etcd_AssignShards_def split: sum.splits)
  let ?ops = "assign_deletes s ns req @ puts"
  show thesis
  proof (cases "?ops = []")
    case True
    then have "filter (\<lambda>(e, _). is_changed (ChangedExecutors req) e) (ShardAssignments (NewState req)) = []"
      using assign_puts_Inr(1) [OF puts] by simp
    then have "\<not> written req e" for e
      by (auto simp: written_changed mhas_mkeys filter_empty_conv)
    moreover have "db' = db" "ExecutorsToDelete req = []"
      using assms True puts by (auto simp: etcd_AssignShards_def assign_deletes_def)
    ultimately show thesis using no_ops by blast
  next
    case False
    obtain t where t: "guard empty_Txn = Inr t"
      using assms puts False by (auto simp: etcd_AssignShards_def Let_def split: sum.splits if_splits)
    let ?nested = "OpTxn (assign_comparisons s ns req) (?ops @ [touchAssignmentVersion s ns]) (assign_opsElse s ns req)"
    let ?txn = "t\<lparr>Then := [?nested]\<rparr>"
    obtain r db\<^sub>1 where c: "Commit C ?txn db = (r, db\<^sub>1)" by force
    obtain resp rs where resp: "r = Inr resp" "Succeeded resp" "Responses resp = ResponseTxn True rs # tl (Responses resp)"
      and db': "db' = db\<^sub>1"
      using assms puts False t c
      by (auto simp: etcd_AssignShards_def Let_def split: sum.splits if_splits list.splits OpResponse.splits bool.splits)
    note run = commit_done [OF c [unfolded resp(1)]]
    have ok: "list_all (holds_cmp (kvs db)) (If t)" using run_txn_view(2) [OF run] resp(2) by simp
    then have cmps: "list_all (holds_cmp (kvs db)) (assign_comparisons s ns req)"
      using run resp(3) by (auto simp: run_txn_def Let_def split: prod.splits if_splits)
    have "mget (kvs db') k = ops_effect (kvs db) (et_revision (view db) + 1)
        (?ops @ [touchAssignmentVersion s ns]) k (mget (kvs db) k)" for k
      using run_txn_view(1) [OF run, of k] resp(2) cmps by (simp add: db')
    then show thesis using committed [OF puts t ok cmps] by simp
  qed
qed

lemma stored_encoded:
  assumes "assign_puts s ns changed states = Inr puts" "(e, a) \<in> set states" "is_changed changed e"
    and "wf_assigned a" "timely_assigned a"
  shows "decode_assigned K (encode_assigned s a) r = Some (a\<lparr>ModRevision := r\<rparr>)"
proof -
  have "DecompressAndUnmarshal K (unmarshal_AssignedState K) (encode_assigned s a) = Inr (a\<lparr>ModRevision := 0\<rparr>)"
    by (rule read_written [OF assign_puts_Inr(2) [OF assms(1-3), simplified]])
       (simp add: state_conversions_id assms(4,5) AssignedState_JSON)
  moreover have "wf_assigned (a\<lparr>ModRevision := r\<rparr>)" using assms(4) by (simp add: wf_assigned_def)
  ultimately show ?thesis by (simp add: decode_assigned_def state_conversions_id)
qed

lemma applied_stored:
  assumes applied: "assign_applied s ns req (view db) (view db')"
    and req: "storable_request req" and ns: "namespace_ok ns" and e: "CHR ''/'' \<notin> set e"
  shows "stored_assignment K (st_prefix s) ns (kvs db') e =
    assignment_after req (et_revision (view db) + 1) (stored_assignment K (st_prefix s) ns (kvs db)) e"
proof -
  obtain puts where puts: "assign_puts s ns (ChangedExecutors req) (ShardAssignments (NewState req)) = Inr puts"
    and eff: "\<And>k. mget (kvs db') k = ops_effect (kvs db) (et_revision (view db) + 1)
      (assign_deletes s ns req @ puts @ [touchAssignmentVersion s ns]) k (mget (kvs db) k)"
    using applied by (auto simp: assign_applied_def)
  let ?key = "assigned_key (st_prefix s) ns" and ?r = "et_revision (view db) + 1"
  let ?states = "ShardAssignments (NewState req)" and ?ch = "is_changed (ChangedExecutors req)"
  have slash: "CHR ''/'' \<notin> set e'" if "e' \<in> set (mkeys ?states) \<or> e' \<in> set (mkeys (ExecutorsToDelete req))" for e'
    using req that by (auto simp: storable_request_def list_all_iff)
  have wf: "wf_map ?states" using req by (simp add: storable_request_def)
  have del: "(\<exists>e' \<in> fst ` set (ExecutorsToDelete req). prefix (BuildExecutorIDPrefix (st_prefix s) ns e') (?key e)) \<longleftrightarrow>
      mhas (ExecutorsToDelete req) e"
  proof -
    have iff: "prefix (BuildExecutorIDPrefix (st_prefix s) ns e') (?key e) \<longleftrightarrow> e' = e"
      if "e' \<in> fst ` set (ExecutorsToDelete req)" for e'
      using executor_prefixes [OF _ namespace_prefix_of(5), of "st_prefix s" ns e' e ExecutorAssignedStateKey]
        namespace_prefix_of(5) slash [of e'] e that
      unfolding assigned_key_def by auto
    then have "(\<exists>e' \<in> fst ` set (ExecutorsToDelete req). prefix (BuildExecutorIDPrefix (st_prefix s) ns e') (?key e))
        \<longleftrightarrow> e \<in> fst ` set (ExecutorsToDelete req)"
      by blast
    then show ?thesis by (simp add: mhas_mkeys)
  qed
  have "mget (kvs db') (?key e) = ops_effect (kvs db) ?r puts (?key e)
      (if mhas (ExecutorsToDelete req) e then None else mget (kvs db) (?key e))"
    using eff [of "?key e"] assigned_key_not_version [of ns "st_prefix s" e ns] ns del
    by (simp add: assign_deletes_def ops_effect_deletes touchAssignmentVersion_def namespace_ok_def)
  also have "\<dots> = (if written req e then map_option (\<lambda>a. (encode_assigned s a, ?r)) (mget ?states e)
      else if mhas (ExecutorsToDelete req) e then None else mget (kvs db) (?key e))"
  proof -
    have "wf_map (filter (\<lambda>(e, _). ?ch e) ?states)"
      using wf by (simp add: wf_map_def distinct_map_filter)
    moreover have "mget (filter (\<lambda>(e, _). ?ch e) ?states) e = (if ?ch e then mget ?states e else None)"
      by (rule mget_filter_key)
    moreover have "?key e' = ?key e \<longleftrightarrow> e' = e" if "e' \<in> set (mkeys (filter (\<lambda>(e, _). ?ch e) ?states))" for e'
      using slash [of e'] e that by (subst assigned_key_inj) auto
    ultimately show ?thesis
      unfolding assign_puts_Inr(1) [OF puts]
      by (subst ops_effect_puts) (auto simp: written_changed mhas_def split: option.splits)
  qed
  finally have after: "mget (kvs db') (?key e) = \<dots>" .
  show ?thesis
  proof (cases "written req e")
    case True
    then obtain a where a: "mget ?states e = Some a" "?ch e" by (auto simp: written_changed mhas_def)
    then have "(e, a) \<in> set ?states" by (simp add: map_of_SomeD)
    then have "decode_assigned K (encode_assigned s a) ?r = Some (a\<lparr>ModRevision := ?r\<rparr>)"
      using stored_encoded [OF puts _ a(2)] req by (auto simp: storable_request_def list_all_iff)
    then show ?thesis using True a after by (simp add: stored_assignment_def assignment_after_def)
  next
    case False
    then show ?thesis using after by (simp add: stored_assignment_def assignment_after_def)
  qed
qed

lemma AssignShards_stored:
  assumes ok: "etcd_AssignShards s db ns req guard = (Inr u, db')"
    and "storable_request req" "namespace_ok ns" "CHR ''/'' \<notin> set e"
  shows "stored_assignment K (st_prefix s) ns (kvs db') e =
    assignment_after req (et_revision (view db) + 1) (stored_assignment K (st_prefix s) ns (kvs db)) e"
proof (cases rule: AssignShards_done [OF ok])
  case 1
  then show ?thesis by (simp add: assignment_after_def mhas_def)
next
  case (2 puts t)
  then have "assign_applied s ns req (view db) (view db')" by (auto simp: assign_applied_def)
  then show ?thesis by (rule applied_stored [OF _ assms(2-4)])
qed

end

section \<open>Histories\<close>

text \<open>What other clients can do: any sequence of transactions.\<close>

inductive etcd_history :: "'v etcd \<Rightarrow> 'v etcd \<Rightarrow> bool" where
  refl: "etcd_history x x"
| step: "etcd_history x y \<Longrightarrow> run_txn t y = (resp, z) \<Longrightarrow> etcd_history x z"

lemma history_wf: "etcd_history x y \<Longrightarrow> wf_etcd x \<Longrightarrow> wf_etcd y"
  by (induction rule: etcd_history.induct) (auto intro: wf_run_txn)

lemma history_revision: "etcd_history x y \<Longrightarrow> et_revision x \<le> et_revision y"
  by (induction rule: etcd_history.induct) (auto dest: run_txn_view(4))

lemma mod_revision_bounds:
  assumes "wf_etcd x"
  shows "mod_revision (et_kvs x) k \<le> et_revision x" and "mod_revision (et_kvs x) k = 0 \<longleftrightarrow> mget (et_kvs x) k = None"
  using assms by (auto simp: mod_revision_def wf_etcd_def list_all_iff split: option.splits dest!: map_of_SomeD)

text \<open>
  A key written after a snapshot has a revision above that of the snapshot, so a key with the
  revision it had in the snapshot has the value it had there.
\<close>

lemma history_changed:
  "etcd_history x y \<Longrightarrow> wf_etcd x \<Longrightarrow>
     mget (et_kvs y) k = mget (et_kvs x) k \<or> mget (et_kvs y) k = None \<or> et_revision x < mod_revision (et_kvs y) k"
proof (induction rule: etcd_history.induct)
  case (step x y t resp z)
  have "mget (et_kvs z) k = mget (et_kvs y) k \<or> mget (et_kvs z) k = None
      \<or> mod_revision (et_kvs z) k = et_revision y + 1"
  proof (cases "mget (et_kvs z) k")
    case (Some vr)
    then have "mget (et_kvs y) k = Some vr \<or> snd vr = et_revision y + 1"
      using run_txn_view(1) [OF step.hyps(2), of k] effect_revision(2) by (metis prod.collapse)
    then show ?thesis using Some by (auto simp: mod_revision_def split: prod.splits)
  qed simp
  moreover have "et_revision x \<le> et_revision y" by (rule history_revision [OF step.hyps(1)])
  ultimately show ?case using step by (auto simp: mod_revision_def)
qed simp

lemma history_same_revision:
  assumes "etcd_history x y" "wf_etcd x" "mod_revision (et_kvs y) k = mod_revision (et_kvs x) k"
  shows "mget (et_kvs y) k = mget (et_kvs x) k"
proof -
  have y: "wf_etcd y" by (rule history_wf [OF assms(1,2)])
  have "mget (et_kvs y) k = None \<longleftrightarrow> mget (et_kvs x) k = None"
    using mod_revision_bounds(2) [OF y, of k] mod_revision_bounds(2) [OF assms(2), of k] assms(3) by simp
  then show ?thesis
    using history_changed [OF assms(1,2), of k] mod_revision_bounds(1) [OF assms(2), of k] assms(3) by auto
qed

section \<open>A rebalance on the store\<close>

text \<open>Who owns a shard according to the store.\<close>

definition stored_owner :: "'v Codec \<Rightarrow> string \<Rightarrow> string \<Rightarrow> 'v kvs \<Rightarrow> string \<Rightarrow> string \<Rightarrow> bool" where
  "stored_owner K pre ns m e shard =
     (CHR ''/'' \<notin> set e
      \<and> (case stored_assignment K pre ns m e of None \<Rightarrow> False | Some a \<Rightarrow> mhas (AssignedShards a) shard))"

lemma shardSetsEqual_keys:
  assumes "shardSetsEqual a b" "wf_map a" "wf_map b"
  shows "mhas a k \<longleftrightarrow> mhas b k"
proof -
  have sub: "set (mkeys a) \<subseteq> set (mkeys b)"
    using assms(1) by (force simp: shardSetsEqual_def list_all_iff map_of_eq_None_iff split: if_splits option.splits
        dest: map_of_SomeD)
  moreover have "card (set (mkeys a)) = card (set (mkeys b))"
    using assms unfolding wf_map_def shardSetsEqual_def by (metis distinct_card length_map)
  ultimately have "set (mkeys a) = set (mkeys b)" by (simp add: card_subset_eq)
  then show ?thesis by (simp only: mhas_mkeys)
qed

context etcd_backed
begin

text \<open>The snapshot carries the revisions of the store.\<close>

lemma GetState_revision:
  assumes "etcd_GetState ord s db ns = (Inr st, db')" "CHR ''/'' \<notin> set e"
  shows "mod_revision (kvs db) (assigned_key (st_prefix s) ns e) =
    ModRevision (mzero zero_AssignedState (ShardAssignments st) e)"
proof -
  let ?key = "assigned_key (st_prefix s) ns e"
  obtain data where data: "ParseExecutorKVs K (st_prefix s) ns
      (range_prefix (BuildExecutorsPrefix (st_prefix s) ns) (kvs db)) = Inr data"
    by (rule GetState_read [OF assms(1)])
  then have read: "list_all (readable_kv K (st_prefix s) ns)
      (range_prefix (BuildExecutorsPrefix (st_prefix s) ns) (kvs db))"
    using ParseExecutorKVs_loop_Inr unfolding ParseExecutorKVs_def by blast
  have st: "mget (ShardAssignments st) e = stored_assignment K (st_prefix s) ns (kvs db) e"
    by (rule GetState_stored(2) [OF assms])
  show ?thesis
  proof (cases "mget (kvs db) ?key")
    case None
    then show ?thesis using st by (simp add: mod_revision_def stored_assignment_def mzero_def zero_AssignedState_def)
  next
    case (Some vr)
    obtain v r where vr: "vr = (v, r)" by force
    let ?kv = "\<lparr>kv_Key = ?key, kv_Value = v, kv_ModRevision = r\<rparr>"
    have "?kv \<in> set (range_prefix (BuildExecutorsPrefix (st_prefix s) ns) (kvs db))"
      using Some map_of_SomeD by (fastforce simp: set_range_prefix assigned_key_prefix vr)
    then have "readable_kv K (st_prefix s) ns ?kv" using read by (simp add: list_all_iff)
    moreover have "ParseExecutorKey (st_prefix s) ns ?key = Inr (e, ExecutorAssignedStateKey)"
      using assms(2) by (simp add: ParseExecutorKey_iff assigned_key_def)
    ultimately obtain a where "DecompressAndUnmarshal K (unmarshal_AssignedState K) v = Inr a"
      by (cases "DecompressAndUnmarshal K (unmarshal_AssignedState K) v")
         (auto simp: readable_kv_def parse_executor_value_def key_types)
    then show ?thesis
      using st Some by (simp add: vr mod_revision_def stored_assignment_def decode_assigned_def mzero_def ToAssignedState_def)
  qed
qed

text \<open>
  After a successful write of a good request, the shards stored for an executor are those the
  request gives it, provided that records which appeared since the snapshot hold no shard.
\<close>

lemma written_shards:
  assumes snap: "etcd_GetState ord s db ns = (Inr st, db\<^sub>0)"
    and hist: "etcd_history (view db) (view db\<^sub>1)"
    and wr: "etcd_AssignShards s db\<^sub>1 ns req guard = (Inr u, db\<^sub>2)"
    and good: "good_request st stale act A req" and req: "storable_request req" and ns: "namespace_ok ns"
    and some: "ExecutorsToDelete req \<noteq> [] \<or> (\<exists>e. written req e)"
    and new: "\<And>e a. CHR ''/'' \<notin> set e \<Longrightarrow> \<not> mhas (ShardAssignments (NewState req)) e \<Longrightarrow>
      \<not> mhas (ExecutorsToDelete req) e \<Longrightarrow> stored_assignment K (st_prefix s) ns (kvs db\<^sub>1) e = Some a \<Longrightarrow>
      AssignedShards a = []"
    and e: "CHR ''/'' \<notin> set e"
  shows "stored_owner K (st_prefix s) ns (kvs db\<^sub>2) e shard \<longleftrightarrow>
    (\<exists>a. mget (ShardAssignments (NewState req)) e = Some a \<and> mhas (AssignedShards a) shard)"
proof -
  let ?new = "ShardAssignments (NewState req)" and ?key = "assigned_key (st_prefix s) ns e"
  let ?old = "stored_assignment K (st_prefix s) ns (kvs db\<^sub>1) e"
  have after: "stored_assignment K (st_prefix s) ns (kvs db\<^sub>2) e =
      assignment_after req (et_revision (view db\<^sub>1) + 1) (stored_assignment K (st_prefix s) ns (kvs db\<^sub>1)) e"
    by (rule AssignShards_stored [OF wr req ns e])
  note g = good [unfolded good_request_def Let_def]
  show ?thesis
  proof (cases "mget ?new e")
    case None
    then have nw: "\<not> written req e" by (simp add: written_def mhas_def)
    have "AssignedShards a = []" if "\<not> mhas (ExecutorsToDelete req) e" "?old = Some a" for a
      using new [OF e _ that] None by (simp add: mhas_def)
    then show ?thesis
      using None nw e after by (auto simp: stored_owner_def assignment_after_def split: option.splits)
  next
    case (Some a)
    show ?thesis
    proof (cases "written req e")
      case True
      then show ?thesis using Some e after by (auto simp: stored_owner_def assignment_after_def)
    next
      case False
      have in_new: "(e, a) \<in> set ?new" using Some by (simp add: map_of_SomeD)
      have "set (mkeys ?new) \<inter> set (mkeys (ExecutorsToDelete req)) = {}" using g by blast
      then have nd: "\<not> mhas (ExecutorsToDelete req) e"
        using Some mget_in_mkeys [OF Some] unfolding mhas_mkeys by blast
      have rev: "ModRevision a = ModRevision (mzero zero_AssignedState (ShardAssignments st) e)"
        using g in_new by auto
      obtain old where old: "mget (ShardAssignments st) e = Some old"
        "shardSetsEqual (AssignedShards old) (AssignedShards a)"
        using g in_new False Some by (auto simp: written_def mhas_def)
      have "mod_revision (kvs db\<^sub>1) ?key = ModRevision a"
      proof (cases rule: AssignShards_done [OF wr])
        case 1
        then show ?thesis using some by blast
      next
        case (2 puts t)
        then have "holds_cmp (kvs db\<^sub>1) (CmpModRevision ?key (ModRevision a))"
          using in_new unfolding assign_comparisons_def list_all_iff assigned_key_def by force
        then show ?thesis by simp
      qed
      then have "mget (kvs db\<^sub>1) ?key = mget (kvs db) ?key"
        using history_same_revision [OF hist view_wf] GetState_revision [OF snap e] rev by simp
      then have "stored_assignment K (st_prefix s) ns (kvs db\<^sub>1) e = Some old"
        using GetState_stored(2) [OF snap e] old(1) by (simp add: stored_assignment_def)
      moreover have "wf_map (AssignedShards old)" "wf_map (AssignedShards a)"
        using GetState_stored(1) [OF snap] old(1) req in_new
        by (auto simp: wf_state_def storable_request_def wf_assigned_def list_all_iff dest: map_of_SomeD)
      ultimately show ?thesis
        using Some e after False nd shardSetsEqual_keys [OF old(2)]
        by (simp add: stored_owner_def assignment_after_def)
    qed
  qed
qed

end

section \<open>Properties\<close>

text \<open>
  C1. The leader's rebalance is safe on the store, whatever other processes do in between. When
  the write of a distribution computed from a snapshot succeeds in a fixed namespace, then from
  that moment every shard that is not drained has exactly one owner in the store, other shards
  have none, and every owner is assignable. The other processes may run any transactions
  between the snapshot and the write; the one thing excluded is a record that appeared since
  the snapshot for an executor the request does not mention and that already holds shards.
\<close>
theorem rebalance_write_single_owner:
  assumes "etcd_backed C view K s"
    and "etcd_GetState ord s db (Name ns) = (Inr st, db\<^sub>0)"
    and "computeDistribution \<omega> \<pi> i sd cfg ns t st = Distribute req owners"
    and "etcd_history (view db) (view db\<^sub>1)"
    and "etcd_AssignShards s db\<^sub>1 (Name ns) req guard = (Inr (), db\<^sub>2)"
    and "\<forall>i j. is_order (\<omega> i j)" and "\<forall>i j. is_order (\<pi> i j)" and "NsType ns = NamespaceTypeFixed"
    and "plan_safe \<pi> sd st {FormatInt k |k. k < nat (ShardNum ns) \<and> \<not> IsShardDrained st (FormatInt k)}"
    and "storable_request req" and "namespace_ok (Name ns)"
    and "ExecutorsToDelete req \<noteq> [] \<or> (\<exists>e. written req e)"
    and "\<forall>e a. CHR ''/'' \<notin> set e \<and> \<not> mhas (ShardAssignments (NewState req)) e
      \<and> \<not> mhas (ExecutorsToDelete req) e
      \<and> stored_assignment K (st_prefix s) (Name ns) (et_kvs (view db\<^sub>1)) e = Some a \<longrightarrow> AssignedShards a = []"
  shows "((\<exists>e. stored_owner K (st_prefix s) (Name ns) (et_kvs (view db\<^sub>2)) e shard) \<longleftrightarrow>
        (\<exists>k < nat (ShardNum ns). shard = FormatInt k \<and> \<not> IsShardDrained st shard))
    \<and> (stored_owner K (st_prefix s) (Name ns) (et_kvs (view db\<^sub>2)) e shard
        \<and> stored_owner K (st_prefix s) (Name ns) (et_kvs (view db\<^sub>2)) e' shard \<longrightarrow> e = e')
    \<and> (stored_owner K (st_prefix s) (Name ns) (et_kvs (view db\<^sub>2)) e shard \<longrightarrow>
        e \<in> set (AssignableExecutorIDs st (identifyStaleExecutors (t 0) (HeartbeatTTL cfg) st)))"
proof -
  let ?new = "ShardAssignments (NewState req)"
  let ?stale = "identifyStaleExecutors (t 0) (HeartbeatTTL cfg) st"
  let ?A = "{FormatInt k |k. k < nat (ShardNum ns) \<and> \<not> IsShardDrained st (FormatInt k)}"
  have good: "good_request st ?stale (AssignableExecutorIDs st ?stale) ?A req"
    using distribution_owners [OF etcd_backed.GetState_stored(1) [OF assms(1,2)] assms(6,7) _ assms(3)]
      assms(9) by (simp add: available_fixed [OF assms(8)])
  note g = good [unfolded good_request_def Let_def]
  have owner: "stored_owner K (st_prefix s) (Name ns) (et_kvs (view db\<^sub>2)) e shard \<longleftrightarrow>
      (\<exists>a. (e, a) \<in> set ?new \<and> mhas (AssignedShards a) shard)" for e
  proof (cases "CHR ''/'' \<in> set e")
    case True
    then have "e \<notin> set (mkeys ?new)" using assms(10) by (auto simp: storable_request_def list_all_iff)
    then show ?thesis using True by (force simp: stored_owner_def)
  next
    case False
    have "wf_map ?new" using g by blast
    then show ?thesis
      using etcd_backed.written_shards [OF assms(1,2,4,5) good assms(10-12) _ False, of shard] assms(13)
      by (simp add: mget_eq_iff)
  qed
  have shards: "(\<exists>e a. (e, a) \<in> set ?new \<and> mhas (AssignedShards a) shard) \<longleftrightarrow> shard \<in># assigned_shards ?new"
    unfolding assigned_shards_def mhas_mkeys by (force simp: split_beta)
  have unique: "e = e'" if "(e, a) \<in> set ?new" "mhas (AssignedShards a) shard"
      "(e', a') \<in> set ?new" "mhas (AssignedShards a') shard" for e a e' a'
  proof -
    have "single_owner ?new" "wf_map ?new" using g by blast+
    then show ?thesis using single_owner_unique that by metis
  qed
  have "e \<in> set (AssignableExecutorIDs st ?stale)" if "(e, a) \<in> set ?new" "mhas (AssignedShards a) shard" for e a
    using g that by (auto simp: mhas_def)
  then show ?thesis
    unfolding owner using shards unique g by auto
qed

text \<open>
  An example on the reference client: two executors send a heartbeat, and the leader distributes
  the shards of a fixed namespace over them.
\<close>

definition reference_store :: "string \<Rightarrow> compressionMode \<Rightarrow> int \<Rightarrow> (blob etcd, blob) executorStoreImpl" where
  "reference_store pre mode n =
     \<lparr>st_client = reference_client, st_prefix = pre, st_writer = mode, st_codec = reference_codec,
      st_MaxEtcdTxnOps = n\<rparr>"

interpretation reference_store: etcd_backed reference_client as_etcd reference_codec "reference_store pre mode n"
  by unfold_locales (simp_all add: reference_store_def)

definition demo_store :: "(blob etcd, blob) executorStoreImpl" where
  "demo_store = reference_store ''/p'' compressionSnappy 128"

definition demo_heartbeat :: HeartbeatState where
  "demo_heartbeat = \<lparr>LastHeartbeat = 10, hb_Status = ExecutorStatusACTIVE, ReportedShards = [],
     hb_Metadata = [(''zone'', ''z'')], hb_HostMetadata = Some \<lparr>HostName = ''h''\<rparr>\<rparr>"

definition demo_kvs :: "string \<Rightarrow> int \<Rightarrow> blob kvs" where
  "demo_kvs e r =
     [(''/p/ns/executors/'' @ e @ ''/heartbeat'', Raw ''0000000000'', r),
      (''/p/ns/executors/'' @ e @ ''/status'', Snappy (Json (JString ''ExecutorStatusACTIVE'')), r),
      (''/p/ns/executors/'' @ e @ ''/reported_shards'', Snappy (Json (JObject [])), r),
      (''/p/ns/executors/'' @ e @ ''/metadata/zone'', Raw ''z'', r),
      (''/p/ns/executors/'' @ e @ ''/host_metadata'', Json (JObject [(''host_name'', JString ''h'')]), r)]"

definition demo_db :: "blob etcd" where
  "demo_db = \<lparr>et_kvs = demo_kvs ''a'' 1 @ [(''/p/_assignment_versions/ns'', Raw ''{}'', 2)] @ demo_kvs ''b'' 2,
     et_revision = 2\<rparr>"

definition demo_state :: NamespaceState where
  "demo_state = \<lparr>ExecutorMetadata = [(''a'', [(''zone'', ''z'')]), (''b'', [(''zone'', ''z'')])],
     ShardAssignments = [], DrainedShards = [], Revision = 2, AssignmentRevision = 0,
     Executors = [(''a'', demo_heartbeat), (''b'', demo_heartbeat)], ShardStats = [], DrainedHosts = []\<rparr>"

definition demo_request :: AssignShardsRequest where
  "demo_request = \<lparr>NewState = demo_state\<lparr>ShardAssignments :=
       [(''a'', \<lparr>AssignedShards = assignedShardsMap [''3'', ''1''], as_HandoverStats = [], LastUpdated = 12, ModRevision = 0\<rparr>),
        (''b'', \<lparr>AssignedShards = assignedShardsMap [''2'', ''0''], as_HandoverStats = [], LastUpdated = 12, ModRevision = 0\<rparr>)]\<rparr>,
     ExecutorsToDelete = [], ChangedExecutors = Some [''b'', ''a'']\<rparr>"

lemma demo_db_reached:
  "demo_db = snd (RecordHeartbeat demo_store (snd (RecordHeartbeat demo_store empty_etcd ''ns'' ''a'' demo_heartbeat))
     ''ns'' ''b'' demo_heartbeat)"
  by code_simp

lemma demo_wf: "as_etcd demo_db = demo_db"
  by code_simp

lemma demo_snapshot: "etcd_GetState (\<lambda>xs. xs) demo_store demo_db ''ns'' = (Inr demo_state, demo_db)"
  by code_simp

lemma demo_distribution:
  "computeDistribution id_orders id_orders 0 greedy_config leader_process fixed_ns (\<lambda>_. 12) demo_state =
     Distribute demo_request []"
  by code_simp

lemma demo_written: "fst (etcd_AssignShards demo_store demo_db ''ns'' demo_request NopGuard) = Inr ()"
  by code_simp

lemma demo_storable: "storable_request demo_request"
  by code_simp

lemma demo_no_records:
  assumes "CHR ''/'' \<notin> set e"
  shows "stored_assignment reference_codec ''/p'' ''ns'' (et_kvs demo_db) e = None"
proof -
  have "list_all (\<lambda>k. case ParseExecutorKey ''/p'' ''ns'' k of
      Inl _ \<Rightarrow> True | Inr (_, t) \<Rightarrow> t \<noteq> ExecutorAssignedStateKey) (mkeys (et_kvs demo_db))"
    by code_simp
  moreover have "ParseExecutorKey ''/p'' ''ns'' (assigned_key ''/p'' ''ns'' e) = Inr (e, ExecutorAssignedStateKey)"
    using assms by (simp add: ParseExecutorKey_iff assigned_key_def)
  ultimately have "assigned_key ''/p'' ''ns'' e \<notin> set (mkeys (et_kvs demo_db))"
    unfolding list_all_iff by fastforce
  then show ?thesis by (simp add: stored_assignment_def map_of_eq_None_iff [THEN iffD2])
qed

lemma demo_backed: "etcd_backed reference_client as_etcd reference_codec demo_store"
  unfolding demo_store_def by (rule reference_store.etcd_backed_axioms)

lemma demo_namespace: "namespace_ok ''ns''" "st_prefix demo_store = ''/p''"
  by (simp_all add: namespace_ok_def AssignmentVersionsDir_def demo_store_def reference_store_def)

theorem rebalance_write_single_owner_witness:
  "\<exists>e. stored_owner reference_codec ''/p'' ''ns''
     (et_kvs (as_etcd (snd (etcd_AssignShards demo_store demo_db ''ns'' demo_request NopGuard)))) e ''3''"
proof -
  let ?db = "snd (etcd_AssignShards demo_store demo_db ''ns'' demo_request NopGuard)"
  have name: "Name fixed_ns = ''ns''" "st_prefix demo_store = ''/p''"
    by (simp_all add: fixed_ns_def demo_store_def reference_store_def)
  have wr: "etcd_AssignShards demo_store demo_db ''ns'' demo_request NopGuard = (Inr (), ?db)"
    using demo_written by (metis prod.collapse)
  have some: "ExecutorsToDelete demo_request \<noteq> [] \<or> (\<exists>e. written demo_request e)"
    by (rule disjI2, rule exI [of _ "''a''"]) (simp add: demo_request_def written_def)
  note ns = demo_namespace(1)
  have three: "FormatInt 3 = ''3''" by code_simp
  note main = rebalance_write_single_owner [OF demo_backed _ demo_distribution _ _ _ _ _ greedy_plan_safe demo_storable,
      unfolded name, OF demo_snapshot etcd_history.refl wr _ _ _ ns some, unfolded demo_wf, of "''3''" "[]" "[]"]
  have "(\<exists>e. stored_owner reference_codec ''/p'' ''ns'' (et_kvs (as_etcd ?db)) e ''3'') \<longleftrightarrow>
      (\<exists>k < nat (ShardNum fixed_ns). ''3'' = FormatInt k \<and> \<not> IsShardDrained demo_state ''3'')"
  proof -
    have "\<forall>e a. CHR ''/'' \<notin> set e \<and> \<not> mhas (ShardAssignments (NewState demo_request)) e
        \<and> \<not> mhas (ExecutorsToDelete demo_request) e
        \<and> stored_assignment reference_codec ''/p'' ''ns'' (et_kvs demo_db) e = Some a \<longrightarrow> AssignedShards a = []"
      using demo_no_records by auto
    with main show ?thesis by (simp add: fixed_ns_def)
  qed
  moreover have "\<exists>k < nat (ShardNum fixed_ns). ''3'' = FormatInt k \<and> \<not> IsShardDrained demo_state ''3''"
    by (rule exI [of _ 3]) (simp add: fixed_ns_def three demo_state_def IsShardDrained_def)
  ultimately show ?thesis by blast
qed

end
