(* ===== verification/StoreDrain.thy ===== *)
theory StoreDrain
  imports StoreRefinement
begin

text \<open>
  Writes in batches (\<open>commitOps\<close>) and the drained shards of the store: batches stay within the
  limit of a transaction, and draining and undraining are what \<open>GetDrainedShards\<close> shows.
\<close>

section \<open>Batches\<close>

lemma batchSize_pos: "0 < m \<Longrightarrow> 0 < n \<Longrightarrow> 0 < batch_size m n"
  by (auto simp: batch_size_def Let_def div_greater_zero_iff)

lemma batchSize_le:
  assumes "0 < m" "0 < n"
  shows "batch_size m n \<le> m"
proof -
  let ?b = "(n + m - 1) div m"
  have b: "0 < ?b" using assms by (simp add: div_greater_zero_iff)
  have "n \<le> ?b * m"
    using assms(1) div_mult_mod_eq [of "n + m - 1" m] mod_less_divisor [OF assms(1), of "n + m - 1"] by linarith
  then have "n + ?b - 1 < ?b * Suc m" using b by simp
  then have "(n + ?b - 1) div ?b < Suc m" by (simp add: less_mult_imp_div_less mult.commute)
  then show ?thesis by (simp add: batch_size_def Let_def)
qed

lemma maxOpsPerTxn_pos: "0 < maxOpsPerTxn s extra"
  by (simp add: maxOpsPerTxn_def Let_def)

text \<open>A server that rejects transactions with more operations than its limit, as etcd does.\<close>

definition limited :: "nat \<Rightarrow> ('db, 'v) Client \<Rightarrow> ('db, 'v) Client" where
  "limited n C = C\<lparr>Commit := (\<lambda>t db. if n < length (If t) \<or> n < length (Then t) \<or> n < length (Else t)
     then (Inl (ErrorString ''etcdserver: too many operations in txn request''), db) else Commit C t db)\<rparr>"

lemma limited_batches:
  assumes "b + length extra \<le> n" and "\<And>t. guard empty_Txn = Inr t \<Longrightarrow> length (If t) \<le> n \<and> length (Else t) \<le> n"
  shows "commit_batches (s\<lparr>st_client := limited n (st_client s)\<rparr>) env j guard b extra ops db =
    commit_batches s env j guard b extra ops db"
proof (induction "length ops" arbitrary: j ops db rule: less_induct)
  case less
  let ?s = "s\<lparr>st_client := limited n (st_client s)\<rparr>"
  show ?case
  proof (cases "ops = [] \<or> b = 0 \<or> isl (guard empty_Txn)")
    case True
    then show ?thesis by (auto simp: commit_batches.simps isl_def)
  next
    case False
    then obtain t where t: "guard empty_Txn = Inr t" by (cases "guard empty_Txn") auto
    let ?t = "t\<lparr>Then := take b ops @ extra\<rparr>"
    have same: "Commit (limited n (st_client s)) ?t = Commit (st_client s) ?t"
      using assms(1) assms(2) [OF t] by (auto simp: limited_def fun_eq_iff)
    obtain r db\<^sub>1 where "Commit (st_client s) ?t (env j db) = (r, db\<^sub>1)" by force
    moreover have "commit_batches ?s env (Suc j) guard b extra (drop b ops) db' =
        commit_batches s env (Suc j) guard b extra (drop b ops) db'" for db'
      using False by (intro less) auto
    ultimately show ?thesis
      using False t by (cases r) (simp_all add: commit_batches.simps [of _ env j] same)
  qed
qed

section \<open>What batches leave behind\<close>

text \<open>The keys under consideration, and processes that keep them apart from these writes.\<close>

definition keeps :: "('db \<Rightarrow> 'v etcd) \<Rightarrow> (nat \<Rightarrow> 'db \<Rightarrow> 'db) \<Rightarrow> string \<Rightarrow> bool" where
  "keeps view env p = (\<forall>j db k. prefix p k \<longrightarrow> mhas (et_kvs (view (env j db))) k = mhas (et_kvs (view db)) k)"

definition outside :: "string \<Rightarrow> 'v Op list \<Rightarrow> bool" where
  "outside p ops = (\<forall>m r k old. prefix p k \<longrightarrow> ops_effect m r ops k old = old)"

lemma effect_puts: "list_all (\<lambda>op. \<exists>k v. op = OpPut k v) ops \<Longrightarrow>
    (ops_effect m r ops k old \<noteq> None) = (old \<noteq> None \<or> (\<exists>v. OpPut k v \<in> set ops))"
  by (induction ops arbitrary: old) (auto split: if_splits)

lemma effect_deletes: "list_all (\<lambda>op. \<exists>k. op = OpDelete k) ops \<Longrightarrow>
    (ops_effect m r ops k old \<noteq> None) = (old \<noteq> None \<and> OpDelete k \<notin> set ops)"
  by (induction ops arbitrary: old) (auto split: if_splits)

lemma in_take_drop: "x \<in> set xs \<longleftrightarrow> x \<in> set (take n xs) \<or> x \<in> set (drop n xs)"
  by (metis Un_iff append_take_drop_id set_append)

lemma mhas_Some: "mhas m k \<longleftrightarrow> mget m k \<noteq> None"
  by (auto simp: mhas_def)

context etcd_backed
begin

lemma batch_step:
  assumes "commit_batches s env j NopGuard b extra ops db = (Inr resps, db')" "ops \<noteq> []" "0 < b"
  obtains resp db\<^sub>1 resps' where
    "run_txn \<lparr>If = [], Then = take b ops @ extra, Else = []\<rparr> (view (env j db)) = (resp, view db\<^sub>1)"
    "commit_batches s env (Suc j) NopGuard b extra (drop b ops) db\<^sub>1 = (Inr resps', db')"
    "resps = resp\<lparr>Responses := take (length (Responses resp) - length extra) (Responses resp)\<rparr> # resps'"
proof -
  let ?t = "\<lparr>If = [], Then = take b ops @ extra, Else = []\<rparr>"
  obtain r db\<^sub>1 where c: "Commit C ?t (env j db) = (r, db\<^sub>1)" by force
  obtain r' db\<^sub>2 where rest: "commit_batches s env (Suc j) NopGuard b extra (drop b ops) db\<^sub>1 = (r', db\<^sub>2)" by force
  have t: "empty_Txn\<lparr>Then := take b ops @ extra\<rparr> = ?t" by (simp add: empty_Txn_def)
  obtain resp where r: "r = Inr resp"
    using assms c t by (cases r) (auto simp: commit_batches.simps [of s env j] NopGuard_def)
  obtain resps' where r': "r' = Inr resps'" "db\<^sub>2 = db'"
      "resps = resp\<lparr>Responses := take (length (Responses resp) - length extra) (Responses resp)\<rparr> # resps'"
    using assms c t r rest by (cases r') (auto simp: commit_batches.simps [of s env j] NopGuard_def Let_def split: if_splits)
  show thesis by (rule that [OF commit_done [OF c [unfolded r]]]) (use rest r' in simp_all)
qed

text \<open>The keys left after batches of puts, and after batches of deletes.\<close>

lemma batches_keys:
  assumes b: "0 < b" and env: "keeps view env p" and extra: "outside p extra" and k: "prefix p k"
    and effect: "\<And>ops m r old. list_all P ops \<Longrightarrow> (ops_effect m r ops k old \<noteq> None) = after ops (old \<noteq> None)"
    and after: "\<And>x. after [] x = x" "\<And>xs ys x. after (xs @ ys) x = after ys (after xs x)"
  shows "commit_batches s env j NopGuard b extra ops db = (Inr resps, db') \<Longrightarrow> list_all P ops \<Longrightarrow>
    mhas (kvs db') k \<longleftrightarrow> after ops (mhas (kvs db) k)"
proof (induction "length ops" arbitrary: j ops db resps rule: less_induct)
  case less
  show ?case
  proof (cases "ops = []")
    case True
    then show ?thesis using less.prems after(1) by (simp add: commit_batches.simps)
  next
    case False
    obtain resp db\<^sub>1 resps' where
      run: "run_txn \<lparr>If = [], Then = take b ops @ extra, Else = []\<rparr> (view (env j db)) = (resp, view db\<^sub>1)"
      and rest: "commit_batches s env (Suc j) NopGuard b extra (drop b ops) db\<^sub>1 = (Inr resps', db')"
      by (rule batch_step [OF less.prems(1) False b])
    have P: "list_all P (take b ops)" "list_all P (drop b ops)"
      using less.prems(2) by (metis append_take_drop_id list_all_append)+
    have "mget (kvs db\<^sub>1) k = ops_effect (kvs (env j db)) (et_revision (view (env j db)) + 1) (take b ops) k
        (mget (kvs (env j db)) k)"
      using run_txn_view(1,2) [OF run] extra k by (simp add: outside_def)
    then have "mhas (kvs db\<^sub>1) k = after (take b ops) (mhas (kvs db) k)"
      using effect [OF P(1)] env k by (simp add: mhas_Some keeps_def)
    moreover have "mhas (kvs db') k = after (drop b ops) (mhas (kvs db\<^sub>1) k)"
      by (rule less.hyps [OF _ rest P(2)]) (use False b in simp)
    ultimately show ?thesis using after(2) [of "take b ops" "drop b ops"] by simp
  qed
qed

text \<open>The responses to batches of deletes tell which keys were there.\<close>

lemma delete_responses:
  "distinct ids \<Longrightarrow> inj_on f (set ids) \<Longrightarrow>
     take (length ids) (fst (run_ops m\<^sub>0 r (map (\<lambda>i. OpDelete (f i)) ids @ extra) m)) =
       map (\<lambda>i. ResponseDeleteRange (if mhas m (f i) then 1 else 0)) ids"
  by (induction ids arbitrary: m) (auto simp: split_beta mhas_def mget_mdel inj_on_def)

lemma batches_deleted:
  assumes b: "0 < b" and env: "keeps view env p" and extra: "outside p extra"
  shows "commit_batches s env j NopGuard b extra (map (\<lambda>i. OpDelete (f i)) ids) db = (Inr resps, db') \<Longrightarrow>
    distinct ids \<Longrightarrow> inj_on f (set ids) \<Longrightarrow> \<forall>i \<in> set ids. prefix p (f i) \<Longrightarrow>
    concat (map Responses resps) = map (\<lambda>i. ResponseDeleteRange (if mhas (kvs db) (f i) then 1 else 0)) ids"
proof (induction "length ids" arbitrary: j ids db resps rule: less_induct)
  case less
  let ?ops = "\<lambda>ids. map (\<lambda>i. OpDelete (f i) :: 'v Op) ids"
  let ?gone = "\<lambda>db. map (\<lambda>i. ResponseDeleteRange (if mhas (kvs db) (f i) then 1 else 0))"
  show ?case
  proof (cases "ids = []")
    case True
    then show ?thesis using less.prems by (simp add: commit_batches.simps)
  next
    case False
    obtain resp db\<^sub>1 resps' where
      run: "run_txn \<lparr>If = [], Then = take b (?ops ids) @ extra, Else = []\<rparr> (view (env j db)) = (resp, view db\<^sub>1)"
      and rest: "commit_batches s env (Suc j) NopGuard b extra (drop b (?ops ids)) db\<^sub>1 = (Inr resps', db')"
      and resps: "resps = resp\<lparr>Responses := take (length (Responses resp) - length extra) (Responses resp)\<rparr> # resps'"
      by (rule batch_step [OF less.prems(1) _ b]) (use False in auto)
    let ?now = "take b ids" and ?later = "drop b ids"
    have parts: "distinct ?now" "inj_on f (set ?now)" "distinct ?later" "inj_on f (set ?later)"
      "set ?now \<inter> set ?later = {}" "set ?now \<subseteq> set ids" "set ?later \<subseteq> set ids"
      using less.prems(2,3) set_take_disj_set_drop_if_distinct [of ids b b] set_take_subset [of b ids]
        set_drop_subset [of b ids] by (auto intro: inj_on_subset)
    have "Responses resp = fst (run_ops (kvs (env j db)) (et_revision (view (env j db)) + 1) (?ops ?now @ extra) (kvs (env j db)))"
      using run by (auto simp: run_txn_def Let_def take_map split: prod.splits)
    moreover have "length (Responses resp) - length extra = length ?now"
      using run_txn_view(6,2) [OF run] by (simp add: take_map)
    ultimately have "take (length (Responses resp) - length extra) (Responses resp) = ?gone (env j db) ?now"
      using delete_responses [OF parts(1,2)] by simp
    also have "\<dots> = ?gone db ?now"
      using env less.prems(4) parts(6) by (auto simp: keeps_def)
    finally have now: "take (length (Responses resp) - length extra) (Responses resp) = ?gone db ?now" .
    have kept: "mhas (kvs db\<^sub>1) (f i) = mhas (kvs db) (f i)" if "i \<in> set ?later" for i
    proof -
      have i: "prefix p (f i)" "OpDelete (f i) \<notin> set (?ops ?now)"
        using that less.prems(3,4) parts(5-7) by (auto dest: inj_onD)
      have eq: "mget (kvs db\<^sub>1) (f i) = ops_effect (kvs (env j db)) (et_revision (view (env j db)) + 1) (?ops ?now) (f i)
          (mget (kvs (env j db)) (f i))"
        using run_txn_view(1) [OF run, of "f i"] run_txn_view(2) [OF run] extra i(1) by (simp add: outside_def take_map)
      have del: "list_all (\<lambda>op. \<exists>k. op = OpDelete k) (?ops ?now)" by (simp add: list_all_iff)
      have "(mget (kvs db\<^sub>1) (f i) \<noteq> None) =
          (mget (kvs (env j db)) (f i) \<noteq> None \<and> OpDelete (f i) \<notin> set (?ops ?now))"
        unfolding eq by (rule effect_deletes [OF del])
      then show ?thesis using i env unfolding mhas_Some keeps_def by blast
    qed
    have "concat (map Responses resps') = ?gone db\<^sub>1 ?later"
      by (rule less.hyps [of ?later "Suc j" db\<^sub>1 resps'])
         (use False b rest parts less.prems(4) in \<open>auto simp: drop_map\<close>)
    also have "\<dots> = ?gone db ?later" using kept by simp
    finally show ?thesis
      using now by (simp add: resps) (metis append_take_drop_id map_append)
  qed
qed

end

lemma deletedIDs_filter:
  "deletedIDs_loop (map (\<lambda>i. ResponseDeleteRange (if Q i then 1 else 0)) ids) ids = Inr (filter Q ids)"
  by (induction ids) auto

lemma shard_ops_Inr: "shard_ops f ids = Inr ops \<Longrightarrow> ops = map f ids \<and> list_all (\<lambda>i. i \<noteq> [] \<and> CHR ''/'' \<notin> set i) ids"
  by (induction ids arbitrary: ops) (auto simp: ValidateShardID_Inr split: sum.splits)

section \<open>The drained shards\<close>

lemma set_parseDrainedShardKVs:
  "set (parseDrainedShardKVs pre ns kvs) = {x. \<exists>kv \<in> set kvs. ParseDrainedShardKey pre ns (kv_Key kv) = Inr x}"
proof -
  have "set (fold (\<lambda>kv drained. (case ParseDrainedShardKey pre ns (kv_Key kv) of Inl _ \<Rightarrow> drained
       | Inr shardID \<Rightarrow> List.insert shardID drained)) kvs acc) =
      set acc \<union> {x. \<exists>kv \<in> set kvs. ParseDrainedShardKey pre ns (kv_Key kv) = Inr x}" for acc
    by (induction kvs arbitrary: acc) (auto split: sum.splits)
  then show ?thesis by (simp add: parseDrainedShardKVs_def)
qed

lemma range_prefix_has:
  assumes "prefix p k"
  shows "(\<exists>kv \<in> set (range_prefix p m). kv_Key kv = k) \<longleftrightarrow> mhas m k"
proof
  assume "mhas m k"
  then obtain v r where "(k, v, r) \<in> set m" by (auto simp: mhas_def dest: map_of_SomeD)
  then have "\<lparr>kv_Key = k, kv_Value = v, kv_ModRevision = r\<rparr> \<in> set (range_prefix p m)"
    using assms by (simp add: set_range_prefix)
  then show "\<exists>kv \<in> set (range_prefix p m). kv_Key kv = k" by (rule rev_bexI) simp
qed (force simp: set_range_prefix mhas_mkeys)

lemma drained_stored:
  "x \<in> set (parseDrainedShardKVs pre ns (range_prefix (BuildDrainedShardsPrefix pre ns) m)) \<longleftrightarrow>
     x \<noteq> [] \<and> CHR ''/'' \<notin> set x \<and> mhas m (BuildDrainedShardKey pre ns x)"
  using range_prefix_has [OF namespace_prefix_of(7) [of pre ns x], of m]
  unfolding set_parseDrainedShardKVs ParseDrainedShardKey_iff by blast

context etcd_backed
begin

lemma GetDrainedShards_read:
  assumes "GetDrainedShards s db ns = Inr l"
  shows "sorted l \<and> distinct l
    \<and> (\<forall>x. x \<in> set l \<longleftrightarrow> x \<noteq> [] \<and> CHR ''/'' \<notin> set x \<and> mhas (kvs db) (BuildDrainedShardKey (st_prefix s) ns x))"
proof -
  obtain kvs' where get: "GetPrefix C (BuildDrainedShardsPrefix (st_prefix s) ns) db = Inr kvs'"
    and l: "l = sort (parseDrainedShardKVs (st_prefix s) ns kvs')"
    using assms by (cases "GetPrefix C (BuildDrainedShardsPrefix (st_prefix s) ns) db")
      (auto simp: GetDrainedShards_def loadDrainedShardSet_def)
  show ?thesis
    by (simp add: l get_done [OF get] drained_stored distinct_parseDrainedShardKVs)
qed

lemma drained_outside:
  assumes "namespace_ok ns"
  shows "outside (BuildDrainedShardsPrefix (st_prefix s) ns) [touchAssignmentVersion s ns]"
proof -
  have "\<not> prefix (BuildDrainedShardsPrefix (st_prefix s) ns) (BuildAssignmentVersionKey (st_prefix s) ns)"
    using version_key_outside [of ns "st_prefix s" ns] assms
      prefix_order.trans [OF namespace_prefix_of(2)] by (auto simp: namespace_ok_def)
  then show ?thesis by (auto simp: outside_def touchAssignmentVersion_def)
qed

lemma commitAssignmentOps_batches:
  assumes "commitAssignmentOps s env db ns ops NopGuard = (Inr resps, db')" "ops \<noteq> []"
  obtains b where "0 < b" "commit_batches s env 0 NopGuard b [touchAssignmentVersion s ns] ops db = (Inr resps, db')"
  using assms batchSize_pos [OF maxOpsPerTxn_pos [of s 1], of "length ops"]
  by (auto simp: commitAssignmentOps_def commitOps_def)

lemma DrainShards_done:
  assumes ran: "DrainShards s env db ns ids = (Inr (), db')" and ns: "namespace_ok ns"
    and env: "keeps view env (BuildDrainedShardsPrefix (st_prefix s) ns)"
  shows "list_all (\<lambda>i. i \<noteq> [] \<and> CHR ''/'' \<notin> set i) ids"
    and "mhas (kvs db') (BuildDrainedShardKey (st_prefix s) ns x) \<longleftrightarrow>
      mhas (kvs db) (BuildDrainedShardKey (st_prefix s) ns x) \<or> x \<in> set ids"
proof -
  let ?key = "BuildDrainedShardKey (st_prefix s) ns" and ?f = "\<lambda>i. OpPut (BuildDrainedShardKey (st_prefix s) ns i) (Bytes K [])"
  have "list_all (\<lambda>i. i \<noteq> [] \<and> CHR ''/'' \<notin> set i) ids \<and> (mhas (kvs db') (?key x) \<longleftrightarrow> mhas (kvs db) (?key x) \<or> x \<in> set ids)"
  proof (cases "ids = []")
    case False
    obtain ops where ops: "shard_ops ?f ids = Inr ops"
      using ran False by (cases "shard_ops ?f ids") (auto simp: DrainShards_def)
    note ids = shard_ops_Inr [OF ops]
    obtain r db\<^sub>1 where c: "commitAssignmentOps s env db ns ops NopGuard = (r, db\<^sub>1)" by force
    then obtain resps where "commitAssignmentOps s env db ns ops NopGuard = (Inr resps, db')"
      using ran False ops by (cases r) (auto simp: DrainShards_def)
    then obtain b where b: "0 < b" "commit_batches s env 0 NopGuard b [touchAssignmentVersion s ns] ops db = (Inr resps, db')"
      by (rule commitAssignmentOps_batches) (use ids False in simp)
    have "mhas (kvs db') (?key x) \<longleftrightarrow> mhas (kvs db) (?key x) \<or> (\<exists>v. OpPut (?key x) v \<in> set ops)"
    proof (rule batches_keys [where P = "\<lambda>op. \<exists>k v. op = OpPut k v"
          and after = "\<lambda>ops y. y \<or> (\<exists>v. OpPut (?key x) v \<in> set ops)",
          OF b(1) env drained_outside [OF ns] namespace_prefix_of(7) effect_puts _ _ b(2)])
      show "list_all (\<lambda>op. \<exists>k v. op = OpPut k v) ops" using ids by (simp add: list_all_iff)
    qed auto
    then show ?thesis using ids by (auto simp: BuildDrainedShardKey_def)
  qed (use ran in \<open>auto simp: DrainShards_def\<close>)
  then show "list_all (\<lambda>i. i \<noteq> [] \<and> CHR ''/'' \<notin> set i) ids"
    and "mhas (kvs db') (?key x) \<longleftrightarrow> mhas (kvs db) (?key x) \<or> x \<in> set ids"
    by auto
qed

lemma UndrainShards_done:
  assumes ran: "UndrainShards s env db ns ids = (Inr removed, db')" and ns: "namespace_ok ns" and "distinct ids"
    and env: "keeps view env (BuildDrainedShardsPrefix (st_prefix s) ns)"
  shows "list_all (\<lambda>i. i \<noteq> [] \<and> CHR ''/'' \<notin> set i) ids"
    and "mhas (kvs db') (BuildDrainedShardKey (st_prefix s) ns x) \<longleftrightarrow>
      mhas (kvs db) (BuildDrainedShardKey (st_prefix s) ns x) \<and> x \<notin> set ids"
    and "removed = filter (\<lambda>i. mhas (kvs db) (BuildDrainedShardKey (st_prefix s) ns i)) ids"
proof -
  let ?key = "BuildDrainedShardKey (st_prefix s) ns" and ?f = "\<lambda>i. OpDelete (BuildDrainedShardKey (st_prefix s) ns i) :: 'v Op"
  have "list_all (\<lambda>i. i \<noteq> [] \<and> CHR ''/'' \<notin> set i) ids \<and> (mhas (kvs db') (?key x) \<longleftrightarrow> mhas (kvs db) (?key x) \<and> x \<notin> set ids)
      \<and> removed = filter (\<lambda>i. mhas (kvs db) (?key i)) ids"
  proof (cases "ids = []")
    case False
    obtain ops where ops: "shard_ops ?f ids = Inr ops"
      using ran False by (cases "shard_ops ?f ids") (auto simp: UndrainShards_def)
    note ids = shard_ops_Inr [OF ops]
    obtain r db\<^sub>1 where c: "commitAssignmentOps s env db ns ops NopGuard = (r, db\<^sub>1)" by force
    then obtain resps where resps: "commitAssignmentOps s env db ns ops NopGuard = (Inr resps, db')"
      and removed: "deletedIDs resps ids = Inr removed"
      using ran False ops by (cases r) (auto simp: UndrainShards_def split: sum.splits)
    obtain b where b: "0 < b" "commit_batches s env 0 NopGuard b [touchAssignmentVersion s ns] ops db = (Inr resps, db')"
      by (rule commitAssignmentOps_batches [OF resps]) (use ids False in auto)
    have "mhas (kvs db') (?key x) \<longleftrightarrow> mhas (kvs db) (?key x) \<and> OpDelete (?key x) \<notin> set ops"
    proof (rule batches_keys [where P = "\<lambda>op. \<exists>k. op = OpDelete k"
          and after = "\<lambda>ops y. y \<and> OpDelete (?key x) \<notin> set ops",
          OF b(1) env drained_outside [OF ns] namespace_prefix_of(7) effect_deletes _ _ b(2)])
      show "list_all (\<lambda>op. \<exists>k. op = OpDelete k) ops" using ids by (simp add: list_all_iff)
    qed auto
    moreover have "concat (map Responses resps) = map (\<lambda>i. ResponseDeleteRange (if mhas (kvs db) (?key i) then 1 else 0)) ids"
      by (rule batches_deleted [OF b(1) env drained_outside [OF ns]])
         (use b(2) ids assms(3) in \<open>auto simp: inj_on_def BuildDrainedShardKey_def namespace_prefix_of(7) [unfolded BuildDrainedShardKey_def]\<close>)
    ultimately show ?thesis
      using ids removed by (auto simp: deletedIDs_def deletedIDs_filter BuildDrainedShardKey_def)
  qed (use ran in \<open>auto simp: UndrainShards_def\<close>)
  then show "list_all (\<lambda>i. i \<noteq> [] \<and> CHR ''/'' \<notin> set i) ids"
    and "mhas (kvs db') (?key x) \<longleftrightarrow> mhas (kvs db) (?key x) \<and> x \<notin> set ids"
    and "removed = filter (\<lambda>i. mhas (kvs db) (?key i)) ids"
    by auto
qed

end

lemma ceil_div: "0 < m \<Longrightarrow> (n + m - 1) div m \<le> k \<longleftrightarrow> n \<le> k * (m::nat)"
proof
  assume m: "0 < m" and le: "(n + m - 1) div m \<le> k"
  have "n \<le> (n + m - 1) div m * m"
    using m div_mult_mod_eq [of "n + m - 1" m] mod_less_divisor [OF m, of "n + m - 1"] by linarith
  also have "\<dots> \<le> k * m" using le by simp
  finally show "n \<le> k * m" .
next
  assume "0 < m" "n \<le> k * m"
  then have "n + m - 1 < Suc k * m" by simp
  then show "(n + m - 1) div m \<le> k" by (simp add: less_mult_imp_div_less flip: less_Suc_eq_le)
qed

lemma batch_count:
  assumes "0 < m" "0 < n"
  shows "(n + batch_size m n - 1) div batch_size m n \<le> (n + m - 1) div m"
proof -
  let ?b = "(n + m - 1) div m"
  have b: "0 < ?b" using assms by (simp add: div_greater_zero_iff)
  have "n \<le> batch_size m n * ?b"
    using ceil_div [OF b, of n "batch_size m n"] by (simp add: batch_size_def Let_def)
  then show ?thesis using ceil_div [OF batchSize_pos [OF assms], of n ?b] by (simp add: mult.commute)
qed

section \<open>Properties\<close>

text \<open>
  Batched writes fit the server. With the limit on the operations of a transaction set to the
  server's own and room for at least one operation beside the guard and the extra ones, no batch
  is ever rejected for its size: writing through a server that enforces the limit is the same as
  writing through one that does not. A batch is never empty, so the loop ends, and there are no
  more batches than the limit makes necessary.
\<close>
theorem batches_within_limit:
  assumes "st_MaxEtcdTxnOps s = int n" and "length extra + 2 \<le> n"
    and "\<And>t. guard empty_Txn = Inr t \<Longrightarrow> length (If t) \<le> 1 \<and> Else t = []"
  shows "commitOps (s\<lparr>st_client := limited n (st_client s)\<rparr>) env db ops guard extra = commitOps s env db ops guard extra
    \<and> (ops \<noteq> [] \<longrightarrow> (let m = maxOpsPerTxn s (length extra); b = batch_size m (length ops) in
         0 < b \<and> b \<le> m \<and> (length ops + b - 1) div b \<le> (length ops + m - 1) div m))"
proof -
  let ?m = "maxOpsPerTxn s (length extra)"
  have m: "?m + length extra \<le> n" "maxOpsPerTxn (s\<lparr>st_client := limited n (st_client s)\<rparr>) (length extra) = ?m"
    using assms(1,2) by (auto simp: maxOpsPerTxn_def guardOpOverhead_def Let_def)
  have "commit_batches (s\<lparr>st_client := limited n (st_client s)\<rparr>) env 0 guard (batch_size ?m (length ops)) extra ops db =
      commit_batches s env 0 guard (batch_size ?m (length ops)) extra ops db" if "ops \<noteq> []"
  proof (rule limited_batches)
    show "batch_size ?m (length ops) + length extra \<le> n"
      using batchSize_le [OF maxOpsPerTxn_pos [of s "length extra"], of "length ops"] that m(1) by simp
    show "length (If t) \<le> n \<and> length (Else t) \<le> n" if "guard empty_Txn = Inr t" for t
      using assms(2) assms(3) [OF that] by simp
  qed
  then show ?thesis
    using maxOpsPerTxn_pos [of s "length extra"]
    by (auto simp: commitOps_def m(2) Let_def batchSize_pos batchSize_le batch_count [unfolded One_nat_def])
qed

theorem batches_within_limit_witness:
  "commitOps (demo_store\<lparr>st_client := limited 128 (st_client demo_store)\<rparr>) (\<lambda>_ db. db) demo_db
     [OpDelete ''/p/ns/drained_shards/1''] (leader_Guard ''/p/ns/leader/1'' 1) [] =
   commitOps demo_store (\<lambda>_ db. db) demo_db [OpDelete ''/p/ns/drained_shards/1''] (leader_Guard ''/p/ns/leader/1'' 1) []"
  using batches_within_limit [of demo_store 128 "[]" "leader_Guard ''/p/ns/leader/1'' 1"]
  by (simp add: demo_store_def reference_store_def leader_Guard_def empty_Txn_def)

text \<open>
  C35. Draining and undraining shards does what it says, in batches of any size, as long as no
  other process drains or undrains shards of the namespace meanwhile: after \<open>DrainShards\<close> the
  drained shards are those before and the given ones; after \<open>UndrainShards\<close> the given ones are
  gone, and it returns exactly those of them that were drained, in their order.
\<close>
theorem drain_undrain_shards:
  assumes "etcd_backed C view K s" and "namespace_ok ns"
    and "keeps view env (BuildDrainedShardsPrefix (st_prefix s) ns)"
    and "DrainShards s env db ns ids = (Inr (), db\<^sub>1)"
    and "UndrainShards s env db\<^sub>1 ns ids' = (Inr removed, db\<^sub>2)" and "distinct ids'"
    and "GetDrainedShards s db ns = Inr l" and "GetDrainedShards s db\<^sub>1 ns = Inr l\<^sub>1" and "GetDrainedShards s db\<^sub>2 ns = Inr l\<^sub>2"
  shows "set l\<^sub>1 = set l \<union> set ids \<and> set l\<^sub>2 = set l\<^sub>1 - set ids' \<and> removed = filter (\<lambda>i. i \<in> set l\<^sub>1) ids'
    \<and> sorted l\<^sub>2 \<and> distinct l\<^sub>2"
proof -
  note drain = etcd_backed.DrainShards_done [OF assms(1,4,2,3)]
    and undrain = etcd_backed.UndrainShards_done [OF assms(1,5,2,6,3)]
    and read = etcd_backed.GetDrainedShards_read [OF assms(1,7)] etcd_backed.GetDrainedShards_read [OF assms(1,8)]
      etcd_backed.GetDrainedShards_read [OF assms(1,9)]
  have "set l\<^sub>1 = set l \<union> set ids" using drain read(1,2) by (auto simp: list_all_iff)
  moreover have "set l\<^sub>2 = set l\<^sub>1 - set ids'" using undrain(2) read(2,3) by auto
  moreover have "removed = filter (\<lambda>i. i \<in> set l\<^sub>1) ids'"
    unfolding undrain(3) by (rule filter_cong) (use undrain(1) read(2) in \<open>auto simp: list_all_iff\<close>)
  ultimately show ?thesis using read(3) by blast
qed

definition small_batches :: "(blob etcd, blob) executorStoreImpl" where
  "small_batches = reference_store ''/p'' compressionNone 3"

definition drained_db :: "blob etcd" where
  "drained_db = \<lparr>et_kvs = [(''/p/ns/drained_shards/1'', Raw [], 1), (''/p/_assignment_versions/ns'', Raw ''{}'', 2),
     (''/p/ns/drained_shards/2'', Raw [], 2)], et_revision = 2\<rparr>"

definition undrained_db :: "blob etcd" where
  "undrained_db = \<lparr>et_kvs = [(''/p/_assignment_versions/ns'', Raw ''{}'', 4), (''/p/ns/drained_shards/2'', Raw [], 2)],
     et_revision = 4\<rparr>"

theorem drain_undrain_shards_witness:
  "set (projr (GetDrainedShards small_batches undrained_db ''ns'')) = {''1'', ''2''} - {''1'', ''3''}"
proof -
  have store: "etcd_backed reference_client as_etcd reference_codec small_batches"
    unfolding small_batches_def by (rule reference_store.etcd_backed_axioms)
  have drain: "DrainShards small_batches (\<lambda>_ db. db) empty_etcd ''ns'' [''1'', ''2''] = (Inr (), drained_db)" by code_simp
  have undrain: "UndrainShards small_batches (\<lambda>_ db. db) drained_db ''ns'' [''1'', ''3''] = (Inr [''1''], undrained_db)" by code_simp
  have reads: "GetDrainedShards small_batches empty_etcd ''ns'' = Inr []"
    "GetDrainedShards small_batches drained_db ''ns'' = Inr [''1'', ''2'']"
    "GetDrainedShards small_batches undrained_db ''ns'' = Inr [''2'']" by code_simp+
  have "keeps as_etcd (\<lambda>_ db. db) (BuildDrainedShardsPrefix (st_prefix small_batches) ''ns'')" by (simp add: keeps_def)
  from drain_undrain_shards [OF store demo_namespace(1) this drain undrain _ reads]
  show ?thesis by (simp add: reads)
qed

end
