(* ===== verification/StoreProperties.thy ===== *)
theory StoreProperties
  imports StoreDrain
begin

text \<open>
  More on the store on etcd: writes are all or nothing, a leader that lost its election writes
  nothing, a reset stays within its namespace, and the light read agrees with the full one.
\<close>

section \<open>Atomicity\<close>

text \<open>A guard only adds conditions.\<close>

definition guard_ok :: "'v GuardFunc \<Rightarrow> bool" where
  "guard_ok guard = (case guard empty_Txn of Inl _ \<Rightarrow> True | Inr t \<Rightarrow> Then t = [] \<and> Else t = [])"

lemma guards_ok: "guard_ok NopGuard" "guard_ok (leader_Guard key r)"
  by (simp_all add: guard_ok_def NopGuard_def leader_Guard_def empty_Txn_def)

lemma ops_effect_gets: "ops_effect m\<^sub>0 r (map (\<lambda>e. OpGet (f e)) es) k old = old"
  by (induction es) simp_all

lemma run_ops_gets: "snd (run_ops m\<^sub>0 r (map (\<lambda>e. OpGet (f e)) es) m) = m \<and>
    \<not> list_ex wrote (fst (run_ops m\<^sub>0 r (map (\<lambda>e. OpGet (f e)) es) m))"
  by (induction es arbitrary: m) (simp_all add: split_beta)

lemma assign_txn:
  assumes "assign_puts s ns (ChangedExecutors req) (ShardAssignments (NewState req)) = Inr puts"
    and "Then t = [] \<and> Else t = []"
    and run: "run_txn (t\<lparr>Then := [OpTxn (assign_comparisons s ns req)
        (assign_deletes s ns req @ puts @ [touchAssignmentVersion s ns]) (assign_opsElse s ns req)]\<rparr>) x = (resp, y)"
  shows "if Succeeded resp \<and> (\<exists>rs. Responses resp = [ResponseTxn True rs])
    then list_all (holds_cmp (et_kvs x)) (If t) \<and> assign_applied s ns req x y
    else y = x"
proof (cases "Succeeded resp \<and> list_all (holds_cmp (et_kvs x)) (assign_comparisons s ns req)")
  case True
  then have "\<exists>rs. Responses resp = [ResponseTxn True rs]"
    using run by (auto simp: run_txn_def Let_def split: prod.splits if_splits)
  moreover have "assign_applied s ns req x y"
    unfolding assign_applied_def using assms(1) True run_txn_view(1) [OF run] by simp
  ultimately show ?thesis using True run_txn_view(2) [OF run] by simp
next
  case False
  let ?ops = "if Succeeded resp then [OpTxn (assign_comparisons s ns req)
      (assign_deletes s ns req @ puts @ [touchAssignmentVersion s ns]) (assign_opsElse s ns req)] else []"
  let ?m = "et_kvs x" and ?r = "et_revision x + 1"
  have gets: "snd (run_ops ?m ?r (assign_opsElse s ns req) ?m) = ?m"
    "\<not> list_ex wrote (fst (run_ops ?m ?r (assign_opsElse s ns req) ?m))"
    unfolding assign_opsElse_def
    by (rule conjunct1 [OF run_ops_gets], rule conjunct2 [OF run_ops_gets])
  have "run_txn (t\<lparr>Then := [OpTxn (assign_comparisons s ns req)
        (assign_deletes s ns req @ puts @ [touchAssignmentVersion s ns]) (assign_opsElse s ns req)]\<rparr>) x =
      (\<lparr>Succeeded = Succeeded resp, Responses = fst (run_ops ?m ?r ?ops ?m),
        HeaderRevision = HeaderRevision resp\<rparr>, y)"
    and run': "et_kvs y = snd (run_ops ?m ?r ?ops ?m)"
    "et_revision y = (if list_ex wrote (fst (run_ops ?m ?r ?ops ?m)) then et_revision x + 1 else et_revision x)"
    and resp: "Responses resp = fst (run_ops ?m ?r ?ops ?m)"
    using run assms(2) by (auto simp: run_txn_def Let_def split: prod.splits if_splits)
  have "snd (run_ops ?m ?r ?ops ?m) = ?m \<and> \<not> list_ex wrote (fst (run_ops ?m ?r ?ops ?m))
      \<and> (Succeeded resp \<longrightarrow> \<not> (\<exists>rs. Responses resp = [ResponseTxn True rs]))"
    using False gets resp by (auto simp: split_beta)
  moreover from this have "y = x" using run' by (intro etcd.equality) simp_all
  ultimately show ?thesis by auto
qed

context etcd_backed
begin

text \<open>Whatever \<open>AssignShards\<close> returns, its transaction is applied as a whole or not at all.\<close>

lemma AssignShards_outcome:
  assumes ran: "etcd_AssignShards s db ns req guard = (res, db')" and guard: "guard_ok guard"
  shows "view db' = view db \<or> assign_applied s ns req (view db) (view db')
      \<and> (\<exists>t. guard empty_Txn = Inr t \<and> list_all (holds_cmp (kvs db)) (If t))"
    and "isl res \<Longrightarrow> (\<nexists>e. res = Inl (Errorf ''commit shard assignments transaction'' e)) \<Longrightarrow> view db' = view db"
proof -
  let ?txn = "\<lambda>t puts. t\<lparr>Then := [OpTxn (assign_comparisons s ns req)
      (assign_deletes s ns req @ puts @ [touchAssignmentVersion s ns]) (assign_opsElse s ns req)]\<rparr>"
  consider (same) "db' = db"
    | (call) t puts r where "guard empty_Txn = Inr t"
        "assign_puts s ns (ChangedExecutors req) (ShardAssignments (NewState req)) = Inr puts"
        "Commit C (?txn t puts) db = (r, db')"
        "\<And>e. r = Inl e \<Longrightarrow> res = Inl (Errorf ''commit shard assignments transaction'' e)"
        "\<And>resp. r = Inr resp \<Longrightarrow> isl res \<longleftrightarrow> \<not> (Succeeded resp \<and> (\<exists>rs rs'. Responses resp = ResponseTxn True rs # rs'))"
  proof (cases "assign_puts s ns (ChangedExecutors req) (ShardAssignments (NewState req))")
    case (Inl e)
    then show thesis using ran same by (simp add: etcd_AssignShards_def)
  next
    case puts: (Inr puts)
    show thesis
    proof (cases "assign_deletes s ns req @ puts = [] \<or> isl (guard empty_Txn)")
      case True
      then show thesis using ran puts same
        by (auto simp: etcd_AssignShards_def Let_def isl_def split: if_splits)
    next
      case False
      then obtain t where t: "guard empty_Txn = Inr t" by (cases "guard empty_Txn") auto
      obtain r db\<^sub>1 where c: "Commit C (?txn t puts) db = (r, db\<^sub>1)" by force
      have body: "(res, db') = (case r of Inl e \<Rightarrow> (Inl (Errorf ''commit shard assignments transaction'' e), db\<^sub>1)
          | Inr txnResp \<Rightarrow> if \<not> Succeeded txnResp
              then (Inl (Errorf ''transaction failed, leadership may have changed'' ErrVersionConflict), db\<^sub>1)
              else (case Responses txnResp of
                 ResponseTxn True _ # _ \<Rightarrow> (Inr (), db\<^sub>1)
               | ResponseTxn False _ # _ \<Rightarrow>
                   (Inl (Errorf ''transaction failed, a shard may have been concurrently assigned''
                      ErrVersionConflict), db\<^sub>1)
               | _ \<Rightarrow> (Inl (ErrorString ''unexpected empty response from transaction''), db\<^sub>1)))"
        using ran puts False t c by (auto simp: etcd_AssignShards_def Let_def)
      show thesis
      proof (rule that(2) [OF t puts])
        show "Commit C (?txn t puts) db = (r, db')"
          using c body by (auto split: sum.splits if_splits list.splits OpResponse.splits bool.splits)
        show "res = Inl (Errorf ''commit shard assignments transaction'' e)" if "r = Inl e" for e
          using body that by simp
        show "isl res \<longleftrightarrow> \<not> (Succeeded resp \<and> (\<exists>rs rs'. Responses resp = ResponseTxn True rs # rs'))"
          if "r = Inr resp" for resp
          using body that by (auto split: if_splits list.splits OpResponse.splits bool.splits)
      qed
    qed
  qed
  then have "(view db' = view db \<or> assign_applied s ns req (view db) (view db')
        \<and> (\<exists>t. guard empty_Txn = Inr t \<and> list_all (holds_cmp (kvs db)) (If t)))
      \<and> (isl res \<longrightarrow> (\<nexists>e. res = Inl (Errorf ''commit shard assignments transaction'' e)) \<longrightarrow> view db' = view db)"
  proof cases
    case (call t puts r)
    have t: "Then t = [] \<and> Else t = []" using guard call(1) by (simp add: guard_ok_def)
    obtain resp y where run: "run_txn (?txn t puts) (view db) = (resp, y)" by force
    note txn = assign_txn [OF call(2) t run]
    show ?thesis
    proof (cases r)
      case (Inl e)
      then have "view db' = view db \<or> view db' = y" using commit_view [OF call(3)] run by simp
      then show ?thesis using txn call(1,4) Inl by (auto split: if_splits)
    next
      case (Inr resp')
      then have "resp' = resp" "view db' = y" using commit_done [OF call(3) [unfolded Inr]] run by simp_all
      then show ?thesis using txn call(1) call(5) [OF Inr] by (auto split: if_splits)
    qed
  qed simp
  then show "view db' = view db \<or> assign_applied s ns req (view db) (view db')
      \<and> (\<exists>t. guard empty_Txn = Inr t \<and> list_all (holds_cmp (kvs db)) (If t))"
    and "isl res \<Longrightarrow> (\<nexists>e. res = Inl (Errorf ''commit shard assignments transaction'' e)) \<Longrightarrow> view db' = view db"
    by auto
qed

end

text \<open>
  The contract of \<open>AssignShards\<close>, on the records of a namespace with their revisions: all or
  nothing, done when it returns no error, nothing when it returns an error other than that of
  the commit, and only if every record the request mentions has the revision it expects.
\<close>

definition namespace_records ::
    "'v Codec \<Rightarrow> string \<Rightarrow> string \<Rightarrow> 'v etcd \<Rightarrow> string \<Rightarrow> int \<times> AssignedState option" where
  "namespace_records K pre ns x e =
     (if CHR ''/'' \<in> set e then (0, None)
      else (mod_revision (et_kvs x) (assigned_key pre ns e), stored_assignment K pre ns (et_kvs x) e))"

definition expected_revisions :: "AssignShardsRequest \<Rightarrow> (string \<Rightarrow> int \<times> AssignedState option) \<Rightarrow> bool" where
  "expected_revisions req old =
     (list_all (\<lambda>(e, r). fst (old e) = r) (ExecutorsToDelete req)
      \<and> list_all (\<lambda>(e, a). fst (old e) = ModRevision a) (ShardAssignments (NewState req)))"

definition assign_spec ::
    "AssignShardsRequest \<Rightarrow> int \<Rightarrow> (string \<Rightarrow> int \<times> AssignedState option) \<Rightarrow> unit result
      \<Rightarrow> (string \<Rightarrow> int \<times> AssignedState option) \<Rightarrow> bool" where
  "assign_spec req r old res new =
     (let wanted = assignment_after req r (snd \<circ> old) in
      (new = old \<or> snd \<circ> new = wanted \<and> expected_revisions req old)
      \<and> (res = Inr () \<longrightarrow> snd \<circ> new = wanted)
      \<and> (isl res \<and> (\<nexists>e. res = Inl (Errorf ''commit shard assignments transaction'' e)) \<longrightarrow> new = old))"

lemma expected_revisions_iff:
  assumes "storable_request req"
  shows "list_all (holds_cmp (et_kvs x)) (assign_comparisons s ns req) \<longleftrightarrow>
    expected_revisions req (namespace_records K (st_prefix s) ns x)"
proof -
  have slash: "CHR ''/'' \<notin> set e" if "(e, a) \<in> set (ShardAssignments (NewState req))" for e a
    using assms that by (auto simp: storable_request_def list_all_iff)
  have slash': "CHR ''/'' \<notin> set e" if "(e, r) \<in> set (ExecutorsToDelete req)" for e r
    using assms that by (auto simp: storable_request_def list_all_iff)
  show ?thesis
    unfolding assign_comparisons_def expected_revisions_def namespace_records_def list_all_iff assigned_key_def
    using slash slash' by (auto simp: ball_Un split: prod.splits if_splits)
qed

lemma records_after:
  assumes "storable_request req"
    and "\<And>e. CHR ''/'' \<notin> set e \<Longrightarrow> stored_assignment K pre ns (et_kvs y) e =
      assignment_after req r (stored_assignment K pre ns (et_kvs x)) e"
  shows "snd \<circ> namespace_records K pre ns y = assignment_after req r (snd \<circ> namespace_records K pre ns x)"
proof
  fix e
  have "e \<notin> set (mkeys (ShardAssignments (NewState req)))" if "CHR ''/'' \<in> set e"
    using assms(1) that by (auto simp: storable_request_def list_all_iff)
  then have "\<not> written req e" if "CHR ''/'' \<in> set e"
    using that by (simp add: written_changed mhas_mkeys)
  then show "(snd \<circ> namespace_records K pre ns y) e = assignment_after req r (snd \<circ> namespace_records K pre ns x) e"
    using assms(2) [of e] by (auto simp: namespace_records_def assignment_after_def)
qed

section \<open>Fencing\<close>

context etcd_backed
begin

lemma refused_commit:
  assumes "Commit C (t\<lparr>Then := ops\<rparr>) db = (r, db')" and "leader_Guard key campaign empty_Txn = Inr t"
    and "mod_revision (kvs db) key \<noteq> campaign"
  shows "view db' = view db" and "r = Inr resp \<Longrightarrow> \<not> Succeeded resp"
proof -
  have t: "t\<lparr>Then := ops\<rparr> = \<lparr>If = [CmpModRevision key campaign], Then = ops, Else = []\<rparr>"
    using assms(2) by (auto simp: leader_Guard_def empty_Txn_def)
  have run: "run_txn (t\<lparr>Then := ops\<rparr>) (view db) =
      (\<lparr>Succeeded = False, Responses = [], HeaderRevision = et_revision (view db)\<rparr>, view db)"
    using assms(3) by (simp add: t run_txn_def Let_def)
  show "view db' = view db" using commit_view [OF assms(1)] run by auto
  show "\<not> Succeeded resp" if "r = Inr resp" using commit_done [OF assms(1) [unfolded that]] run by auto
qed

lemma refused_batches:
  assumes "commit_batches s env j (leader_Guard key campaign) n extra ops db = (res, db')"
    and "mod_revision (kvs (env j db)) key \<noteq> campaign"
  shows "res = Inr [] \<and> db' = db \<and> (ops = [] \<or> n = 0) \<or> isl res \<and> view db' = view (env j db)"
proof (cases "ops = [] \<or> n = 0")
  case True
  then show ?thesis using assms(1) by (auto simp: commit_batches.simps)
next
  case False
  obtain t :: "'v Txn" where t: "leader_Guard key campaign empty_Txn = Inr t" by (simp add: leader_Guard_def)
  obtain r db\<^sub>1 where c: "Commit C (t\<lparr>Then := take n ops @ extra\<rparr>) (env j db) = (r, db\<^sub>1)" by force
  note refused = refused_commit [OF c t assms(2)]
  have "isl res \<and> db' = db\<^sub>1"
    using assms(1) False t c refused(2) by (cases r) (auto simp: commit_batches.simps [of s env j])
  then show ?thesis using refused(1) by simp
qed

end

lemma history_never_back:
  assumes "etcd_history x y" "wf_etcd x" "mod_revision (et_kvs x) k \<noteq> r" "0 < r" "r \<le> et_revision x"
  shows "mod_revision (et_kvs y) k \<noteq> r"
  using history_changed [OF assms(1,2), of k] assms(3-5) by (auto simp: mod_revision_def)

context etcd_backed
begin

lemma refused_commitOps:
  assumes "commitOps s env db ops (leader_Guard key campaign) extra = (res, db')"
    and "mod_revision (kvs (env 0 db)) key \<noteq> campaign"
  shows "(view db' = view db \<or> view db' = view (env 0 db)) \<and> (\<not> isl res \<longrightarrow> ops = [])"
proof (cases "ops = []")
  case False
  then have "batch_size (maxOpsPerTxn s (length extra)) (length ops) \<noteq> 0"
    using batchSize_pos maxOpsPerTxn_pos by (metis length_greater_0_conv less_irrefl)
  then show ?thesis
    using refused_batches [of env 0 key campaign "batch_size (maxOpsPerTxn s (length extra)) (length ops)" extra ops db]
      assms False by (auto simp: commitOps_def)
qed (use assms in \<open>auto simp: commitOps_def\<close>)

lemma refused_DeleteExecutors:
  assumes "etcd_DeleteExecutors s env db ns ids (leader_Guard key campaign) = (res, db')"
    and "mod_revision (kvs (env 0 db)) key \<noteq> campaign"
  shows "(view db' = view db \<or> view db' = view (env 0 db)) \<and> (res = Inr () \<longrightarrow> ids = [])"
proof (cases "ids = []")
  case False
  let ?ops = "map (\<lambda>executorID. OpDeletePrefix (BuildExecutorIDPrefix (st_prefix s) ns executorID)) ids"
  obtain r db\<^sub>1 where c: "commitOps s env db ?ops (leader_Guard key campaign) [touchAssignmentVersion s ns] = (r, db\<^sub>1)"
    by force
  then show ?thesis
    using assms(1) False refused_commitOps [OF c assms(2)]
    by (cases r) (auto simp: etcd_DeleteExecutors_def commitAssignmentOps_def)
qed (use assms in \<open>auto simp: etcd_DeleteExecutors_def\<close>)

lemma refused_DeleteShardStats:
  assumes "etcd_DeleteShardStats ord s env db ns shards (leader_Guard key campaign) = (res, db')"
    and "mod_revision (kvs (env 0 db)) key \<noteq> campaign"
  shows "view db' = view db \<or> view db' = view (env 0 db)"
proof -
  consider "db' = db" | data r where
    "commitOps s env db (concat (map (stats_cleanup_ops s ns shards) (mrange ord data))) (leader_Guard key campaign) [] = (r, db')"
    using assms(1) unfolding etcd_DeleteShardStats_def Let_def
    by (auto split: if_splits sum.splits prod.splits)
  then show ?thesis
  proof cases
    case 2
    then show ?thesis using refused_commitOps [OF 2 assms(2)] by blast
  qed simp
qed

lemma AssignShards_spec:
  assumes ran: "etcd_AssignShards s db ns req guard = (res, db')"
    and guard: "guard_ok guard" and req: "storable_request req" and ns: "namespace_ok ns"
  shows "assign_spec req (et_revision (view db) + 1) (namespace_records K (st_prefix s) ns (view db)) res
    (namespace_records K (st_prefix s) ns (view db'))"
proof -
  let ?records = "\<lambda>db. namespace_records K (st_prefix s) ns (view db)"
  let ?wanted = "assignment_after req (et_revision (view db) + 1) (snd \<circ> ?records db)"
  have "snd \<circ> ?records db' = ?wanted \<and> expected_revisions req (?records db)"
    if "assign_applied s ns req (view db) (view db')"
  proof
    show "snd \<circ> ?records db' = ?wanted"
      by (rule records_after [OF req]) (rule applied_stored [OF that req ns])
    show "expected_revisions req (?records db)"
      using that expected_revisions_iff [OF req] by (auto simp: assign_applied_def)
  qed
  moreover have "snd \<circ> ?records db' = ?wanted" if "res = Inr ()"
    by (rule records_after [OF req]) (rule AssignShards_stored [OF ran [unfolded that] req ns])
  ultimately show ?thesis
    using AssignShards_outcome [OF ran guard] unfolding assign_spec_def Let_def by metis
qed

end

section \<open>Properties\<close>

text \<open>
  C2. The write of assignments refines its contract, on every outcome: the records of the
  namespace change all together, exactly as the request says, or not at all. They change only if
  every record the request mentions still has the revision it was read at. No error means done;
  an error other than that of the commit itself means nothing happened, a version conflict or a
  lost leadership in particular.
\<close>
theorem assign_shards_refines:
  assumes "etcd_backed C view K s" and "guard_ok guard" and "storable_request req" and "namespace_ok ns"
    and "etcd_AssignShards s db ns req guard = (res, db')"
  shows "assign_spec req (et_revision (view db) + 1) (namespace_records K (st_prefix s) ns (view db)) res
    (namespace_records K (st_prefix s) ns (view db'))"
  by (rule etcd_backed.AssignShards_spec [OF assms(1,5,2-4)])

theorem assign_shards_refines_witness:
  "assign_spec demo_request 3 (namespace_records reference_codec ''/p'' ''ns'' demo_db)
     (fst (etcd_AssignShards demo_store demo_db ''ns'' demo_request (leader_Guard ''/p/ns/leader/1'' 0)))
     (namespace_records reference_codec ''/p'' ''ns''
       (as_etcd (snd (etcd_AssignShards demo_store demo_db ''ns'' demo_request (leader_Guard ''/p/ns/leader/1'' 0)))))"
  using assign_shards_refines [OF demo_backed guards_ok(2) demo_storable demo_namespace(1),
      of demo_db "''/p/ns/leader/1''" 0] demo_wf
  by (simp add: demo_namespace(2) demo_db_def)



section \<open>Resetting a namespace\<close>

lemma filter_mput_other: "\<not> P k \<Longrightarrow> filter (\<lambda>(k, _). P k) (mput k v m) = filter (\<lambda>(k, _). P k) m"
  by (induction m) auto

lemma range_prefix_mput_other: "\<not> prefix p k \<Longrightarrow> range_prefix p (mput k v m) = range_prefix p m"
  by (simp add: range_prefix_def filter_mput_other)

lemma range_prefix_delete_other:
  assumes "\<And>k. prefix p k \<Longrightarrow> \<not> prefix q k"
  shows "range_prefix p (delete_prefix q m) = range_prefix p m"
proof -
  have "filter (\<lambda>(k, _). prefix p k) (delete_prefix q m) = filter (\<lambda>(k, _). prefix p k) m"
    unfolding delete_prefix_def filter_filter by (rule filter_cong) (use assms in auto)
  then show ?thesis by (simp add: range_prefix_def)
qed

lemma namespace_disjoint:
  assumes "namespace_ok ns" "namespace_ok ns'" "ns \<noteq> ns'" "prefix (BuildNamespacePrefix pre ns') p"
    and "prefix p k"
  shows "\<not> prefix (BuildNamespacePrefix pre ns) k"
  using namespace_prefixes [of pre ns k ns'] assms prefix_order.trans [OF assms(4,5)]
  by (auto simp: namespace_ok_def)

context etcd_backed
begin

lemma ResetNamespace_done:
  assumes "ResetNamespace s db ns = (Inr n, db')"
  shows "kvs db' = mput (BuildAssignmentVersionKey (st_prefix s) ns) (Bytes K ''{}'', et_revision (view db) + 1)
      (delete_prefix (BuildNamespacePrefix (st_prefix s) ns) (kvs db))"
    and "et_revision (view db') = et_revision (view db) + 1"
    and "n = int (length (filter (\<lambda>(k, _). prefix (BuildNamespacePrefix (st_prefix s) ns) k) (kvs db)))"
proof -
  let ?t = "empty_Txn\<lparr>Then := [OpDeletePrefix (BuildNamespacePrefix (st_prefix s) ns), touchAssignmentVersion s ns]\<rparr>"
  obtain r db\<^sub>1 where c: "Commit C ?t db = (r, db\<^sub>1)" by force
  then obtain resp where r: "r = Inr resp" using assms by (cases r) (auto simp: ResetNamespace_def)
  have db': "db' = db\<^sub>1"
    using assms c r by (auto simp: ResetNamespace_def split: list.splits OpResponse.splits)
  have "view db' = snd (run_txn ?t (view db))" "resp = fst (run_txn ?t (view db))"
    using commit_done [OF c [unfolded r]] db' by simp_all
  then show "kvs db' = mput (BuildAssignmentVersionKey (st_prefix s) ns) (Bytes K ''{}'', et_revision (view db) + 1)
      (delete_prefix (BuildNamespacePrefix (st_prefix s) ns) (kvs db))"
    and "et_revision (view db') = et_revision (view db) + 1"
    and "n = int (length (filter (\<lambda>(k, _). prefix (BuildNamespacePrefix (st_prefix s) ns) k) (kvs db)))"
    using assms c r
    by (auto simp: run_txn_def Let_def empty_Txn_def touchAssignmentVersion_def ResetNamespace_def)
qed

end

text \<open>
  C32. Resetting a namespace removes everything it has and nothing else. It returns the number of
  keys removed; afterwards no key of the namespace is left, so a leader elected before loses its
  guard, the assignment version is the one key written, and another namespace reads as before,
  up to the revision of the store.
\<close>
theorem reset_namespace_isolated:
  assumes "etcd_backed C view K s" and "namespace_ok ns" and "ResetNamespace s db ns = (Inr n, db')"
    and "namespace_ok ns'" and "ns' \<noteq> ns"
    and "etcd_GetState ord s db ns' = (Inr st, db\<^sub>1)" and "etcd_GetState ord s db' ns' = (Inr st', db\<^sub>2)"
  shows "n = int (length (filter (\<lambda>(k, _). prefix (BuildNamespacePrefix (st_prefix s) ns) k) (et_kvs (view db))))
    \<and> mod_revision (et_kvs (view db')) (BuildAssignmentVersionKey (st_prefix s) ns) = et_revision (view db) + 1
    \<and> (\<forall>k. prefix (BuildNamespacePrefix (st_prefix s) ns) k \<longrightarrow> mget (et_kvs (view db')) k = None)
    \<and> (\<forall>k. \<not> prefix (BuildNamespacePrefix (st_prefix s) ns) k \<and> k \<noteq> BuildAssignmentVersionKey (st_prefix s) ns
        \<longrightarrow> mget (et_kvs (view db')) k = mget (et_kvs (view db)) k)
    \<and> st' = st\<lparr>Revision := et_revision (view db) + 1\<rparr>"
proof -
  let ?m = "et_kvs (view db)" and ?m' = "et_kvs (view db')" and ?pre = "st_prefix s"
  let ?v = "BuildAssignmentVersionKey ?pre ns"
  note reset = etcd_backed.ResetNamespace_done [OF assms(1,3)]
  have v: "\<not> prefix (BuildNamespacePrefix ?pre x) ?v" if "namespace_ok x" for x
    using version_key_outside [of x ?pre ns] that by (simp add: namespace_ok_def)
  have same: "range_prefix p ?m' = range_prefix p ?m" if "prefix (BuildNamespacePrefix ?pre ns') p" for p
  proof -
    have "\<not> prefix p ?v" using v [OF assms(4)] prefix_order.trans [OF that] by blast
    then show ?thesis
      unfolding reset(1) using namespace_disjoint [OF assms(2,4) assms(5) [symmetric] that]
      by (simp add: range_prefix_mput_other range_prefix_delete_other)
  qed
  have "st' = st\<lparr>Revision := et_revision (view db) + 1\<rparr>"
  proof (rule etcd_backed.GetState_read [OF assms(1,6)])
    fix data
    assume data: "ParseExecutorKVs K ?pre ns' (range_prefix (BuildExecutorsPrefix ?pre ns') ?m) = Inr data"
      and st: "st = namespaceState_of ord data
        (parseDrainedShardKVs ?pre ns' (range_prefix (BuildDrainedShardsPrefix ?pre ns') ?m))
        (parseDrainedHostKVs K ?pre ns' (range_prefix (BuildDrainedHostsPrefix ?pre ns') ?m)) (et_revision (view db))"
    obtain data' where data': "ParseExecutorKVs K ?pre ns' (range_prefix (BuildExecutorsPrefix ?pre ns') ?m') = Inr data'"
      and st': "st' = namespaceState_of ord data'
        (parseDrainedShardKVs ?pre ns' (range_prefix (BuildDrainedShardsPrefix ?pre ns') ?m'))
        (parseDrainedHostKVs K ?pre ns' (range_prefix (BuildDrainedHostsPrefix ?pre ns') ?m')) (et_revision (view db'))"
      by (rule etcd_backed.GetState_read [OF assms(1,7)])
    have "data' = data" using data data' by (simp add: same namespace_prefix_of)
    then show ?thesis by (simp add: st st' same namespace_prefix_of reset(2) namespaceState_of_def)
  qed
  then show ?thesis
    using reset(3) v [OF assms(2)] by (auto simp: reset(1) mod_revision_def mget_mput mget_delete_prefix)
qed

definition two_namespaces :: "blob etcd" where
  "two_namespaces = \<lparr>et_kvs = [(''/p/ns/executors/a/heartbeat'', Raw ''0'', 1), (''/p/other/executors/c/heartbeat'', Raw ''00'', 2)],
     et_revision = 2\<rparr>"

definition other_namespace :: "blob etcd" where
  "other_namespace = \<lparr>et_kvs = [(''/p/other/executors/c/heartbeat'', Raw ''00'', 2), (''/p/_assignment_versions/ns'', Raw ''{}'', 3)],
     et_revision = 3\<rparr>"

definition heartbeat_only :: HeartbeatState where
  "heartbeat_only = \<lparr>LastHeartbeat = 2, hb_Status = ExecutorStatusINVALID, ReportedShards = [], hb_Metadata = [],
     hb_HostMetadata = None\<rparr>"

definition other_state :: NamespaceState where
  "other_state = \<lparr>ExecutorMetadata = [(''c'', [])], ShardAssignments = [], DrainedShards = [], Revision = 2,
     AssignmentRevision = 0, Executors = [(''c'', heartbeat_only)], ShardStats = [], DrainedHosts = []\<rparr>"

lemma two_namespaces_read: "etcd_GetState (\<lambda>xs. xs) demo_store two_namespaces ''other'' = (Inr other_state, two_namespaces)"
  by code_simp

lemma two_namespaces_reset: "ResetNamespace demo_store two_namespaces ''ns'' = (Inr 1, other_namespace)"
  by code_simp

lemma other_namespace_read:
  "etcd_GetState (\<lambda>xs. xs) demo_store other_namespace ''other'' = (Inr (other_state\<lparr>Revision := 3\<rparr>), other_namespace)"
  by code_simp

theorem reset_namespace_isolated_witness:
  "mget (et_kvs (as_etcd other_namespace)) ''/p/ns/executors/a/heartbeat'' = None"
proof -
  have ns: "namespace_ok ''other''" "''other'' \<noteq> ''ns''" by (simp_all add: namespace_ok_def AssignmentVersionsDir_def)
  have "prefix (BuildNamespacePrefix ''/p'' ''ns'') ''/p/ns/executors/a/heartbeat''" by code_simp
  then show ?thesis
    using reset_namespace_isolated [OF demo_backed demo_namespace(1) two_namespaces_reset ns
        two_namespaces_read other_namespace_read] by (simp add: demo_namespace(2))
qed

section \<open>The light read\<close>

text \<open>What the two parsers have read so far agrees.\<close>

definition same_parse ::
    "(string, ParsedExecutorData) gomap \<Rightarrow> (string, (string, string) gomap) gomap \<Rightarrow> (string, AssignedState) gomap \<Rightarrow> bool" where
  "same_parse data metadata assignments =
     (\<forall>e. mget metadata e = map_option pd_Metadata (mget data e)
        \<and> mget assignments e = Option.bind (mget data e) (\<lambda>d. map_option ToAssignedState (pd_AssignedState d)))"

lemma same_parse_put:
  assumes "same_parse data metadata assignments" "pd_Metadata d = md"
    and "pd_AssignedState d = pd_AssignedState (mzero newParsedExecutorData data e)"
  shows "same_parse (mput e d data) (mput e md metadata) assignments"
  using assms by (auto simp: same_parse_def mget_mput mzero_def newParsedExecutorData_def split: option.splits)

lemma same_parse_put_assigned:
  assumes "same_parse data metadata assignments" "pd_Metadata d = md" "pd_AssignedState d = Some a"
  shows "same_parse (mput e d data) (mput e md metadata) (mput e (ToAssignedState a) assignments)"
  using assms by (auto simp: same_parse_def mget_mput)

lemma same_parse_metadata:
  "same_parse data metadata assignments \<Longrightarrow> pd_Metadata (mzero newParsedExecutorData data e) = mzero [] metadata e"
  by (auto simp: same_parse_def mzero_def newParsedExecutorData_def split: option.splits)

lemma parsers_agree:
  "ParseExecutorKVs_loop K pre ns kvs data = Inr data' \<Longrightarrow> same_parse data metadata assignments \<Longrightarrow>
     \<exists>metadata' assignments'. ParseExecutorAssignmentKVs_loop K pre ns kvs (metadata, assignments) =
         Inr (metadata', assignments') \<and> same_parse data' metadata' assignments'"
proof (induction kvs arbitrary: data metadata assignments)
  case (Cons kv kvs)
  from Cons.prems(1) obtain e t where k: "ParseExecutorKey pre ns (kv_Key kv) = Inr (e, t)"
    by (cases "ParseExecutorKey pre ns (kv_Key kv)") auto
  let ?d = "mzero newParsedExecutorData data e"
  note md = same_parse_metadata [OF Cons.prems(2), of e]
  show ?case
  proof (cases "parse_executor_value K pre ns e t kv ?d")
    case None
    then have "t \<notin> {ExecutorHeartbeatKey, ExecutorStatusKey, ExecutorReportedShardsKey, ExecutorAssignedStateKey,
        ExecutorMetadataKey, ExecutorShardStatisticsKey, ExecutorHostMetadataKey}"
      by (auto simp: parse_executor_value_def Let_def split: if_splits)
    then show ?thesis using Cons k None by simp
  next
    case (Some r)
    then obtain d where r: "r = Inr d" using Cons.prems(1) k by (cases r) auto
    have step: "ParseExecutorKVs_loop K pre ns kvs (mput e d data) = Inr data'"
      using Cons.prems(1) k Some r by simp
    consider (assigned) "t = ExecutorAssignedStateKey" | (metadata) "t = ExecutorMetadataKey"
      | (other) "t \<in> {ExecutorHeartbeatKey, ExecutorStatusKey, ExecutorReportedShardsKey, ExecutorShardStatisticsKey,
          ExecutorHostMetadataKey}"
      using Some by (auto simp: parse_executor_value_def Let_def split: if_splits)
    then show ?thesis
    proof cases
      case assigned
      then obtain a where "DecompressAndUnmarshal K (unmarshal_AssignedState K) (kv_Value kv) = Inr a"
        "d = ?d\<lparr>pd_AssignedState := Some (a\<lparr>ModRevision := kv_ModRevision kv\<rparr>)\<rparr>"
        using Some r by (auto simp: parse_executor_value_def key_types wrap_Inr)
      then show ?thesis
        using Cons.IH [OF step same_parse_put_assigned [OF Cons.prems(2)]] k assigned md
        by (simp add: key_types)
    next
      case metadata
      then show ?thesis
        using Cons.IH [OF step same_parse_put [OF Cons.prems(2)]] k md Some r
        by (auto simp: key_types parse_executor_value_def Let_def)
    next
      case other
      then have "pd_Metadata d = mzero [] metadata e" "pd_AssignedState d = pd_AssignedState ?d"
        using Some r md by (auto simp: parse_executor_value_def key_types wrap_Inr Let_def)
      then show ?thesis
        using Cons.IH [OF step same_parse_put [OF Cons.prems(2)]] k other by (auto simp: key_types)
    qed
  qed
qed simp

text \<open>
  C33. The light read agrees with the full one: from the same store, whenever the full state can
  be read and the commit of the light read succeeds, the light read returns the same metadata,
  assignments, drained shards and revision, and the revision of the assignment version.
\<close>
theorem light_read_agrees:
  assumes "etcd_backed C view K s" and "etcd_GetState ord s db ns = (Inr st, db\<^sub>1)"
    and "Commit C (GetAssignmentState_txn s ns) db = (Inr resp, db\<^sub>2)"
  shows "\<exists>a. GetAssignmentState s db ns = (Inr a, db\<^sub>2) \<and> view db\<^sub>2 = view db
    \<and> (\<forall>e. mget (ExecutorMetadata a) e = mget (ExecutorMetadata st) e
         \<and> mget (ShardAssignments a) e = mget (ShardAssignments st) e)
    \<and> DrainedShards a = DrainedShards st \<and> Revision a = Revision st
    \<and> AssignmentRevision a = mod_revision (et_kvs (view db)) (BuildAssignmentVersionKey (st_prefix s) ns)"
proof (rule etcd_backed.GetState_read [OF assms(1,2)])
  let ?m = "et_kvs (view db)" and ?pre = "st_prefix s"
  fix data
  assume data: "ParseExecutorKVs K ?pre ns (range_prefix (BuildExecutorsPrefix ?pre ns) ?m) = Inr data"
    and st: "st = namespaceState_of ord data
      (parseDrainedShardKVs ?pre ns (range_prefix (BuildDrainedShardsPrefix ?pre ns) ?m))
      (parseDrainedHostKVs K ?pre ns (range_prefix (BuildDrainedHostsPrefix ?pre ns) ?m)) (et_revision (view db))"
  note loop = data [unfolded ParseExecutorKVs_def]
  have wf: "wf_map data" by (rule wf_ParseExecutorKVs_loop [OF loop]) simp
  obtain metadata assignments where
    parsed: "ParseExecutorAssignmentKVs K ?pre ns (range_prefix (BuildExecutorsPrefix ?pre ns) ?m) = Inr (metadata, assignments)"
    and same: "same_parse data metadata assignments"
    using parsers_agree [OF loop, of "[]" "[]"] by (auto simp: same_parse_def ParseExecutorAssignmentKVs_def)
  have "run_txn (GetAssignmentState_txn s ns) (view db) = (resp, view db\<^sub>2)"
    by (rule etcd_client.commit_done [OF etcd_backed.axioms(1) [OF assms(1)] assms(3)])
  then have resp: "resp = \<lparr>Succeeded = True, Responses =
       [ResponseRange (range_prefix (BuildExecutorsPrefix ?pre ns) ?m),
        ResponseRange (range_prefix (BuildDrainedShardsPrefix ?pre ns) ?m),
        ResponseRange (range_key (BuildAssignmentVersionKey ?pre ns) ?m)],
       HeaderRevision = et_revision (view db)\<rparr>" and v: "view db\<^sub>2 = view db"
    by (auto simp: run_txn_def GetAssignmentState_txn_def empty_Txn_def Let_def)
  have store: "st_client s = C" "st_codec s = K"
    using assms(1) by (simp_all add: etcd_backed_def etcd_backed_axioms_def)
  have "mget (ExecutorMetadata st) e = mget metadata e \<and> mget (ShardAssignments st) e = mget assignments e" for e
    using same by (auto simp: same_parse_def st namespaceState_of_def mget_store_loop [OF wf] split: option.splits)
  then show ?thesis
    using assms(3) parsed v
    by (auto simp: GetAssignmentState_def store resp range_kvs_def Let_def st namespaceState_of_def range_key_def
        mod_revision_def split: option.splits)
qed

theorem light_read_agrees_witness:
  "\<exists>a. GetAssignmentState demo_store demo_db ''ns'' = (Inr a, demo_db) \<and> AssignmentRevision a = 2
     \<and> mget (ExecutorMetadata a) ''a'' = Some [(''zone'', ''z'')]"
proof -
  have "\<exists>resp. Commit reference_client (GetAssignmentState_txn demo_store ''ns'') demo_db = (Inr resp, demo_db)"
    by (rule exI [of _ "projr (fst (Commit reference_client (GetAssignmentState_txn demo_store ''ns'') demo_db))"]) code_simp
  moreover have "mod_revision (et_kvs (as_etcd demo_db)) (BuildAssignmentVersionKey (st_prefix demo_store) ''ns'') = 2"
    by code_simp
  ultimately show ?thesis
    using light_read_agrees [OF demo_backed demo_snapshot] by (fastforce simp: demo_state_def)
qed

end
