(* ===== verification/StoreHeartbeat.thy ===== *)
theory StoreHeartbeat
  imports StoreRefinement
begin

text \<open>
  A heartbeat written by \<open>RecordHeartbeat\<close> is what \<open>GetExecutorState\<close> reads back, and it leaves
  the assignment of the executor alone.
\<close>

section \<open>What the parser reads\<close>

lemma parsed_mono: "ParseExecutorKVs_loop K pre ns kvs data = Inr data' \<Longrightarrow> mhas data e \<Longrightarrow> mhas data' e"
  by (induction K pre ns kvs data rule: ParseExecutorKVs_loop.induct)
     (auto split: sum.splits prod.splits option.splits)

lemma parsed_has:
  assumes "parse_executor_value K pre ns e t kv newParsedExecutorData \<noteq> None"
    and "ParseExecutorKey pre ns (kv_Key kv) = Inr (e, t)"
  shows "ParseExecutorKVs_loop K pre ns kvs data = Inr data' \<Longrightarrow> kv \<in> set kvs \<Longrightarrow> mhas data' e"
proof (induction kvs arbitrary: data)
  case (Cons kv' kvs)
  show ?case
  proof (cases "kv' = kv")
    case True
    have "parse_executor_value K pre ns e t kv (mzero newParsedExecutorData data e) \<noteq> None"
      using assms(1) parse_value_skip by metis
    then obtain d where "ParseExecutorKVs_loop K pre ns kvs (mput e d data) = Inr data'"
      using Cons.prems(1) assms(2) True by (auto split: sum.splits)
    then show ?thesis by (rule parsed_mono) simp
  next
    case False
    then show ?thesis using Cons by (auto split: sum.splits prod.splits option.splits)
  qed
qed simp

text \<open>The metadata of an executor is stored under one key per entry.\<close>

lemma parsed_metadata:
  assumes slash: "CHR ''/'' \<notin> set e"
  shows "ParseExecutorKVs_loop K pre ns kvs data = Inr data' \<Longrightarrow> distinct (map kv_Key kvs) \<Longrightarrow>
    \<forall>kv \<in> set kvs. kv_Key kv \<noteq> BuildExecutorKey pre ns e ExecutorMetadataKey \<Longrightarrow>
    mget (pd_Metadata (mzero newParsedExecutorData data' e)) mk =
      (case find (\<lambda>kv. kv_Key kv = BuildMetadataKey pre ns e mk) kvs of
         None \<Rightarrow> mget (pd_Metadata (mzero newParsedExecutorData data e)) mk
       | Some kv \<Rightarrow> Some (Text K (kv_Value kv)))"
proof (induction kvs arbitrary: data)
  case (Cons kv kvs)
  from Cons.prems(1) obtain e' t' where k: "ParseExecutorKey pre ns (kv_Key kv) = Inr (e', t')"
    by (cases "ParseExecutorKey pre ns (kv_Key kv)") auto
  let ?d = "mzero newParsedExecutorData data e'"
  have meta: "ParseExecutorKey pre ns (BuildMetadataKey pre ns e mk) = Inr (e, ExecutorMetadataKey)" for mk
    using slash by (auto simp: ParseExecutorKey_iff)
  show ?case
  proof (cases "parse_executor_value K pre ns e' t' kv ?d")
    case None
    then have "t' \<noteq> ExecutorMetadataKey" by (auto simp: parse_executor_value_def key_types Let_def)
    then have "kv_Key kv \<noteq> BuildMetadataKey pre ns e mk" using k meta by auto
    then show ?thesis using Cons None k by auto
  next
    case (Some r)
    then obtain d' where d': "r = Inr d'" using Cons.prems(1) k by (cases r) auto
    have step: "ParseExecutorKVs_loop K pre ns kvs (mput e' d' data) = Inr data'"
      using Cons.prems(1) k Some d' by simp
    note IH = Cons.IH [OF step]
    show ?thesis
    proof (cases "e' = e \<and> t' = ExecutorMetadataKey")
      case True
      then obtain mk' where mk': "kv_Key kv = BuildMetadataKey pre ns e mk'"
        using k Cons.prems(3) by (auto simp: ParseExecutorKey_iff)
      have inj: "BuildMetadataKey pre ns e mk' = BuildMetadataKey pre ns e mk \<longleftrightarrow> mk' = mk"
        by (simp add: BuildMetadataKey_def)
      have "TrimPrefix (BuildMetadataKey pre ns e mk') (BuildMetadataKey pre ns e []) = mk'"
        by (simp add: BuildMetadataKey_def TrimPrefix_def prefix_def)
      then have d: "d' = ?d\<lparr>pd_Metadata := mput mk' (Text K (kv_Value kv)) (pd_Metadata ?d)\<rparr>"
        using Some d' True mk' by (auto simp: parse_executor_value_def key_types Let_def)
      show ?thesis
      proof (cases "mk' = mk")
        case same: True
        then have "find (\<lambda>kv. kv_Key kv = BuildMetadataKey pre ns e mk) kvs = None"
          using Cons.prems(2) mk' by (force simp: find_None_iff)
        then show ?thesis using IH Cons.prems(2,3) same True mk' d by (simp add: mzero_mput mget_mput)
      next
        case False
        then show ?thesis
          using IH Cons.prems(2,3) inj True mk' d by (auto simp: mzero_mput mget_mput split: option.splits)
      qed
    next
      case False
      then have "kv_Key kv \<noteq> BuildMetadataKey pre ns e mk" using k meta by auto
      moreover have "pd_Metadata (mzero newParsedExecutorData (mput e' d' data) e) =
          pd_Metadata (mzero newParsedExecutorData data e)"
        using False Some d' by (auto simp: mzero_mput parse_executor_value_def wrap_Inr Let_def split: if_splits)
      ultimately show ?thesis using IH Cons.prems(2,3) by (auto split: option.splits)
    qed
  qed
qed simp

section \<open>What a heartbeat writes\<close>

definition heartbeat_pairs ::
    "('db, 'v) executorStoreImpl \<Rightarrow> string \<Rightarrow> string \<Rightarrow> HeartbeatState \<Rightarrow> 'v \<Rightarrow> 'v \<Rightarrow> (string \<times> 'v) list" where
  "heartbeat_pairs s ns e hb reported status =
     [(BuildExecutorKey (st_prefix s) ns e ExecutorHeartbeatKey, Bytes (st_codec s) (FormatTime (st_codec s) (LastHeartbeat hb))),
      (BuildExecutorKey (st_prefix s) ns e ExecutorStatusKey, status),
      (BuildExecutorKey (st_prefix s) ns e ExecutorReportedShardsKey, reported)]
     @ map (\<lambda>(k, v). (BuildMetadataKey (st_prefix s) ns e k, Bytes (st_codec s) v)) (hb_Metadata hb)
     @ (case hb_HostMetadata hb of None \<Rightarrow> []
        | Some h \<Rightarrow> [(BuildExecutorKey (st_prefix s) ns e ExecutorHostMetadataKey,
                      json_print (st_codec s) (marshal_HostMetadata h))])"

lemma executor_key_simps:
  "BuildExecutorKey pre ns e t = BuildExecutorKey pre ns e t' \<longleftrightarrow> t = t'"
  "BuildMetadataKey pre ns e k = BuildMetadataKey pre ns e k' \<longleftrightarrow> k = k'"
  "BuildExecutorKey pre ns e t = BuildMetadataKey pre ns e k \<longleftrightarrow> t = ExecutorMetadataKey @ CHR ''/'' # k"
  "BuildMetadataKey pre ns e k = BuildExecutorKey pre ns e t \<longleftrightarrow> t = ExecutorMetadataKey @ CHR ''/'' # k"
  by (auto simp: BuildExecutorKey_def BuildMetadataKey_def)

lemma wf_heartbeat_pairs:
  assumes "wf_map (hb_Metadata hb)"
  shows "wf_map (heartbeat_pairs s ns e hb reported status)"
proof -
  let ?f = "\<lambda>(k, v). (BuildMetadataKey (st_prefix s) ns e k, Bytes (st_codec s) v)"
  have "distinct (map (fst \<circ> ?f) (hb_Metadata hb)) \<longleftrightarrow>
      distinct (map (BuildMetadataKey (st_prefix s) ns e) (mkeys (hb_Metadata hb)))"
    by (simp add: comp_def split_beta)
  also have "\<dots>"
    using assms by (simp add: wf_map_def distinct_map inj_on_def executor_key_simps del: map_map)
  finally show ?thesis
    by (auto simp: wf_map_def heartbeat_pairs_def executor_key_simps key_types split: option.splits)
qed

lemma mget_metadata_pairs:
  "mget (map (\<lambda>(k, v). (BuildMetadataKey pre ns e k, f v)) m) (BuildMetadataKey pre ns e k) = map_option f (mget m k)"
  by (induction m) (auto simp: executor_key_simps)

lemma mget_metadata_other:
  "CHR ''/'' \<notin> set t \<Longrightarrow> mget (map (\<lambda>(k, v). (BuildMetadataKey pre ns e k, f v)) m) (BuildExecutorKey pre ns e t) = None"
  by (induction m) (auto simp: executor_key_simps)

lemma mget_heartbeat_pairs:
  "mget (heartbeat_pairs s ns e hb reported status) (BuildExecutorKey (st_prefix s) ns e ExecutorHeartbeatKey) =
     Some (Bytes (st_codec s) (FormatTime (st_codec s) (LastHeartbeat hb)))"
  "mget (heartbeat_pairs s ns e hb reported status) (BuildExecutorKey (st_prefix s) ns e ExecutorStatusKey) = Some status"
  "mget (heartbeat_pairs s ns e hb reported status) (BuildExecutorKey (st_prefix s) ns e ExecutorReportedShardsKey) = Some reported"
  "mget (heartbeat_pairs s ns e hb reported status) (BuildExecutorKey (st_prefix s) ns e ExecutorHostMetadataKey) =
     map_option (\<lambda>h. json_print (st_codec s) (marshal_HostMetadata h)) (hb_HostMetadata hb)"
  "mget (heartbeat_pairs s ns e hb reported status) (BuildMetadataKey (st_prefix s) ns e k) =
     map_option (Bytes (st_codec s)) (mget (hb_Metadata hb) k)"
  "mget (heartbeat_pairs s ns e hb reported status) (assigned_key (st_prefix s) ns e) = None"
  by (auto simp: heartbeat_pairs_def assigned_key_def executor_key_simps key_types map_add_def mget_metadata_pairs
      mget_metadata_other split: option.splits)

lemma heartbeat_pairs_prefix:
  "(k, v) \<in> set (heartbeat_pairs s ns e hb reported status) \<Longrightarrow> prefix (BuildExecutorIDPrefix (st_prefix s) ns e) k"
  by (auto simp: heartbeat_pairs_def namespace_prefix_of split: option.splits)

lemma ops_effect_pairs:
  "wf_map ps \<Longrightarrow> ops_effect m\<^sub>0 r (map (\<lambda>(k, v). OpPut k v) ps) k old =
     (case mget ps k of None \<Rightarrow> old | Some v \<Rightarrow> Some (v, r))"
  using ops_effect_puts [of ps "\<lambda>k. k" k m\<^sub>0 r "\<lambda>v. v" old] by simp

context etcd_backed
begin

lemma RecordHeartbeat_done:
  assumes ran: "RecordHeartbeat s db ns e hb = (Inr u, db')"
    and ns: "namespace_ok ns" and wf: "wf_map (hb_Metadata hb)"
  obtains j reported status where "marshal_ReportedShards (ReportedShards hb) = Inr j"
    and "Write K (st_writer s) (json_print K j) = Inr reported"
    and "Write K (st_writer s) (json_print K (ExecutorStatus_MarshalJSON (hb_Status hb))) = Inr status"
    and "\<And>k. prefix (BuildExecutorIDPrefix (st_prefix s) ns e) k \<Longrightarrow> mget (kvs db') k =
      (case mget (heartbeat_pairs s ns e hb reported status) k of
         None \<Rightarrow> mget (kvs db) k | Some v \<Rightarrow> Some (v, et_revision (view db) + 1))"
    and "(\<exists>k v. mget (hb_Metadata hb) k = Some v
        \<and> map_option fst (mget (kvs db) (BuildMetadataKey (st_prefix s) ns e k)) \<noteq> Some (Bytes K v)) \<Longrightarrow>
      mod_revision (kvs db') (BuildAssignmentVersionKey (st_prefix s) ns) = et_revision (view db) + 1"
proof -
  obtain j where j: "marshal_ReportedShards (ReportedShards hb) = Inr j"
    using ran by (cases "marshal_ReportedShards (ReportedShards hb)") (auto simp: RecordHeartbeat_def)
  obtain reported where reported: "Write K (st_writer s) (json_print K j) = Inr reported"
    using ran j by (cases "Write K (st_writer s) (json_print K j)") (auto simp: RecordHeartbeat_def)
  obtain status where status: "Write K (st_writer s) (json_print K (ExecutorStatus_MarshalJSON (hb_Status hb))) = Inr status"
    using ran j reported by (cases "Write K (st_writer s) (json_print K (ExecutorStatus_MarshalJSON (hb_Status hb)))")
      (auto simp: RecordHeartbeat_def)
  let ?ps = "heartbeat_pairs s ns e hb reported status"
  let ?ops = "map (\<lambda>(k, v). OpPut k v) ?ps" and ?touch = "touchAssignmentVersion s ns"
  let ?unchanged = "map (\<lambda>(k, v). CmpValue (BuildMetadataKey (st_prefix s) ns e k) (Bytes K v)) (hb_Metadata hb)"
  let ?t = "\<lparr>If = ?unchanged, Then = ?ops, Else = ?ops @ [?touch]\<rparr>"
  obtain r db\<^sub>1 where c: "Commit C ?t db = (r, db\<^sub>1)" by force
  have ops: "?ops =
      [OpPut (BuildExecutorKey (st_prefix s) ns e ExecutorHeartbeatKey) (Bytes K (FormatTime K (LastHeartbeat hb))),
       OpPut (BuildExecutorKey (st_prefix s) ns e ExecutorStatusKey) status,
       OpPut (BuildExecutorKey (st_prefix s) ns e ExecutorReportedShardsKey) reported]
      @ map (\<lambda>(key, val). OpPut (BuildMetadataKey (st_prefix s) ns e key) (Bytes K val)) (hb_Metadata hb)
      @ (case hb_HostMetadata hb of None \<Rightarrow> []
         | Some h \<Rightarrow> [OpPut (BuildExecutorKey (st_prefix s) ns e ExecutorHostMetadataKey)
                        (json_print K (marshal_HostMetadata h))])"
    by (simp add: heartbeat_pairs_def comp_def split_beta split: option.splits)
  obtain resp where r: "r = Inr resp" "db' = db\<^sub>1"
    using ran j reported status c unfolding ops by (cases r) (auto simp: RecordHeartbeat_def Let_def)
  have c': "Commit C ?t db = (Inr resp, db')" using c r by simp
  note after = commit_get [OF c']
  have version: "\<not> prefix (BuildExecutorIDPrefix (st_prefix s) ns e) (BuildAssignmentVersionKey (st_prefix s) ns)"
    using version_key_outside [of ns "st_prefix s" ns] ns namespace_prefix_of(1,4) prefix_order.trans
    unfolding namespace_ok_def by metis
  show thesis
  proof (rule that [OF j reported status])
    show "mget (kvs db') k = (case mget ?ps k of None \<Rightarrow> mget (kvs db) k | Some v \<Rightarrow> Some (v, et_revision (view db) + 1))"
      if "prefix (BuildExecutorIDPrefix (st_prefix s) ns e) k" for k
    proof -
      have "k \<noteq> BuildAssignmentVersionKey (st_prefix s) ns" using that version by auto
      then show ?thesis
        using after(1) [of k] by (simp add: ops_effect_pairs [OF wf_heartbeat_pairs [OF wf]] touchAssignmentVersion_def)
    qed
    assume "\<exists>k v. mget (hb_Metadata hb) k = Some v
        \<and> map_option fst (mget (kvs db) (BuildMetadataKey (st_prefix s) ns e k)) \<noteq> Some (Bytes K v)"
    then have "\<not> list_all (holds_cmp (kvs db)) ?unchanged"
      by (fastforce simp: list_all_iff dest: map_of_SomeD)
    then have "\<not> Succeeded resp" using after(2) by simp
    then show "mod_revision (kvs db') (BuildAssignmentVersionKey (st_prefix s) ns) = et_revision (view db) + 1"
      using after(1) [of "BuildAssignmentVersionKey (st_prefix s) ns"]
      by (simp add: touchAssignmentVersion_def mod_revision_def)
  qed
qed

end

section \<open>Properties\<close>

context etcd_backed
begin

text \<open>Reading the executor's keys after the heartbeat; \<open>m\<close> is the store then.\<close>

lemma read_after_heartbeat:
  assumes j: "marshal_ReportedShards (ReportedShards hb) = Inr j" "wf_map (ReportedShards hb)"
    and reported: "Write K (st_writer s) (json_print K j) = Inr reported"
    and status: "Write K (st_writer s) (json_print K (ExecutorStatus_MarshalJSON (hb_Status hb))) = Inr status"
    and after: "\<And>k. prefix (BuildExecutorIDPrefix (st_prefix s) ns e) k \<Longrightarrow> mget m' k =
      (case mget (heartbeat_pairs s ns e hb reported status) k of None \<Rightarrow> mget m k | Some v \<Rightarrow> Some (v, r))"
    and wf: "wf_map m" "wf_map m'" and time: "rfc3339_time (LastHeartbeat hb)" and e: "CHR ''/'' \<notin> set e"
    and readable: "list_all (readable_kv K (st_prefix s) ns) (range_prefix (BuildExecutorIDPrefix (st_prefix s) ns e) m)"
  shows "list_all (readable_kv K (st_prefix s) ns) (range_prefix (BuildExecutorIDPrefix (st_prefix s) ns e) m')"
  unfolding list_all_iff
proof
  let ?P = "BuildExecutorIDPrefix (st_prefix s) ns e" and ?ps = "heartbeat_pairs s ns e hb reported status"
  fix kv
  assume "kv \<in> set (range_prefix ?P m')"
  then have kv: "prefix ?P (kv_Key kv)" "mget m' (kv_Key kv) = Some (kv_Value kv, kv_ModRevision kv)"
    using wf(2) by (auto simp: set_range_prefix mget_eq_iff)
  show "readable_kv K (st_prefix s) ns kv"
  proof (cases "mget ?ps (kv_Key kv)")
    case None
    then have "mget m (kv_Key kv) = Some (kv_Value kv, kv_ModRevision kv)" using after [OF kv(1)] kv(2) by simp
    then have "kv \<in> set (range_prefix ?P m)" using kv(1) wf(1) by (simp add: set_range_prefix mget_eq_iff)
    then show ?thesis using readable by (simp add: list_all_iff)
  next
    case (Some v)
    then have v: "(kv_Key kv, v) \<in> set ?ps" "kv_Value kv = v"
      using after [OF kv(1)] kv(2) by (auto dest: map_of_SomeD)
    have fields: "DecompressAndUnmarshal K ExecutorStatus_UnmarshalJSON status = Inr (hb_Status hb)"
      "DecompressAndUnmarshal K unmarshal_ReportedShards reported = Inr (ReportedShards hb)"
      using read_written [OF status, of ExecutorStatus_UnmarshalJSON] read_written [OF reported, of unmarshal_ReportedShards]
        ReportedShards_JSON [OF j(2,1)] by simp_all
    have key: "ParseExecutorKey (st_prefix s) ns (BuildExecutorKey (st_prefix s) ns e t) = Inr (e, t)"
      if "CHR ''/'' \<notin> set t" for t
      using e that by (simp add: ParseExecutorKey_iff)
    have meta: "ParseExecutorKey (st_prefix s) ns (BuildMetadataKey (st_prefix s) ns e k) = Inr (e, ExecutorMetadataKey)" for k
      using e by (auto simp: ParseExecutorKey_iff)
    show ?thesis
      using v by (auto simp: heartbeat_pairs_def readable_kv_def key meta fields parse_executor_value_def
          ParseTime_def FormatTime_def parse_format [OF time] HostMetadata_JSON Let_def split: option.splits)
        (use fields in \<open>simp_all add: key_types\<close>)
  qed
qed

text \<open>The fields that are read, given the store after the heartbeat.\<close>

lemma heartbeat_fields:
  assumes parse: "ParseExecutorKVs K (st_prefix s) ns (range_prefix (BuildExecutorIDPrefix (st_prefix s) ns e) m') = Inr data"
    and wf: "wf_map m'" and e: "CHR ''/'' \<notin> set e"
  shows "mget m' (BuildExecutorKey (st_prefix s) ns e ExecutorHeartbeatKey) = Some (v, r) \<Longrightarrow>
      pd_LastHeartbeat (mzero newParsedExecutorData data e) = projr (ParseTime K (Text K v))"
    and "mget m' (BuildExecutorKey (st_prefix s) ns e ExecutorStatusKey) = Some (v, r) \<Longrightarrow>
      pd_Status (mzero newParsedExecutorData data e) = projr (DecompressAndUnmarshal K ExecutorStatus_UnmarshalJSON v)"
    and "mget m' (BuildExecutorKey (st_prefix s) ns e ExecutorReportedShardsKey) = Some (v, r) \<Longrightarrow>
      pd_ReportedShards (mzero newParsedExecutorData data e) = projr (DecompressAndUnmarshal K unmarshal_ReportedShards v)"
    and "mget m' (BuildExecutorKey (st_prefix s) ns e ExecutorHostMetadataKey) = Some (v, r) \<Longrightarrow>
      pd_HostMetadata (mzero newParsedExecutorData data e) = Some (projr (bind_result (json_parse K v) unmarshal_HostMetadata))"
proof -
  let ?kvs = "range_prefix (BuildExecutorIDPrefix (st_prefix s) ns e) m'"
  note loop = parse [unfolded ParseExecutorKVs_def] and dist = distinct_range_prefix [OF wf, of "BuildExecutorIDPrefix (st_prefix s) ns e"]
  have find: "find (\<lambda>kv. kv_Key kv = BuildExecutorKey (st_prefix s) ns e t) ?kvs =
      map_option (\<lambda>(v, r). \<lparr>kv_Key = BuildExecutorKey (st_prefix s) ns e t, kv_Value = v, kv_ModRevision = r\<rparr>)
        (mget m' (BuildExecutorKey (st_prefix s) ns e t))" for t
    by (rule find_range_prefix [OF wf]) (rule namespace_prefix_of)
  show "pd_LastHeartbeat (mzero newParsedExecutorData data e) = projr (ParseTime K (Text K v))"
    if "mget m' (BuildExecutorKey (st_prefix s) ns e ExecutorHeartbeatKey) = Some (v, r)"
    by (subst parsed_field [where sel = pd_LastHeartbeat and t = ExecutorHeartbeatKey
          and val = "\<lambda>kv. projr (ParseTime K (Text K (kv_Value kv)))", OF _ _ _ e _ _ loop dist])
       (auto simp: parse_executor_value_def wrap_Inr Let_def key_types find that [unfolded key_types] split: if_splits)
  show "pd_Status (mzero newParsedExecutorData data e) = projr (DecompressAndUnmarshal K ExecutorStatus_UnmarshalJSON v)"
    if "mget m' (BuildExecutorKey (st_prefix s) ns e ExecutorStatusKey) = Some (v, r)"
    by (subst parsed_field [where sel = pd_Status and t = ExecutorStatusKey
          and val = "\<lambda>kv. projr (DecompressAndUnmarshal K ExecutorStatus_UnmarshalJSON (kv_Value kv))", OF _ _ _ e _ _ loop dist])
       (auto simp: parse_executor_value_def wrap_Inr Let_def key_types find that [unfolded key_types] split: if_splits)
  show "pd_ReportedShards (mzero newParsedExecutorData data e) = projr (DecompressAndUnmarshal K unmarshal_ReportedShards v)"
    if "mget m' (BuildExecutorKey (st_prefix s) ns e ExecutorReportedShardsKey) = Some (v, r)"
    by (subst parsed_field [where sel = pd_ReportedShards and t = ExecutorReportedShardsKey
          and val = "\<lambda>kv. projr (DecompressAndUnmarshal K unmarshal_ReportedShards (kv_Value kv))", OF _ _ _ e _ _ loop dist])
       (auto simp: parse_executor_value_def wrap_Inr Let_def key_types find that [unfolded key_types] split: if_splits)
  show "pd_HostMetadata (mzero newParsedExecutorData data e) = Some (projr (bind_result (json_parse K v) unmarshal_HostMetadata))"
    if "mget m' (BuildExecutorKey (st_prefix s) ns e ExecutorHostMetadataKey) = Some (v, r)"
    by (subst parsed_field [where sel = pd_HostMetadata and t = ExecutorHostMetadataKey
          and val = "\<lambda>kv. Some (projr (bind_result (json_parse K (kv_Value kv)) unmarshal_HostMetadata))", OF _ _ _ e _ _ loop dist])
       (auto simp: parse_executor_value_def wrap_Inr Let_def key_types find that [unfolded key_types] split: if_splits)
qed

lemma heartbeat_read:
  assumes ran: "RecordHeartbeat s db ns e hb = (Inr (), db')"
    and get: "GetPrefix C (BuildExecutorIDPrefix (st_prefix s) ns e) db' = Inr kvs'"
    and ns: "namespace_ok ns" and e: "CHR ''/'' \<notin> set e" and time: "rfc3339_time (LastHeartbeat hb)"
    and wf_hb: "wf_map (ReportedShards hb)" "wf_map (hb_Metadata hb)"
    and readable: "list_all (readable_kv K (st_prefix s) ns) (range_prefix (BuildExecutorIDPrefix (st_prefix s) ns e) (kvs db))"
    and plain: "\<not> mhas (kvs db) (BuildExecutorKey (st_prefix s) ns e ExecutorMetadataKey)"
  shows "(\<exists>st h. GetExecutorState s db' ns e = Inr st \<and> es_Heartbeat st = Some h
      \<and> LastHeartbeat h = LastHeartbeat hb \<and> hb_Status h = hb_Status hb \<and> ReportedShards h = ReportedShards hb
      \<and> (\<forall>k v. mget (hb_Metadata hb) k = Some v \<longrightarrow> mget (hb_Metadata h) k = Some v)
      \<and> (\<forall>x. hb_HostMetadata hb = Some x \<longrightarrow> hb_HostMetadata h = Some x)
      \<and> es_Assignment st = stored_assignment K (st_prefix s) ns (et_kvs (view db)) e)
    \<and> ((\<exists>k v. mget (hb_Metadata hb) k = Some v
        \<and> map_option fst (mget (et_kvs (view db)) (BuildMetadataKey (st_prefix s) ns e k)) \<noteq> Some (Bytes K v)) \<longrightarrow>
      mod_revision (et_kvs (view db')) (BuildAssignmentVersionKey (st_prefix s) ns) = et_revision (view db) + 1)"
proof -
  let ?P = "BuildExecutorIDPrefix (st_prefix s) ns e"
  let ?key = "BuildExecutorKey (st_prefix s) ns e" and ?meta = "BuildMetadataKey (st_prefix s) ns e"
  obtain j reported status where j: "marshal_ReportedShards (ReportedShards hb) = Inr j"
    and reported: "Write K (st_writer s) (json_print K j) = Inr reported"
    and status: "Write K (st_writer s) (json_print K (ExecutorStatus_MarshalJSON (hb_Status hb))) = Inr status"
    and after: "\<And>k. prefix ?P k \<Longrightarrow> mget (kvs db') k =
      (case mget (heartbeat_pairs s ns e hb reported status) k of
         None \<Rightarrow> mget (kvs db) k | Some v \<Rightarrow> Some (v, et_revision (view db) + 1))"
    and version: "(\<exists>k v. mget (hb_Metadata hb) k = Some v
        \<and> map_option fst (mget (kvs db) (?meta k)) \<noteq> Some (Bytes K v)) \<Longrightarrow>
      mod_revision (kvs db') (BuildAssignmentVersionKey (st_prefix s) ns) = et_revision (view db) + 1"
    by (rule RecordHeartbeat_done [OF ran ns wf_hb(2)]) blast
  note at = after [OF namespace_prefix_of(5)] after [OF namespace_prefix_of(6)]
  have kvs': "kvs' = range_prefix ?P (kvs db')" by (rule get_done [OF get])
  have "list_all (readable_kv K (st_prefix s) ns) kvs'"
    unfolding kvs' by (rule read_after_heartbeat [OF j wf_hb(1) reported status after wf_kvs wf_kvs time e readable])
  then obtain data where data: "ParseExecutorKVs K (st_prefix s) ns kvs' = Inr data"
    using ParseExecutorKVs_loop_Inr unfolding ParseExecutorKVs_def by blast
  note fields = heartbeat_fields [OF data [unfolded kvs'] wf_kvs e] and loop = data [unfolded ParseExecutorKVs_def]
  obtain r where hbkey: "mget (kvs db') (?key ExecutorHeartbeatKey) = Some (Bytes K (FormatTime K (LastHeartbeat hb)), r)"
    using at(1) [of ExecutorHeartbeatKey] by (simp add: mget_heartbeat_pairs)
  let ?kv = "\<lparr>kv_Key = ?key ExecutorHeartbeatKey, kv_Value = Bytes K (FormatTime K (LastHeartbeat hb)), kv_ModRevision = r\<rparr>"
  have in_kvs: "?kv \<in> set kvs'"
    using hbkey wf_kvs [of db'] by (simp add: kvs' set_range_prefix mget_eq_iff namespace_prefix_of)
  have "mhas data e"
    by (rule parsed_has [of K "st_prefix s" ns e ExecutorHeartbeatKey ?kv, OF _ _ loop in_kvs])
       (use e in \<open>simp_all add: parse_executor_value_def ParseExecutorKey_iff\<close>)
  then obtain d where d: "mget data e = Some d" by (auto simp: mhas_def)
  then have zero: "mzero newParsedExecutorData data e = d" by (simp add: mzero_def)
  have vals: "pd_LastHeartbeat d = LastHeartbeat hb" "pd_Status d = hb_Status hb"
    "pd_ReportedShards d = ReportedShards hb" "hb_HostMetadata hb = Some x \<Longrightarrow> pd_HostMetadata d = Some x" for x
  proof -
    show "pd_LastHeartbeat d = LastHeartbeat hb"
      using fields(1) [OF hbkey] by (simp add: zero ParseTime_def FormatTime_def parse_format [OF time])
    show "pd_Status d = hb_Status hb"
      using fields(2) at(1) [of ExecutorStatusKey] read_written [OF status, of ExecutorStatus_UnmarshalJSON]
      by (simp add: zero mget_heartbeat_pairs)
    show "pd_ReportedShards d = ReportedShards hb"
      using fields(3) at(1) [of ExecutorReportedShardsKey] read_written [OF reported, of unmarshal_ReportedShards]
        ReportedShards_JSON [OF wf_hb(1) j] by (simp add: zero mget_heartbeat_pairs)
    show "pd_HostMetadata d = Some x" if "hb_HostMetadata hb = Some x"
      using fields(4) at(1) [of ExecutorHostMetadataKey] that
      by (simp add: zero mget_heartbeat_pairs HostMetadata_JSON)
  qed
  have "mget (pd_Metadata d) k = Some v" if "mget (hb_Metadata hb) k = Some v" for k v
  proof -
    have none: "\<forall>kv \<in> set kvs'. kv_Key kv \<noteq> ?key ExecutorMetadataKey"
    proof -
      have "mget (heartbeat_pairs s ns e hb reported status) (?key ExecutorMetadataKey) = None"
        by (auto simp: heartbeat_pairs_def executor_key_simps key_types map_add_def mget_metadata_other split: option.splits)
      then have "mget (kvs db') (?key ExecutorMetadataKey) = None" using at(1) plain
        by (cases "mget (kvs db) (?key ExecutorMetadataKey)") (auto simp: mhas_def)
      then show ?thesis by (auto simp: kvs' set_range_prefix map_of_eq_None_iff rev_image_eqI)
    qed
    have "mget (kvs db') (?meta k) = Some (Bytes K v, et_revision (view db) + 1)"
      using at(2) [of k] that by (simp add: mget_heartbeat_pairs)
    then have "find (\<lambda>kv. kv_Key kv = ?meta k) kvs' =
        Some \<lparr>kv_Key = ?meta k, kv_Value = Bytes K v, kv_ModRevision = et_revision (view db) + 1\<rparr>"
      using find_range_prefix [OF wf_kvs namespace_prefix_of(6)] by (simp add: kvs')
    then show ?thesis
      using parsed_metadata [OF e loop _ none, of k] distinct_range_prefix [OF wf_kvs] by (simp add: kvs' zero)
  qed
  moreover have "map_option ToAssignedState (pd_AssignedState d) = stored_assignment K (st_prefix s) ns (kvs db) e"
    using parsed_assignment [OF data [unfolded kvs'] wf_kvs e] after [of "assigned_key (st_prefix s) ns e"]
    by (simp add: zero assigned_key_def [symmetric] mget_heartbeat_pairs stored_assignment_def)
       (simp add: assigned_key_def namespace_prefix_of)
  moreover have "GetExecutorState s db' ns e = Inr \<lparr>es_Heartbeat = Some (heartbeatFromParsed d),
      es_Assignment = map_option ToAssignedState (pd_AssignedState d), es_Statistics = ToShardStatisticsMap (pd_Statistics d)\<rparr>"
    using get in_kvs data d by (auto simp: GetExecutorState_def)
  ultimately show ?thesis using vals version by (auto simp: heartbeatFromParsed_def)
qed

end

text \<open>
  C34. A heartbeat reads back. After \<open>RecordHeartbeat\<close> returns without an error, reading the
  executor succeeds (when the read itself does, and the executor's other keys decode) and gives
  the time, the status and the reported shards of the heartbeat, its metadata entries, its host
  metadata, and the assignment the executor had before. If it changed a metadata entry, the
  assignment version has moved.
\<close>
theorem heartbeat_reads_back:
  assumes "etcd_backed C view K s" and "RecordHeartbeat s db ns e hb = (Inr (), db')"
    and "GetPrefix C (BuildExecutorIDPrefix (st_prefix s) ns e) db' = Inr kvs"
    and "namespace_ok ns" and "CHR ''/'' \<notin> set e" and "rfc3339_time (LastHeartbeat hb)"
    and "wf_map (ReportedShards hb)" and "wf_map (hb_Metadata hb)"
    and "list_all (readable_kv K (st_prefix s) ns)
      (range_prefix (BuildExecutorIDPrefix (st_prefix s) ns e) (et_kvs (view db)))"
    and "\<not> mhas (et_kvs (view db)) (BuildExecutorKey (st_prefix s) ns e ExecutorMetadataKey)"
  shows "(\<exists>st h. GetExecutorState s db' ns e = Inr st \<and> es_Heartbeat st = Some h
      \<and> LastHeartbeat h = LastHeartbeat hb \<and> hb_Status h = hb_Status hb \<and> ReportedShards h = ReportedShards hb
      \<and> (\<forall>k v. mget (hb_Metadata hb) k = Some v \<longrightarrow> mget (hb_Metadata h) k = Some v)
      \<and> (\<forall>x. hb_HostMetadata hb = Some x \<longrightarrow> hb_HostMetadata h = Some x)
      \<and> es_Assignment st = stored_assignment K (st_prefix s) ns (et_kvs (view db)) e)
    \<and> ((\<exists>k v. mget (hb_Metadata hb) k = Some v
        \<and> map_option fst (mget (et_kvs (view db)) (BuildMetadataKey (st_prefix s) ns e k)) \<noteq> Some (Bytes K v)) \<longrightarrow>
      mod_revision (et_kvs (view db')) (BuildAssignmentVersionKey (st_prefix s) ns) = et_revision (view db) + 1)"
  by (rule etcd_backed.heartbeat_read [OF assms])

definition next_heartbeat :: HeartbeatState where
  "next_heartbeat = demo_heartbeat\<lparr>LastHeartbeat := 20, ReportedShards := [(''7'', \<lparr>ssr_Status = ShardStatusREADY, ShardLoad = Fin 3\<rparr>)]\<rparr>"

theorem heartbeat_reads_back_witness:
  "\<exists>st h. GetExecutorState demo_store (snd (RecordHeartbeat demo_store demo_db ''ns'' ''a'' next_heartbeat)) ''ns'' ''a'' = Inr st
     \<and> es_Heartbeat st = Some h \<and> LastHeartbeat h = 20 \<and> mget (hb_Metadata h) ''zone'' = Some ''z''
     \<and> hb_HostMetadata h = Some \<lparr>HostName = ''h''\<rparr>"
proof -
  let ?r = "RecordHeartbeat demo_store demo_db ''ns'' ''a'' next_heartbeat"
  have "fst ?r = Inr ()" by code_simp
  then have wr: "?r = (Inr (), snd ?r)" by (metis prod.collapse)
  have get: "GetPrefix reference_client (BuildExecutorIDPrefix (st_prefix demo_store) ''ns'' ''a'') (snd ?r) =
      Inr (range_prefix (BuildExecutorIDPrefix (st_prefix demo_store) ''ns'' ''a'') (et_kvs (as_etcd (snd ?r))))"
    by (simp add: reference_client_def)
  have readable: "list_all (readable_kv reference_codec (st_prefix demo_store) ''ns'')
      (range_prefix (BuildExecutorIDPrefix (st_prefix demo_store) ''ns'' ''a'') (et_kvs (as_etcd demo_db)))" by code_simp
  have plain: "\<not> mhas (et_kvs (as_etcd demo_db)) (BuildExecutorKey (st_prefix demo_store) ''ns'' ''a'' ExecutorMetadataKey)"
    by code_simp
  have hb: "CHR ''/'' \<notin> set ''a''" "rfc3339_time (LastHeartbeat next_heartbeat)" "wf_map (ReportedShards next_heartbeat)"
    "wf_map (hb_Metadata next_heartbeat)" "LastHeartbeat next_heartbeat = 20"
    "mget (hb_Metadata next_heartbeat) ''zone'' = Some ''z''" "hb_HostMetadata next_heartbeat = Some \<lparr>HostName = ''h''\<rparr>"
    by (simp_all add: next_heartbeat_def demo_heartbeat_def rfc3339_time_def)
  show ?thesis
    using heartbeat_reads_back [OF demo_backed wr get demo_namespace(1) hb(1-4) readable plain] hb(5-7) by fastforce
qed

end
