(* ===== verification/Backoff.thy ===== *)
theory Backoff
  imports Types
begin

text \<open>
  Retries: \<open>common/backoff/retrypolicy.go\<close> (the policies and the retrier), \<open>retry.go\<close> (the
  retry loop \<open>ThrottleRetry.Do\<close>) and \<open>jitter.go\<close>.

  \<^item> The clock, the pauses, the random numbers and the cancellation of the context are what the
    loop cannot determine: they are the functions of a \<open>retry_env\<close>. A pause may change the state
    the operation works on, since other processes run meanwhile.
  \<^item> \<open>rand.Intn(n)\<close> and \<open>rand.Int63n(n)\<close> return a number of \<open>0 .. n - 1\<close> and panic when \<open>n \<le> 0\<close>.
  \<^item> \<open>Do\<close> may loop for ever, so it is a partial function; a policy with a maximum of attempts
    makes it return.
\<close>

section \<open>Constants\<close>

definition NoInterval :: duration where "NoInterval = 0"
definition backoff_done :: duration where "backoff_done = - 1"
definition noMaximumAttempts :: int where "noMaximumAttempts = 0"

definition Millisecond :: duration where "Millisecond = 1000000"
definition Second :: duration where "Second = 1000 * Millisecond"
definition Minute :: duration where "Minute = 60 * Second"

section \<open>Policies\<close>

record ExponentialRetryPolicy =
  initialInterval :: duration
  backoffCoefficient :: float64
  maximumInterval :: duration
  expirationInterval :: duration
  maximumAttempts :: int

definition NewExponentialRetryPolicy :: "duration \<Rightarrow> ExponentialRetryPolicy" where
  "NewExponentialRetryPolicy initial =
     \<lparr>initialInterval = initial, backoffCoefficient = Fin 2, maximumInterval = 10 * Second,
      expirationInterval = Minute, maximumAttempts = noMaximumAttempts\<rparr>"

datatype RetryPolicy =
    Exponential ExponentialRetryPolicy
  | MultiPhasesRetryPolicy "ExponentialRetryPolicy list"

text \<open>Panics (\<open>None\<close>) when a policy before the last one has no maximum of attempts.\<close>

definition NewMultiPhasesRetryPolicy :: "ExponentialRetryPolicy list \<Rightarrow> RetryPolicy option" where
  "NewMultiPhasesRetryPolicy policies =
     (if list_ex (\<lambda>p. maximumAttempts p = noMaximumAttempts) (butlast policies) then None
      else Some (MultiPhasesRetryPolicy policies))"

text \<open>\<open>math.Pow\<close> with an integer as exponent, \<open>math.Min\<close> and \<open>math.Max\<close>.\<close>

fun float_power :: "float64 \<Rightarrow> nat \<Rightarrow> float64" where
  "float_power x 0 = Fin 1"
| "float_power x (Suc n) = x * float_power x n"

definition Pow :: "float64 \<Rightarrow> int \<Rightarrow> float64" where
  "Pow x n = (if 0 \<le> n then float_power x (nat n) else Fin 1 / float_power x (nat (- n)))"

definition math_Min :: "float64 \<Rightarrow> float64 \<Rightarrow> float64" where
  "math_Min x y = (if x = NegInf \<or> y = NegInf then NegInf else if x = NaN \<or> y = NaN then NaN
     else if x < y then x else y)"

definition math_Max :: "float64 \<Rightarrow> float64 \<Rightarrow> float64" where
  "math_Max x y = (if x = PosInf \<or> y = PosInf then PosInf else if x = NaN \<or> y = NaN then NaN
     else if x < y then y else x)"

definition float_of_int :: "int \<Rightarrow> float64" where
  "float_of_int n = Fin (real_of_int n)"

text \<open>The subtraction of durations wraps around at 64 bits.\<close>

definition dur_sub :: "duration \<Rightarrow> duration \<Rightarrow> duration" where
  "dur_sub a b = (a - b + 2 ^ 63) mod 2 ^ 64 - 2 ^ 63"

definition ComputeNextDelay ::
    "(int \<Rightarrow> int) \<Rightarrow> ExponentialRetryPolicy \<Rightarrow> duration \<Rightarrow> int \<Rightarrow> duration" where
  "ComputeNextDelay Intn p elapsedTime numAttempts =
     (if maximumAttempts p \<noteq> noMaximumAttempts \<and> maximumAttempts p \<le> numAttempts then backoff_done
      else if expirationInterval p \<noteq> NoInterval \<and> expirationInterval p < elapsedTime then backoff_done
      else let nextInterval = float_of_int (initialInterval p) * Pow (backoffCoefficient p) numAttempts
      in if nextInterval \<le> 0 then backoff_done
      else let nextInterval = (if maximumInterval p \<noteq> NoInterval
                               then math_Min nextInterval (float_of_int (maximumInterval p))
                               else nextInterval);
               nextInterval = (if expirationInterval p \<noteq> NoInterval
                               then let remainingTime = math_Max 0 (float_of_int (dur_sub (expirationInterval p) elapsedTime))
                                    in math_Min remainingTime nextInterval
                               else nextInterval);
               nextDuration = int_of_float nextInterval
      in if nextDuration < initialInterval p then backoff_done
      else let jitterPortion = int_of_float (Fin (1 / 5) * nextInterval);
               jitterPortion = (if jitterPortion < 1 then 1 else jitterPortion)
      in int_of_float (nextInterval * Fin (4 / 5) + float_of_int (Intn jitterPortion)))"

fun phases_ComputeNextDelay ::
    "(nat \<Rightarrow> int \<Rightarrow> int) \<Rightarrow> ExponentialRetryPolicy list \<Rightarrow> duration \<Rightarrow> int \<Rightarrow> int \<Rightarrow> duration" where
  "phases_ComputeNextDelay Intn [] elapsedTime numAttempts previousStageRetryCount = backoff_done"
| "phases_ComputeNextDelay Intn (policy # policies) elapsedTime numAttempts previousStageRetryCount =
     (let nextInterval = ComputeNextDelay (Intn (length policies)) policy elapsedTime
                           (numAttempts - previousStageRetryCount)
      in if nextInterval \<noteq> backoff_done then nextInterval
         else phases_ComputeNextDelay Intn policies elapsedTime numAttempts
                (previousStageRetryCount + maximumAttempts policy))"

fun policy_ComputeNextDelay :: "(nat \<Rightarrow> int \<Rightarrow> int) \<Rightarrow> RetryPolicy \<Rightarrow> duration \<Rightarrow> int \<Rightarrow> duration" where
  "policy_ComputeNextDelay Intn (Exponential p) elapsedTime numAttempts =
     ComputeNextDelay (Intn 0) p elapsedTime numAttempts"
| "policy_ComputeNextDelay Intn (MultiPhasesRetryPolicy policies) elapsedTime numAttempts =
     phases_ComputeNextDelay Intn policies elapsedTime numAttempts 0"

section \<open>The retrier\<close>

record retrierImpl =
  currentAttempt :: int
  startTime :: gotime

definition NewRetrier :: "gotime \<Rightarrow> retrierImpl" where
  "NewRetrier now = \<lparr>currentAttempt = 0, startTime = now\<rparr>"

definition retrier_Reset :: "gotime \<Rightarrow> retrierImpl \<Rightarrow> retrierImpl" where
  "retrier_Reset now r = r\<lparr>startTime := now, currentAttempt := 0\<rparr>"

definition getElapsedTime :: "gotime \<Rightarrow> retrierImpl \<Rightarrow> duration" where
  "getElapsedTime now r = time_Sub now (startTime r)"

definition NextBackOff ::
    "RetryPolicy \<Rightarrow> gotime \<Rightarrow> (nat \<Rightarrow> int \<Rightarrow> int) \<Rightarrow> retrierImpl \<Rightarrow> duration \<times> retrierImpl" where
  "NextBackOff policy now Intn r =
     (policy_ComputeNextDelay Intn policy (getElapsedTime now r) (currentAttempt r),
      r\<lparr>currentAttempt := currentAttempt r + 1\<rparr>)"

section \<open>The retry loop\<close>

record ThrottleRetry =
  tr_policy :: RetryPolicy
  isRetryable :: "err \<Rightarrow> bool"
  throttlePolicy :: RetryPolicy
  isThrottle :: "err \<Rightarrow> bool"

definition NewThrottleRetry :: "(ThrottleRetry \<Rightarrow> ThrottleRetry) list \<Rightarrow> ThrottleRetry" where
  "NewThrottleRetry opts =
     (let retryPolicy = (NewExponentialRetryPolicy (50 * Millisecond))\<lparr>maximumInterval := 2 * Second\<rparr>;
          throttle = (NewExponentialRetryPolicy Second)
                       \<lparr>maximumInterval := 10 * Second, expirationInterval := NoInterval\<rparr>
      in fold (\<lambda>opt tr. opt tr) opts
           \<lparr>tr_policy = Exponential retryPolicy, isRetryable = (\<lambda>_. False),
            throttlePolicy = Exponential throttle,
            isThrottle = (\<lambda>e. case e of ServiceBusyError _ \<Rightarrow> True | _ \<Rightarrow> False)\<rparr>)"

definition WithRetryPolicy :: "RetryPolicy \<Rightarrow> ThrottleRetry \<Rightarrow> ThrottleRetry" where
  "WithRetryPolicy policy tr = tr\<lparr>tr_policy := policy\<rparr>"

definition WithThrottlePolicy :: "RetryPolicy \<Rightarrow> ThrottleRetry \<Rightarrow> ThrottleRetry" where
  "WithThrottlePolicy policy tr = tr\<lparr>throttlePolicy := policy\<rparr>"

definition WithRetryableError :: "(err \<Rightarrow> bool) \<Rightarrow> ThrottleRetry \<Rightarrow> ThrottleRetry" where
  "WithRetryableError retryable tr = tr\<lparr>isRetryable := retryable\<rparr>"

definition WithThrottleError :: "(err \<Rightarrow> bool) \<Rightarrow> ThrottleRetry \<Rightarrow> ThrottleRetry" where
  "WithThrottleError throttle tr = tr\<lparr>isThrottle := throttle\<rparr>"

text \<open>
  The clock and the context of a run: the time read in a state, the state after a pause, the
  random numbers of the two retriers in each round, and whether the \<open>select\<close> of a round takes the
  branch of the cancelled context.
\<close>

record 'st retry_env =
  clock_Now :: "'st \<Rightarrow> gotime"
  clock_After :: "duration \<Rightarrow> 'st \<Rightarrow> 'st"
  rand_Intn :: "nat \<Rightarrow> nat \<Rightarrow> int \<Rightarrow> int"
  ctx_Done :: "nat \<Rightarrow> bool"

definition preferredErr :: "err option \<Rightarrow> err \<Rightarrow> err" where
  "preferredErr prevErr e = (case prevErr of Some p \<Rightarrow> p | None \<Rightarrow> e)"

text \<open>The loop, with the error \<open>err\<close> of the previous round; the operation gets the retry count
  that the context carries.\<close>

partial_function (option) Do_loop ::
    "ThrottleRetry \<Rightarrow> 'st retry_env \<Rightarrow> (nat \<Rightarrow> 'st \<Rightarrow> err option \<times> 'st) \<Rightarrow> err option \<Rightarrow> retrierImpl
      \<Rightarrow> retrierImpl \<Rightarrow> nat \<Rightarrow> 'st \<Rightarrow> (err option \<times> 'st) option" where
  "Do_loop tr env op err r t retryCount st =
     (let prevErr = err in
      case op retryCount st of
        (None, st) \<Rightarrow> Some (None, st)
      | (Some e, st) \<Rightarrow>
          (let retryCount = Suc retryCount in
           if \<not> isRetryable tr e then Some (Some (preferredErr prevErr e), st)
           else (case NextBackOff (tr_policy tr) (clock_Now env st) (rand_Intn env (2 * retryCount)) r of
                   (next, r) \<Rightarrow>
             if next = backoff_done then Some (Some (preferredErr prevErr e), st)
             else (case (if isThrottle tr e
                         then (case NextBackOff (throttlePolicy tr) (clock_Now env st)
                                      (rand_Intn env (2 * retryCount + 1)) t of
                                 (throttleBackOff, t) \<Rightarrow>
                                   (if throttleBackOff \<noteq> backoff_done \<and> next < throttleBackOff
                                    then throttleBackOff else next, t))
                         else (next, t)) of
                     (next, t) \<Rightarrow>
               if ctx_Done env retryCount then Some (Some (preferredErr prevErr e), st)
               else Do_loop tr env op (Some e) r t retryCount (clock_After env next st)))))"

definition Do ::
    "ThrottleRetry \<Rightarrow> 'st retry_env \<Rightarrow> (nat \<Rightarrow> 'st \<Rightarrow> err option \<times> 'st) \<Rightarrow> 'st \<Rightarrow> (err option \<times> 'st) option" where
  "Do tr env op st =
     Do_loop tr env op None (NewRetrier (clock_Now env st)) (NewRetrier (clock_Now env st)) 0 st"

definition IgnoreErrors :: "err list \<Rightarrow> err \<Rightarrow> bool" where
  "IgnoreErrors errorsToExclude e = (\<not> list_ex (\<lambda>errorToExclude. e = errorToExclude) errorsToExclude)"

section \<open>Throttling of concurrent clients\<close>

record ConcurrentRetrier =
  cr_retrier :: retrierImpl
  failureCount :: int

definition NewConcurrentRetrier :: "gotime \<Rightarrow> ConcurrentRetrier" where
  "NewConcurrentRetrier now = \<lparr>cr_retrier = NewRetrier now, failureCount = 0\<rparr>"

text \<open>The pause it makes; \<open>done\<close> is no pause.\<close>

definition throttleInternal ::
    "RetryPolicy \<Rightarrow> gotime \<Rightarrow> (nat \<Rightarrow> int \<Rightarrow> int) \<Rightarrow> ConcurrentRetrier \<Rightarrow> duration \<times> ConcurrentRetrier" where
  "throttleInternal policy now Intn c =
     (if 0 < failureCount c
      then (case NextBackOff policy now Intn (cr_retrier c) of
              (next, r) \<Rightarrow> (next, c\<lparr>cr_retrier := r\<rparr>))
      else (backoff_done, c))"

definition Succeeded_retrier :: "gotime \<Rightarrow> ConcurrentRetrier \<Rightarrow> ConcurrentRetrier" where
  "Succeeded_retrier now c = c\<lparr>failureCount := 0, cr_retrier := retrier_Reset now (cr_retrier c)\<rparr>"

definition Failed_retrier :: "ConcurrentRetrier \<Rightarrow> ConcurrentRetrier" where
  "Failed_retrier c = c\<lparr>failureCount := failureCount c + 1\<rparr>"

section \<open>Jitter\<close>

text \<open>\<open>None\<close> is a panic: a coefficient outside \<open>0 .. 1\<close>, or an empty range for \<open>rand.Int63n\<close>.\<close>

definition validateCoefficient :: "float64 \<Rightarrow> unit option" where
  "validateCoefficient coefficient = (if coefficient < 0 \<or> Fin 1 < coefficient then None else Some ())"

definition JitInt64 :: "(int \<Rightarrow> int) \<Rightarrow> int \<Rightarrow> float64 \<Rightarrow> int option" where
  "JitInt64 Int63n input coefficient =
     (if validateCoefficient coefficient = None then None
      else if float_eq coefficient 0 \<or> input = 0 then Some input
      else let base = int_of_float (float_of_int input * (Fin 1 - coefficient));
               n = 2 * (input - base)
           in if n \<le> 0 then None else Some (base + Int63n n))"

definition JitDuration :: "(int \<Rightarrow> int) \<Rightarrow> duration \<Rightarrow> float64 \<Rightarrow> duration option" where
  "JitDuration Int63n d coefficient =
     (if validateCoefficient coefficient = None then None else JitInt64 Int63n d coefficient)"

definition JitFloat64 :: "float64 \<Rightarrow> float64 \<Rightarrow> float64 \<Rightarrow> float64 option" where
  "JitFloat64 random input coefficient =
     (if validateCoefficient coefficient = None then None
      else if float_eq coefficient 0 \<or> float_eq input 0 then Some input
      else let base = input * (Fin 1 - coefficient);
               addon = random * Fin 2 * (input - base)
           in Some (base + addon))"

section \<open>Delays\<close>

definition is_rand :: "(int \<Rightarrow> int) \<Rightarrow> bool" where
  "is_rand f = (\<forall>n > 0. 0 \<le> f n \<and> f n < n)"

lemma float_power_Fin: "float_power (Fin c) n = Fin (c ^ n)"
  by (induction n) auto

lemma Pow_Fin: "0 < c \<Longrightarrow> \<exists>y > 0. Pow (Fin c) n = Fin y"
  by (auto simp: Pow_def float_power_Fin)

lemma math_Min_Fin [simp]: "math_Min (Fin a) (Fin b) = Fin (min a b)"
  by (auto simp: math_Min_def)

lemma math_Max_Fin [simp]: "math_Max (Fin a) (Fin b) = Fin (max a b)"
  by (auto simp: math_Max_def)

lemma math_Max_zero [simp]: "math_Max 0 (Fin b) = Fin (max 0 b)"
  using math_Max_Fin [of 0 b] by (simp add: zero_float64_def)

lemma int_of_float_floor:
  "0 \<le> a \<Longrightarrow> a < 2 ^ 63 \<Longrightarrow> int_of_float (Fin a) = \<lfloor>a\<rfloor>"
  by (auto simp: Let_def floor_less_iff)

lemma dur_sub_exact:
  "- (2 ^ 63) \<le> a - b \<Longrightarrow> a - b < 2 ^ 63 \<Longrightarrow> dur_sub a b = a - b"
  by (simp add: dur_sub_def)

text \<open>The delay drawn for an interval lies between four fifths of it and the interval.\<close>

definition jittered :: "(int \<Rightarrow> int) \<Rightarrow> float64 \<Rightarrow> duration" where
  "jittered Intn nextInterval =
     (let jitterPortion = int_of_float (Fin (1 / 5) * nextInterval);
          jitterPortion = (if jitterPortion < 1 then 1 else jitterPortion)
      in int_of_float (nextInterval * Fin (4 / 5) + float_of_int (Intn jitterPortion)))"

lemma jittered_bounds:
  assumes "is_rand Intn" "0 < x" "x < 2 ^ 63"
  shows "\<lfloor>4 * x / 5\<rfloor> \<le> jittered Intn (Fin x)" "real_of_int (jittered Intn (Fin x)) \<le> x"
proof -
  define q where "q = max 1 \<lfloor>x / 5\<rfloor>"
  have q: "0 \<le> Intn q" "Intn q < q" using assms(1) by (auto simp: is_rand_def q_def)
  have "real_of_int (Intn q) \<le> x / 5"
  proof (cases "\<lfloor>x / 5\<rfloor> < 1")
    case True
    then have "Intn q = 0" using q by (simp add: q_def)
    then show ?thesis using assms(2) by simp
  next
    case False
    then have "real_of_int (Intn q) < real_of_int \<lfloor>x / 5\<rfloor>" using q by (simp add: q_def)
    also have "\<dots> \<le> x / 5" by linarith
    finally show ?thesis by simp
  qed
  then have bound: "4 * x / 5 + Intn q \<le> x" by simp
  have "jittered Intn (Fin x) = int_of_float (Fin (x * 4 / 5 + Intn q))"
    using assms(2,3) int_of_float_floor [of "x / 5"]
    by (auto simp: jittered_def q_def float_of_int_def Let_def max_def simp del: int_of_float.simps)
  also have "\<dots> = \<lfloor>x * 4 / 5 + Intn q\<rfloor>"
    using assms(2,3) q(1) bound by (intro int_of_float_floor) auto
  finally have j: "jittered Intn (Fin x) = \<lfloor>x * 4 / 5 + Intn q\<rfloor>" .
  show "\<lfloor>4 * x / 5\<rfloor> \<le> jittered Intn (Fin x)"
    unfolding j using q(1) by (intro floor_mono) (simp add: mult.commute)
  show "real_of_int (jittered Intn (Fin x)) \<le> x"
    unfolding j using bound by linarith
qed

text \<open>A delay other than \<open>done\<close> is the jittered value of an interval within all the limits.\<close>

lemma ComputeNextDelay_interval:
  assumes "0 < initialInterval p" "backoffCoefficient p = Fin c" "0 < c"
    and "0 < maximumInterval p" "maximumInterval p < 2 ^ 63"
    and "ComputeNextDelay Intn p elapsed k \<noteq> backoff_done"
  obtains x where "ComputeNextDelay Intn p elapsed k = jittered Intn (Fin x)"
    and "initialInterval p \<le> \<lfloor>x\<rfloor>" "x \<le> maximumInterval p"
    and "expirationInterval p = NoInterval
         \<or> elapsed \<le> expirationInterval p \<and> x \<le> max 0 (dur_sub (expirationInterval p) elapsed)"
proof -
  obtain y where y: "0 < y" "Pow (Fin c) k = Fin y" using Pow_Fin assms(3) by blast
  define a where "a = min (initialInterval p * y) (maximumInterval p)"
  define x where "x = (if expirationInterval p = NoInterval then a
                       else min (max 0 (dur_sub (expirationInterval p) elapsed)) a)"
  have pos: "0 < initialInterval p * y" using y(1) assms(1) by simp
  have le: "x \<le> maximumInterval p" "0 \<le> x"
    using pos assms(4) by (auto simp: x_def a_def)
  have fl: "int_of_float (Fin x) = \<lfloor>x\<rfloor>"
    using le assms(5) by (intro int_of_float_floor) (auto intro: order.strict_trans1 [of _ "real_of_int (maximumInterval p)"])
  have n: "float_of_int (initialInterval p) * Pow (backoffCoefficient p) k = Fin (initialInterval p * y)"
      "(Fin (initialInterval p * y) \<le> 0) = False"
      "(if maximumInterval p \<noteq> NoInterval then math_Min (Fin (initialInterval p * y)) (float_of_int (maximumInterval p))
        else Fin (initialInterval p * y)) = Fin a"
      "(if expirationInterval p \<noteq> NoInterval
        then math_Min (math_Max 0 (float_of_int (dur_sub (expirationInterval p) elapsed))) (Fin a) else Fin a) = Fin x"
    using pos assms(2,4) y(2) by (simp_all add: float_of_int_def a_def x_def NoInterval_def of_int_max)
  have "ComputeNextDelay Intn p elapsed k =
      (if maximumAttempts p \<noteq> noMaximumAttempts \<and> maximumAttempts p \<le> k then backoff_done
       else if expirationInterval p \<noteq> NoInterval \<and> expirationInterval p < elapsed then backoff_done
       else if \<lfloor>x\<rfloor> < initialInterval p then backoff_done else jittered Intn (Fin x))"
    by (simp only: ComputeNextDelay_def Let_def n jittered_def fl if_False)
  then have "ComputeNextDelay Intn p elapsed k = jittered Intn (Fin x)" "initialInterval p \<le> \<lfloor>x\<rfloor>"
    and "expirationInterval p = NoInterval \<or> elapsed \<le> expirationInterval p"
    using assms(6) by (auto split: if_splits)
  then show ?thesis
    using that le(1) by (auto simp: x_def)
qed



section \<open>The retry loop returns\<close>

lemma policy_exhausted:
  "maximumAttempts p \<noteq> noMaximumAttempts \<Longrightarrow> maximumAttempts p \<le> k \<Longrightarrow>
     policy_ComputeNextDelay Intn (Exponential p) elapsed k = backoff_done"
  by (simp add: ComputeNextDelay_def)

text \<open>An operation that counts its calls.\<close>

definition counting :: "(nat \<Rightarrow> 'st \<Rightarrow> err option \<times> 'st) \<Rightarrow> nat \<Rightarrow> nat \<times> 'st \<Rightarrow> err option \<times> (nat \<times> 'st)" where
  "counting op k = (\<lambda>(n, st). case op k st of (e, st') \<Rightarrow> (e, (Suc n, st')))"

definition keeps_count :: "(nat \<times> 'st) retry_env \<Rightarrow> bool" where
  "keeps_count env = (\<forall>d c. fst (clock_After env d c) = fst c)"

lemma Do_loop_returns:
  assumes "tr_policy tr = Exponential p" "maximumAttempts p \<noteq> noMaximumAttempts" "keeps_count env"
  shows "currentAttempt r = int k \<Longrightarrow> 
    \<exists>e n st'. Do_loop tr env (counting op) err r t k (c, st) = Some (e, n, st')
      \<and> n \<le> c + nat (maximumAttempts p - int k) + 1"
proof (induction "nat (maximumAttempts p - int k)" arbitrary: k c st err r t)
  case 0
  obtain e st' where step: "op k st = (e, st')" by (cases "op k st")
  have "policy_ComputeNextDelay (rand_Intn env j) (tr_policy tr) el (int k) = backoff_done" for j el
    using policy_exhausted assms(1,2) 0 by simp
  then show ?case
    using 0 step by (subst Do_loop.simps) (cases e; simp add: counting_def NextBackOff_def Let_def)
next
  case (Suc m)
  obtain e st' where step: "op k st = (e, st')" by (cases "op k st")
  show ?case
  proof (cases e)
    case None
    then show ?thesis using step by (subst Do_loop.simps) (simp add: counting_def)
  next
    case (Some e')
    define next_r where "next_r = NextBackOff (tr_policy tr) (clock_Now env (Suc c, st')) (rand_Intn env (2 * Suc k)) r"
    have r: "currentAttempt (snd next_r) = int (Suc k)" using Suc.prems by (simp add: next_r_def NextBackOff_def)
    have m: "m = nat (maximumAttempts p - int (Suc k))" using Suc.hyps(2) by simp
    have rec: "\<exists>e n st''. Do_loop tr env (counting op) (Some e') (snd next_r) t' (Suc k)
                 (clock_After env d (Suc c, st')) = Some (e, n, st'')
               \<and> n \<le> c + nat (maximumAttempts p - int k) + 1" for t' d
    proof -
      obtain st'' where aft: "clock_After env d (Suc c, st') = (Suc c, st'')"
        using assms(3) by (metis fst_conv keeps_count_def prod.collapse)
      show ?thesis
        using Suc.hyps(1) [OF m r, of "Some e'" t' "Suc c" st''] Suc.hyps(2) aft by fastforce
    qed
    have "Do_loop tr env (counting op) err r t k (c, st) =
      (if \<not> isRetryable tr e' then Some (Some (preferredErr err e'), Suc c, st')
       else if fst next_r = backoff_done then Some (Some (preferredErr err e'), Suc c, st')
       else (case (if isThrottle tr e'
                   then (case NextBackOff (throttlePolicy tr) (clock_Now env (Suc c, st'))
                                (rand_Intn env (2 * Suc k + 1)) t of
                           (b, t) \<Rightarrow> (if b \<noteq> backoff_done \<and> fst next_r < b then b else fst next_r, t))
                   else (fst next_r, t)) of
               (d, t) \<Rightarrow>
                 if ctx_Done env (Suc k) then Some (Some (preferredErr err e'), Suc c, st')
                 else Do_loop tr env (counting op) (Some e') (snd next_r) t (Suc k)
                        (clock_After env d (Suc c, st'))))"
      using step Some by (subst Do_loop.simps) (simp add: counting_def Let_def next_r_def split_beta)
    then show ?thesis
      using rec by (auto split: prod.splits)
  qed
qed

text \<open>
  C22. A retry loop whose policy has a maximum of attempts returns, whatever the operation, the
  clock, the random numbers and the context do, and calls the operation at most once more than
  that maximum.
\<close>

theorem retry_terminates:
  assumes "tr_policy tr = Exponential p" "maximumAttempts p \<noteq> noMaximumAttempts" "keeps_count env"
  shows "\<exists>e n st'. Do tr env (counting op) (0, st) = Some (e, n, st') \<and> n \<le> nat (maximumAttempts p) + 1"
  using Do_loop_returns [OF assms, of "NewRetrier (clock_Now env (0, st))" 0 op None _ 0 st]
  by (simp add: Do_def NewRetrier_def)

text \<open>An operation that always meets a version conflict, under a policy of three attempts.\<close>

definition three_attempts :: ExponentialRetryPolicy where
  "three_attempts = (NewExponentialRetryPolicy (50 * Millisecond))\<lparr>maximumAttempts := 3\<rparr>"

definition frozen_clock :: "'st retry_env" where
  "frozen_clock = \<lparr>clock_Now = (\<lambda>_. 0), clock_After = (\<lambda>_ st. st), rand_Intn = (\<lambda>_ _ _. 0), ctx_Done = (\<lambda>_. False)\<rparr>"

theorem retry_terminates_witness:
  "\<exists>e n. Do (NewThrottleRetry [WithRetryPolicy (Exponential three_attempts), WithRetryableError (\<lambda>_. True)]) frozen_clock
          (counting (\<lambda>_ _. (Some ErrVersionConflict, ()))) (0, ()) = Some (e, n, ()) \<and> n \<le> 4"
proof -
  have "keeps_count frozen_clock" by (simp add: keeps_count_def frozen_clock_def)
  then show ?thesis
    using retry_terminates [of "NewThrottleRetry [WithRetryPolicy (Exponential three_attempts), WithRetryableError (\<lambda>_. True)]"
        three_attempts frozen_clock "\<lambda>_ _. (Some ErrVersionConflict, ())" "()"]
    by (auto simp: three_attempts_def noMaximumAttempts_def NewThrottleRetry_def WithRetryPolicy_def
        WithRetryableError_def Let_def NewExponentialRetryPolicy_def)
qed

section \<open>Jitter\<close>

lemma JitInt64_bounds:
  assumes "is_rand rnd" "0 \<le> c" "c \<le> 1" "0 < n" "n < 2 ^ 62"
  obtains d where "JitInt64 rnd n (Fin c) = Some d" "\<lfloor>n * (1 - c)\<rfloor> \<le> d" "d \<le> n + \<lceil>n * c\<rceil>"
proof (cases "c = 0")
  case True
  then show ?thesis using that [of n] by (simp add: JitInt64_def validateCoefficient_def zero_float64_def)
next
  case False
  define base where "base = \<lfloor>n * (1 - c)\<rfloor>"
  have "n * (1 - c) \<le> n" "0 \<le> n * (1 - c)" using assms by (auto simp: mult_le_cancel_left1)
  moreover have "real_of_int n < 2 ^ 62" using assms(5) by simp
  ultimately have fl: "int_of_float (Fin (n * (1 - c))) = base"
    unfolding base_def by (intro int_of_float_floor) auto
  have "n * (1 - c) < n" using False assms by (auto simp: mult_less_cancel_left1)
  then have pos: "0 < 2 * (n - base)" by (simp add: base_def floor_less_iff)
  define w where "w = rnd (2 * (n - base))"
  have r: "0 \<le> w" "w < 2 * (n - base)"
    using pos assms(1) by (auto simp: is_rand_def w_def)
  have jit: "JitInt64 rnd n (Fin c) = Some (base + w)"
    using False assms pos fl
    by (simp add: w_def JitInt64_def validateCoefficient_def float_of_int_def Let_def zero_float64_def del: int_of_float.simps)
  have "n - base = \<lceil>n * c\<rceil>"
  proof -
    have "base = n + \<lfloor>- (n * c)\<rfloor>"
      unfolding base_def int_add_floor by (simp add: right_diff_distrib)
    then show ?thesis by (simp add: ceiling_def)
  qed
  moreover have "base + w \<le> n + (n - base)" using r(2) by simp
  ultimately have "base + w \<le> n + \<lceil>n * c\<rceil>" by (simp only:)
  moreover have "\<lfloor>n * (1 - c)\<rfloor> \<le> base + w" using r(1) unfolding base_def by linarith
  ultimately show ?thesis using that [OF jit] by blast
qed

end
