(* ===== verification/Cache.thy ===== *)
theory Cache
  imports State Backoff
begin

text \<open>
  The cache a server keeps of one namespace: \<open>cache/namespaceshardcache.go\<close> and
  \<open>cache/pubsub.go\<close>.

  \<^item> A \<open>*store.ShardOwner\<close> is a value: the cache fills the metadata of an owner before it
    publishes the maps that point to it, and never writes to it afterwards. The map keyed by the
    pointer is keyed by the value, which contains the executor's ID.
  \<^item> A read of the store is an argument: its result, and the orders in which the loops range over
    the maps it returned.
  \<^item> The channel of a subscriber has one slot, so it is the flag "a notification is pending".
\<close>

section \<open>State\<close>

record shardCache =
  shardToExecutor :: "(string, ShardOwner) gomap"
  shardOwners :: "(string, ShardOwner) gomap"
  executorToShards :: "(ShardOwner, string list) gomap"
  executorRevision :: "(string, int) gomap"
  drainedShards :: gostrset
  lastRevision :: int
  subscribers :: "(string, bool) gomap"

definition newShardCache :: shardCache where
  "newShardCache =
     \<lparr>shardToExecutor = [], shardOwners = [], executorToShards = [], executorRevision = [],
      drainedShards = [], lastRevision = 0, subscribers = []\<rparr>"

record AssignmentSnapshot =
  ExecutorToShards :: "(ShardOwner, string list) gomap"
  snap_DrainedShards :: gostrset

record store_read =
  read_result :: "AssignmentState result"
  executor_order :: order
  shard_order :: "string \<Rightarrow> order"

section \<open>Subscribers\<close>

definition cache_Subscribe :: "string \<Rightarrow> shardCache \<Rightarrow> shardCache" where
  "cache_Subscribe uniqueID c = c\<lparr>subscribers := mput uniqueID False (subscribers c)\<rparr>"

definition unSubscribe :: "string \<Rightarrow> shardCache \<Rightarrow> shardCache" where
  "unSubscribe uniqueID c = c\<lparr>subscribers := mdel uniqueID (subscribers c)\<rparr>"

definition notifySubscribers :: "shardCache \<Rightarrow> shardCache" where
  "notifySubscribers c = c\<lparr>subscribers := map (\<lambda>(uniqueID, _). (uniqueID, True)) (subscribers c)\<rparr>"

text \<open>A subscriber takes the pending notification from its channel.\<close>

definition receive :: "string \<Rightarrow> shardCache \<Rightarrow> shardCache" where
  "receive uniqueID c = (if mhas (subscribers c) uniqueID
     then c\<lparr>subscribers := mput uniqueID False (subscribers c)\<rparr> else c)"

section \<open>Applying a snapshot\<close>

definition maps_Copy :: "('k, 'v) gomap \<Rightarrow> ('k, 'v) gomap \<Rightarrow> ('k, 'v) gomap" where
  "maps_Copy dst src = fold (\<lambda>(k, v) m. mput k v m) src dst"

record namespace_maps =
  nm_shardToExecutor :: "(string, ShardOwner) gomap"
  nm_executorState :: "(ShardOwner, string list) gomap"
  nm_executorRevision :: "(string, int) gomap"
  nm_shardOwners :: "(string, ShardOwner) gomap"

definition empty_maps :: namespace_maps where
  "empty_maps = \<lparr>nm_shardToExecutor = [], nm_executorState = [], nm_executorRevision = [], nm_shardOwners = []\<rparr>"

definition getOrCreateShardOwner ::
    "(string, ShardOwner) gomap \<Rightarrow> string \<Rightarrow> ShardOwner \<times> (string, ShardOwner) gomap" where
  "getOrCreateShardOwner owners executorID =
     (case mget owners executorID of
        Some shardOwner \<Rightarrow> (shardOwner, owners)
      | None \<Rightarrow> let shardOwner = \<lparr>so_ExecutorID = executorID, so_Metadata = []\<rparr>
                in (shardOwner, mput executorID shardOwner owners))"

definition applyExecutor ::
    "(string \<Rightarrow> order) \<Rightarrow> AssignmentState \<Rightarrow> string \<times> (string, string) gomap \<Rightarrow> namespace_maps \<Rightarrow> namespace_maps" where
  "applyExecutor sord state = (\<lambda>(executorID, executorMetadata) nm.
     (case getOrCreateShardOwner (nm_shardOwners nm) executorID of
        (shardOwner, owners) \<Rightarrow>
          let shardOwner = shardOwner\<lparr>so_Metadata := maps_Copy (so_Metadata shardOwner) executorMetadata\<rparr>;
              nm = nm\<lparr>nm_shardOwners := mput executorID shardOwner owners\<rparr>
          in (case mget (ShardAssignments state) executorID of
                None \<Rightarrow> nm
              | Some assigned \<Rightarrow>
                  let shardIDs = sord executorID (mkeys (AssignedShards assigned))
                  in nm\<lparr>nm_shardToExecutor :=
                          fold (\<lambda>shardID m. mput shardID shardOwner m) shardIDs (nm_shardToExecutor nm),
                        nm_executorState := mput shardOwner shardIDs (nm_executorState nm),
                        nm_executorRevision := mput executorID (ModRevision assigned) (nm_executorRevision nm)\<rparr>)))"

definition replaceNamespaceState :: "int \<Rightarrow> namespace_maps \<Rightarrow> gostrset \<Rightarrow> shardCache \<Rightarrow> bool \<times> shardCache" where
  "replaceNamespaceState storeRevision nm drained c =
     (if storeRevision \<le> lastRevision c then (False, c)
      else (True, c\<lparr>lastRevision := storeRevision, shardToExecutor := nm_shardToExecutor nm,
                    executorToShards := nm_executorState nm, executorRevision := nm_executorRevision nm,
                    shardOwners := nm_shardOwners nm, drainedShards := drained\<rparr>))"

definition applyNamespaceState ::
    "order \<Rightarrow> (string \<Rightarrow> order) \<Rightarrow> AssignmentState \<Rightarrow> shardCache \<Rightarrow> bool \<times> shardCache" where
  "applyNamespaceState ord sord state c =
     replaceNamespaceState (Revision state)
       (fold (applyExecutor sord state) (mrange ord (ExecutorMetadata state)) empty_maps)
       (DrainedShards state) c"

section \<open>Refreshing\<close>

definition refreshNamespaceState :: "store_read \<Rightarrow> shardCache \<Rightarrow> bool result \<times> shardCache" where
  "refreshNamespaceState rd c =
     (case read_result rd of
        Inl e \<Rightarrow> (Inl (Errorf ''get assignment state for namespace'' e), c)
      | Inr state \<Rightarrow>
          (case applyNamespaceState (executor_order rd) (shard_order rd) state c of
             (updated, c) \<Rightarrow> (Inr updated, c)))"

definition refresh :: "store_read \<Rightarrow> shardCache \<Rightarrow> err option \<times> shardCache" where
  "refresh rd c =
     (case refreshNamespaceState rd c of
        (Inl e, c) \<Rightarrow> (Some (Errorf ''refresh namespace state'' e), c)
      | (Inr updated, c) \<Rightarrow> (None, if updated then notifySubscribers c else c))"

text \<open>
  A caller of \<open>refreshSingleFlight\<close> waits for a refresh that it shares with the other callers, or
  gives up when its context ends; the refresh then goes on without it.
\<close>

datatype flight = FlightResult store_read | FlightCancelled err

definition refreshSingleFlight :: "flight \<Rightarrow> shardCache \<Rightarrow> err option \<times> shardCache" where
  "refreshSingleFlight fl c =
     (case fl of
        FlightCancelled e \<Rightarrow> (Some e, c)
      | FlightResult rd \<Rightarrow> refresh rd c)"

section \<open>Lookups\<close>

definition lookupDrained :: "string \<Rightarrow> shardCache \<Rightarrow> bool \<times> bool" where
  "lookupDrained shardID c = (shardID \<in> set (drainedShards c), 0 < lastRevision c)"

definition cache_IsShardDrained :: "flight \<Rightarrow> string \<Rightarrow> shardCache \<Rightarrow> bool result \<times> shardCache" where
  "cache_IsShardDrained fl shardID c =
     (case lookupDrained shardID c of
        (drained, loaded) \<Rightarrow>
          if loaded then (Inr drained, c)
          else (case refreshSingleFlight fl c of
                  (Some e, c) \<Rightarrow> (Inl (Errorf ''refresh for namespace'' e), c)
                | (None, c) \<Rightarrow> (Inr (fst (lookupDrained shardID c)), c)))"

definition getShardOwnerInMap ::
    "flight \<Rightarrow> (shardCache \<Rightarrow> (string, ShardOwner) gomap) \<Rightarrow> string \<Rightarrow> shardCache
      \<Rightarrow> ShardOwner option result \<times> shardCache" where
  "getShardOwnerInMap fl m key c =
     (case mget (m c) key of
        Some shardOwner \<Rightarrow> (Inr (Some shardOwner), c)
      | None \<Rightarrow>
          (case refreshSingleFlight fl c of
             (Some e, c) \<Rightarrow> (Inl (Errorf ''refresh for namespace'' e), c)
           | (None, c) \<Rightarrow> (Inr (mget (m c) key), c)))"

definition cache_GetShardOwner ::
    "flight \<Rightarrow> flight \<Rightarrow> string \<Rightarrow> shardCache \<Rightarrow> ShardOwner result \<times> shardCache" where
  "cache_GetShardOwner fl\<^sub>1 fl\<^sub>2 shardID c =
     (case cache_IsShardDrained fl\<^sub>1 shardID c of
        (Inl e, c) \<Rightarrow> (Inl (Errorf ''check shard drained'' e), c)
      | (Inr drained, c) \<Rightarrow>
          if drained then (Inl ErrShardDrained, c)
          else (case getShardOwnerInMap fl\<^sub>2 shardToExecutor shardID c of
                  (Inl e, c) \<Rightarrow> (Inl (Errorf ''get shard owner in map'' e), c)
                | (Inr (Some shardOwner), c) \<Rightarrow> (Inr shardOwner, c)
                | (Inr None, c) \<Rightarrow> (Inl ErrShardNotFound, c)))"

definition cache_GetExecutor :: "flight \<Rightarrow> string \<Rightarrow> shardCache \<Rightarrow> ShardOwner result \<times> shardCache" where
  "cache_GetExecutor fl executorID c =
     (case getShardOwnerInMap fl shardOwners executorID c of
        (Inl e, c) \<Rightarrow> (Inl (Errorf ''get shard owner in map'' e), c)
      | (Inr (Some shardOwner), c) \<Rightarrow> (Inr shardOwner, c)
      | (Inr None, c) \<Rightarrow> (Inl ErrExecutorNotFound, c))"

definition GetShardAssignments :: "shardCache \<Rightarrow> AssignmentSnapshot" where
  "GetShardAssignments c =
     \<lparr>ExecutorToShards = executorToShards c, snap_DrainedShards = drainedShards c\<rparr>"

section \<open>The refresh loop\<close>

definition refreshRetryInitialInterval :: duration where "refreshRetryInitialInterval = 10 * Millisecond"
definition refreshRetryMaxInterval :: duration where "refreshRetryMaxInterval = Second"
definition reconcileInterval :: duration where "reconcileInterval = 10 * Second"
definition reconcileJitterCoeff :: float64 where "reconcileJitterCoeff = Fin (1 / 5)"

definition newRefreshRetrier_policy :: RetryPolicy where
  "newRefreshRetrier_policy =
     Exponential ((NewExponentialRetryPolicy refreshRetryInitialInterval)
       \<lparr>maximumInterval := refreshRetryMaxInterval, expirationInterval := NoInterval\<rparr>)"

text \<open>\<open>None\<close> is a panic of \<open>JitDuration\<close>.\<close>

definition nextDelay ::
    "gotime \<Rightarrow> (int \<Rightarrow> int) \<Rightarrow> err option \<Rightarrow> retrierImpl \<Rightarrow> (duration \<times> retrierImpl) option" where
  "nextDelay now rnd err retrier =
     (case err of
        None \<Rightarrow> map_option (\<lambda>d. (d, retrier_Reset now retrier))
                  (JitDuration rnd reconcileInterval reconcileJitterCoeff)
      | Some _ \<Rightarrow>
          (case NextBackOff newRefreshRetrier_policy now (\<lambda>_. rnd) retrier of
             (retryIn, retrier) \<Rightarrow>
               Some (if retryIn \<le> 0 then refreshRetryMaxInterval else retryIn, retrier)))"

datatype wakeup = StopClosed | ChangeClosed | ChangeSignal | TimerFired

definition waitForRefresh :: "wakeup \<Rightarrow> bool" where
  "waitForRefresh w = (case w of StopClosed \<Rightarrow> False | ChangeClosed \<Rightarrow> False | ChangeSignal \<Rightarrow> True | TimerFired \<Rightarrow> True)"

text \<open>
  The loop as a function of what wakes it up, with the read, the time and the random numbers of
  each round; the result is the cache and the delays it waited for.
\<close>

record refresh_round =
  rr_wakeup :: wakeup
  rr_read :: store_read
  rr_now :: gotime
  rr_rand :: "int \<Rightarrow> int"

fun refreshRounds ::
    "refresh_round list \<Rightarrow> retrierImpl \<Rightarrow> shardCache \<Rightarrow> (duration list \<times> shardCache) option" where
  "refreshRounds [] retrier c = Some ([], c)"
| "refreshRounds (rr # rounds) retrier c =
     (if \<not> waitForRefresh (rr_wakeup rr) then Some ([], c)
      else case refresh (rr_read rr) c of
             (err, c) \<Rightarrow>
               (case nextDelay (rr_now rr) (rr_rand rr) err retrier of
                  None \<Rightarrow> None
                | Some (delay, retrier) \<Rightarrow>
                    map_option (\<lambda>(ds, c). (delay # ds, c)) (refreshRounds rounds retrier c)))"

definition namespaceRefreshLoop ::
    "gotime \<Rightarrow> (int \<Rightarrow> int) \<Rightarrow> refresh_round list \<Rightarrow> shardCache \<Rightarrow> (duration list \<times> shardCache) option" where
  "namespaceRefreshLoop now rnd rounds c =
     (case nextDelay now rnd None (NewRetrier now) of
        None \<Rightarrow> None
      | Some (delay, retrier) \<Rightarrow>
          map_option (\<lambda>(ds, c). (delay # ds, c)) (refreshRounds rounds retrier c))"

section \<open>What the maps of a snapshot hold\<close>

definition wf_snapshot :: "AssignmentState \<Rightarrow> bool" where
  "wf_snapshot st =
     (wf_map (ExecutorMetadata st) \<and> list_all (\<lambda>(_, md). wf_map md) (ExecutorMetadata st)
      \<and> wf_map (ShardAssignments st) \<and> list_all (\<lambda>(_, a). wf_map (AssignedShards a)) (ShardAssignments st))"

abbreviation owner_of :: "string \<Rightarrow> (string, string) gomap \<Rightarrow> ShardOwner" where
  "owner_of e md \<equiv> \<lparr>so_ExecutorID = e, so_Metadata = md\<rparr>"

text \<open>The executor \<open>e\<close> is visible in the snapshot with metadata \<open>md\<close> and holds the shard.\<close>

definition visible_owner :: "AssignmentState \<Rightarrow> string \<Rightarrow> string \<Rightarrow> (string, string) gomap \<Rightarrow> bool" where
  "visible_owner st s e md = (mget (ExecutorMetadata st) e = Some md
     \<and> (\<exists>a. mget (ShardAssignments st) e = Some a \<and> mhas (AssignedShards a) s))"

lemma update_absent: "\<not> mhas m k \<Longrightarrow> mput k v m = m @ [(k, v)]"
  by (induction m) (auto simp: mhas_mkeys)

lemma maps_Copy_append:
  "wf_map src \<Longrightarrow> (\<And>k. mhas src k \<Longrightarrow> \<not> mhas dst k) \<Longrightarrow> maps_Copy dst src = dst @ src"
proof (induction src arbitrary: dst)
  case (Cons p src)
  obtain k v where p: "p = (k, v)" by (cases p)
  have "\<not> mhas dst k" using Cons.prems(2) [of k] by (simp add: p mhas_mkeys)
  moreover have "maps_Copy (dst @ [(k, v)]) src = (dst @ [(k, v)]) @ src"
    using Cons.prems by (intro Cons.IH) (auto simp: p wf_map_def mhas_mkeys)
  ultimately show ?case by (simp add: maps_Copy_def p update_absent)
qed (simp add: maps_Copy_def)

lemma maps_Copy_Nil: "wf_map src \<Longrightarrow> maps_Copy [] src = src"
  using maps_Copy_append [of src "[]"] by (simp add: mhas_def)

lemma applyExecutor_fresh:
  assumes "mget (nm_shardOwners nm) e = None" "wf_map md"
  shows "nm_shardOwners (applyExecutor sord st (e, md) nm) = mput e (owner_of e md) (nm_shardOwners nm)"
    and "nm_shardToExecutor (applyExecutor sord st (e, md) nm) =
      (case mget (ShardAssignments st) e of None \<Rightarrow> nm_shardToExecutor nm
       | Some a \<Rightarrow> fold (\<lambda>s m. mput s (owner_of e md) m) (sord e (mkeys (AssignedShards a))) (nm_shardToExecutor nm))"
    and "nm_executorState (applyExecutor sord st (e, md) nm) =
      (case mget (ShardAssignments st) e of None \<Rightarrow> nm_executorState nm
       | Some a \<Rightarrow> mput (owner_of e md) (sord e (mkeys (AssignedShards a))) (nm_executorState nm))"
  using assms
  by (auto simp: applyExecutor_def getOrCreateShardOwner_def Let_def maps_Copy_Nil
      split: option.splits)

definition put_shards ::
    "(string \<Rightarrow> order) \<Rightarrow> AssignmentState \<Rightarrow> string \<times> (string, string) gomap
      \<Rightarrow> (string, ShardOwner) gomap \<Rightarrow> (string, ShardOwner) gomap" where
  "put_shards sord st = (\<lambda>(e, md) m.
     case mget (ShardAssignments st) e of None \<Rightarrow> m
     | Some a \<Rightarrow> fold (\<lambda>s m. mput s (owner_of e md) m) (sord e (mkeys (AssignedShards a))) m)"

lemma fold_applyExecutor:
  "distinct (map fst ms) \<Longrightarrow> (\<And>e md. (e, md) \<in> set ms \<Longrightarrow> wf_map md \<and> mget (nm_shardOwners nm) e = None) \<Longrightarrow>
     nm_shardOwners (fold (applyExecutor sord st) ms nm) =
       fold (\<lambda>(e, md). mput e (owner_of e md)) ms (nm_shardOwners nm)
     \<and> nm_shardToExecutor (fold (applyExecutor sord st) ms nm) =
       fold (put_shards sord st) ms (nm_shardToExecutor nm)"
proof (induction ms arbitrary: nm)
  case (Cons p ms)
  obtain e md where p: "p = (e, md)" by (cases p)
  have fresh: "mget (nm_shardOwners nm) e = None" "wf_map md" using Cons.prems(2) p by auto
  have "e \<notin> fst ` set ms" using Cons.prems(1) by (simp add: p)
  then have pre: "wf_map md' \<and> mget (nm_shardOwners (applyExecutor sord st (e, md) nm)) e' = None"
    if "(e', md') \<in> set ms" for e' md'
    using Cons.prems(2) [of e' md'] that
    by (auto simp: applyExecutor_fresh(1) [OF fresh] mget_mput rev_image_eqI)
  show ?case
    using Cons.IH [OF _ pre] Cons.prems(1)
    by (simp add: p applyExecutor_fresh [OF fresh] put_shards_def)
qed simp

lemma mget_put_shards:
  assumes "is_order (sord e)"
  shows "mget (put_shards sord st (e, md) m) s =
    (if \<exists>a. mget (ShardAssignments st) e = Some a \<and> mhas (AssignedShards a) s
     then Some (owner_of e md) else mget m s)"
proof -
  have "set (sord e xs) = set xs" for xs using assms by (metis is_order_def set_mset_mset)
  then show ?thesis
    by (auto simp: put_shards_def mget_fold_mput mhas_mkeys split: option.splits)
qed

lemma mget_put_all:
  assumes "\<And>e. is_order (sord e)"
  shows "mget (fold (put_shards sord st) ms m) s = Some o' \<Longrightarrow>
    mget m s = Some o' \<or> (\<exists>e md a. (e, md) \<in> set ms \<and> o' = owner_of e md
      \<and> mget (ShardAssignments st) e = Some a \<and> mhas (AssignedShards a) s)"
proof (induction ms arbitrary: m)
  case (Cons p ms)
  obtain e md where p: "p = (e, md)" by (cases p)
  from Cons.prems have "mget (fold (put_shards sord st) ms (put_shards sord st (e, md) m)) s = Some o'"
    by (simp add: p)
  from Cons.IH [OF this] show ?case
    by (auto simp: p mget_put_shards [OF assms] split: if_splits)
qed simp

lemma mget_put_all_None:
  assumes "\<And>e. is_order (sord e)"
  shows "mget (fold (put_shards sord st) ms m) s = None \<longleftrightarrow>
    mget m s = None \<and> (\<forall>(e, md) \<in> set ms. \<forall>a. mget (ShardAssignments st) e = Some a \<longrightarrow> \<not> mhas (AssignedShards a) s)"
  by (induction ms arbitrary: m) (auto simp: mget_put_shards [OF assms] split: if_splits)

lemma mget_put_owners:
  "distinct (map fst ms) \<Longrightarrow>
    mget (fold (\<lambda>(e, md). mput e (owner_of e md)) ms m) e =
      (case mget ms e of Some md \<Rightarrow> Some (owner_of e md) | None \<Rightarrow> mget m e)"
  by (induction ms arbitrary: m) (auto simp: mget_mput split: option.splits dest: map_of_SomeD intro: rev_image_eqI)

section \<open>The cache holds the newest snapshot\<close>

text \<open>The cache shows the snapshot \<open>st\<close>, up to the owner picked for a shard with two owners.\<close>

definition cache_shows :: "AssignmentState \<Rightarrow> shardCache \<Rightarrow> bool" where
  "cache_shows st c \<longleftrightarrow>
     lastRevision c = Revision st \<and> drainedShards c = DrainedShards st
     \<and> (\<forall>e. mget (shardOwners c) e = map_option (owner_of e) (mget (ExecutorMetadata st) e))
     \<and> (\<forall>s o'. mget (shardToExecutor c) s = Some o' \<longrightarrow> visible_owner st s (so_ExecutorID o') (so_Metadata o'))
     \<and> (\<forall>s. mget (shardToExecutor c) s = None \<longleftrightarrow> \<not> (\<exists>e md. visible_owner st s e md))"

definition good_read :: "store_read \<Rightarrow> bool" where
  "good_read rd \<longleftrightarrow> is_order (executor_order rd) \<and> (\<forall>e. is_order (shard_order rd e))
     \<and> (\<forall>st. read_result rd = Inr st \<longrightarrow> wf_snapshot st \<and> 0 < Revision st)"

lemma owner_of_eta: "o' = owner_of (so_ExecutorID o') (so_Metadata o')"
  by simp

lemma applyNamespaceState_shows:
  assumes "good_read rd" "wf_snapshot st" "lastRevision c < Revision st"
  shows "cache_shows st (snd (applyNamespaceState (executor_order rd) (shard_order rd) st c))"
proof -
  let ?ms = "mrange (executor_order rd) (ExecutorMetadata st)"
  let ?nm = "fold (applyExecutor (shard_order rd) st) ?ms empty_maps"
  have ord: "is_order (executor_order rd)" "\<And>e. is_order (shard_order rd e)"
    using assms(1) by (auto simp: good_read_def)
  have wf: "wf_map (ExecutorMetadata st)" using assms(2) by (simp add: wf_snapshot_def)
  have set: "set ?ms = set (ExecutorMetadata st)" by (rule set_mrange [OF ord(1) wf])
  have wfm: "wf_map ?ms" by (rule wf_mrange [OF ord(1) wf])
  then have dist: "distinct (map fst ?ms)" by (simp add: wf_map_def)
  have get: "mget ?ms e = mget (ExecutorMetadata st) e" for e
    by (simp add: mget_mrange [OF ord(1) wf])
  have pre: "wf_map md \<and> mget (nm_shardOwners empty_maps) e = None" if "(e, md) \<in> set ?ms" for e md
    using that assms(2) unfolding set by (auto simp: wf_snapshot_def list_all_iff empty_maps_def)
  have s2e: "nm_shardToExecutor ?nm = fold (put_shards (shard_order rd) st) ?ms []"
    and so: "nm_shardOwners ?nm = fold (\<lambda>(e, md). mput e (owner_of e md)) ?ms []"
    using fold_applyExecutor [OF dist pre] by (simp_all add: empty_maps_def)
  have in_ms: "(e, md) \<in> set ?ms \<longleftrightarrow> mget (ExecutorMetadata st) e = Some md" for e md
    unfolding set by (simp add: mget_eq_iff [OF wf])
  have "visible_owner st s (so_ExecutorID o') (so_Metadata o')" if "mget (nm_shardToExecutor ?nm) s = Some o'" for s o'
    using mget_put_all [OF ord(2) that [unfolded s2e]] in_ms by (auto simp: visible_owner_def)
  moreover have "mget (nm_shardToExecutor ?nm) s = None \<longleftrightarrow> \<not> (\<exists>e md. visible_owner st s e md)" for s
    unfolding s2e mget_put_all_None [OF ord(2)] by (force simp: visible_owner_def Ball_def split_paired_All in_ms)
  moreover have "mget (nm_shardOwners ?nm) e = map_option (owner_of e) (mget (ExecutorMetadata st) e)" for e
    unfolding so mget_put_owners [OF dist] get by (simp split: option.splits)
  ultimately show ?thesis
    using assms(3) by (simp add: cache_shows_def applyNamespaceState_def replaceNamespaceState_def)
qed

lemma cache_shows_notify [simp]: "cache_shows st (notifySubscribers c) = cache_shows st c"
  by (simp add: cache_shows_def notifySubscribers_def)

lemma lastRevision_notify [simp]: "lastRevision (notifySubscribers c) = lastRevision c"
  by (simp add: notifySubscribers_def)

lemma apply_stale:
  "Revision st \<le> lastRevision c \<Longrightarrow> applyNamespaceState ord sord st c = (False, c)"
  by (simp add: applyNamespaceState_def replaceNamespaceState_def)

lemma apply_fresh:
  "lastRevision c < Revision st \<Longrightarrow> fst (applyNamespaceState ord sord st c)
     \<and> lastRevision (snd (applyNamespaceState ord sord st c)) = Revision st"
  by (simp add: applyNamespaceState_def replaceNamespaceState_def)

text \<open>One refresh: an error and a snapshot that is not newer leave the cache as it is.\<close>

lemma refresh_cases:
  assumes "good_read rd"
  obtains (failed) e where "read_result rd = Inl e" "snd (refresh rd c) = c" "fst (refresh rd c) \<noteq> None"
  | (stale) st where "read_result rd = Inr st" "Revision st \<le> lastRevision c" "refresh rd c = (None, c)"
  | (newer) st where "read_result rd = Inr st" "lastRevision c < Revision st" "cache_shows st (snd (refresh rd c))"
      "fst (refresh rd c) = None"
      "subscribers (snd (refresh rd c)) = map (\<lambda>(uniqueID, _). (uniqueID, True)) (subscribers c)"
proof (cases "read_result rd")
  case (Inl e)
  then show ?thesis using failed by (simp add: refresh_def refreshNamespaceState_def)
next
  case (Inr st)
  obtain upd c' where app: "applyNamespaceState (executor_order rd) (shard_order rd) st c = (upd, c')"
    by (cases "applyNamespaceState (executor_order rd) (shard_order rd) st c")
  have wf: "wf_snapshot st" using assms Inr by (simp add: good_read_def)
  have r: "refresh rd c = (None, if upd then notifySubscribers c' else c')"
    by (simp add: refresh_def refreshNamespaceState_def Inr app)
  show ?thesis
  proof (cases "Revision st \<le> lastRevision c")
    case True
    then show ?thesis using stale Inr r app by (simp add: apply_stale)
  next
    case False
    then have newer_rev: "lastRevision c < Revision st" by simp
    have "upd" "subscribers c' = subscribers c"
      using app False by (auto simp: applyNamespaceState_def replaceNamespaceState_def)
    moreover have "cache_shows st c'" using applyNamespaceState_shows [OF assms wf newer_rev] app by simp
    ultimately show ?thesis
      using newer [OF Inr newer_rev] r by (simp add: notifySubscribers_def cache_shows_def)
  qed
qed

lemma refresh_mono: "good_read rd \<Longrightarrow> lastRevision c \<le> lastRevision (snd (refresh rd c))"
  by (erule refresh_cases [of rd c]) (auto simp: cache_shows_def)

text \<open>After refreshes in any order the cache shows a snapshot that no other one exceeds.\<close>

definition refresh_all :: "store_read list \<Rightarrow> shardCache \<Rightarrow> shardCache" where
  "refresh_all reads c = fold (\<lambda>rd c. snd (refresh rd c)) reads c"

lemma refresh_all_newest:
  assumes "list_all good_read reads"
  shows "(\<forall>rd st. rd \<in> set reads \<longrightarrow> read_result rd = Inr st \<longrightarrow> Revision st \<le> lastRevision (refresh_all reads newShardCache))
    \<and> (lastRevision (refresh_all reads newShardCache) = 0
       \<or> (\<exists>rd st. rd \<in> set reads \<and> read_result rd = Inr st \<and> cache_shows st (refresh_all reads newShardCache)))"
  using assms
proof (induction reads rule: rev_induct)
  case Nil
  then show ?case by (simp add: refresh_all_def newShardCache_def)
next
  case (snoc rd reads)
  have good: "good_read rd" using snoc.prems by simp
  let ?c = "refresh_all reads newShardCache"
  have IH: "\<forall>rd st. rd \<in> set reads \<longrightarrow> read_result rd = Inr st \<longrightarrow> Revision st \<le> lastRevision ?c"
    "lastRevision ?c = 0 \<or> (\<exists>rd st. rd \<in> set reads \<and> read_result rd = Inr st \<and> cache_shows st ?c)"
    using snoc by auto
  have eq: "refresh_all (reads @ [rd]) newShardCache = snd (refresh rd ?c)" by (simp add: refresh_all_def)
  from good show ?case
  proof (cases rule: refresh_cases [where c = ?c])
    case (failed e)
    then show ?thesis using IH by (auto simp: eq)
  next
    case (stale st)
    then show ?thesis using IH by (auto simp: eq)
  next
    case (newer st)
    then have "lastRevision (snd (refresh rd ?c)) = Revision st" by (simp add: cache_shows_def)
    then show ?thesis using IH newer unfolding eq by fastforce
  qed
qed

lemma visible_owner_unique:
  assumes "wf_snapshot st" "single_owner (ShardAssignments st)" "visible_owner st s e md" "visible_owner st s e' md'"
  shows "e = e' \<and> md = md'"
proof -
  have wf: "wf_map (ShardAssignments st)" using assms(1) by (simp add: wf_snapshot_def)
  obtain a a' where "(e, a) \<in> set (ShardAssignments st)" "mhas (AssignedShards a) s"
      "(e', a') \<in> set (ShardAssignments st)" "mhas (AssignedShards a') s"
    using assms(3,4) by (auto simp: visible_owner_def dest: map_of_SomeD)
  then have "e = e'" using single_owner_unique [OF assms(2) wf] by blast
  then show ?thesis using assms(3,4) by (simp add: visible_owner_def)
qed

text \<open>The three answers of a warm cache that shows \<open>st\<close>.\<close>

lemma warm_lookup:
  assumes "cache_shows st c" "wf_snapshot st" "0 < Revision st" "single_owner (ShardAssignments st)"
  shows "s \<in> set (DrainedShards st) \<Longrightarrow> cache_GetShardOwner fl\<^sub>1 fl\<^sub>2 s c = (Inl ErrShardDrained, c)"
    and "s \<notin> set (DrainedShards st) \<Longrightarrow> visible_owner st s e md \<Longrightarrow>
      cache_GetShardOwner fl\<^sub>1 fl\<^sub>2 s c = (Inr (owner_of e md), c)"
    and "s \<notin> set (DrainedShards st) \<Longrightarrow> \<not> (\<exists>e md. visible_owner st s e md) \<Longrightarrow> read_result rd = Inr st \<Longrightarrow>
      cache_GetShardOwner fl\<^sub>1 (FlightResult rd) s c = (Inl ErrShardNotFound, c)"
proof -
  note c = assms(1) [unfolded cache_shows_def]
  have loaded: "cache_IsShardDrained fl\<^sub>1 s c = (Inr (s \<in> set (DrainedShards st)), c)"
    using c assms(3) by (simp add: cache_IsShardDrained_def lookupDrained_def)
  show "s \<in> set (DrainedShards st) \<Longrightarrow> cache_GetShardOwner fl\<^sub>1 fl\<^sub>2 s c = (Inl ErrShardDrained, c)"
    by (simp add: cache_GetShardOwner_def loaded)
  show "cache_GetShardOwner fl\<^sub>1 fl\<^sub>2 s c = (Inr (owner_of e md), c)"
    if own: "s \<notin> set (DrainedShards st)" "visible_owner st s e md"
  proof -
    obtain o' where o': "mget (shardToExecutor c) s = Some o'" using c own(2) by (metis option.exhaust)
    then have "visible_owner st s (so_ExecutorID o') (so_Metadata o')" using c by blast
    from visible_owner_unique [OF assms(2,4) this own(2)] have "o' = owner_of e md" by simp
    then show ?thesis
      using o' own(1) by (simp add: cache_GetShardOwner_def loaded getShardOwnerInMap_def)
  qed
  show "cache_GetShardOwner fl\<^sub>1 (FlightResult rd) s c = (Inl ErrShardNotFound, c)"
    if "s \<notin> set (DrainedShards st)" "\<not> (\<exists>e md. visible_owner st s e md)" "read_result rd = Inr st"
  proof -
    have "mget (shardToExecutor c) s = None" using c that(2) by blast
    moreover have "refresh rd c = (None, c)"
      using c that(3) by (simp add: refresh_def refreshNamespaceState_def apply_stale)
    ultimately show ?thesis
      using that(1) by (simp add: cache_GetShardOwner_def loaded getShardOwnerInMap_def refreshSingleFlight_def)
  qed
qed

text \<open>
  C21. However refreshes overlap and in whatever order their snapshots arrive, failed reads
  included, the cache ends with the newest one and answers from it: a drained shard is refused,
  a shard held by a visible executor is answered with that executor and its metadata, and a shard
  nobody holds is reported as not found once a re-read confirms it.
\<close>

theorem cache_answers_newest:
  assumes "list_all good_read reads" "rd \<in> set reads" "read_result rd = Inr st"
    and "single_owner (ShardAssignments st)"
    and "\<forall>rd' \<in> set reads. \<forall>st'. read_result rd' = Inr st' \<longrightarrow>
      Revision st' \<le> Revision st \<and> (Revision st' = Revision st \<longrightarrow> st' = st)"
  shows "let c = refresh_all reads newShardCache in
    lastRevision c = Revision st
    \<and> (s \<in> set (DrainedShards st) \<longrightarrow> cache_GetShardOwner fl\<^sub>1 fl\<^sub>2 s c = (Inl ErrShardDrained, c))
    \<and> (s \<notin> set (DrainedShards st) \<longrightarrow> visible_owner st s e md \<longrightarrow>
         cache_GetShardOwner fl\<^sub>1 fl\<^sub>2 s c = (Inr \<lparr>so_ExecutorID = e, so_Metadata = md\<rparr>, c))
    \<and> (s \<notin> set (DrainedShards st) \<longrightarrow> \<not> (\<exists>e md. visible_owner st s e md) \<longrightarrow>
         cache_GetShardOwner fl\<^sub>1 (FlightResult rd) s c = (Inl ErrShardNotFound, c))"
proof -
  let ?c = "refresh_all reads newShardCache"
  have good: "wf_snapshot st" "0 < Revision st"
    using assms(1-3) by (auto simp: list_all_iff good_read_def)
  have le: "Revision st \<le> lastRevision ?c" using refresh_all_newest [OF assms(1)] assms(2,3) by blast
  then have "lastRevision ?c \<noteq> 0" using good(2) by simp
  then obtain rd' st' where st': "rd' \<in> set reads" "read_result rd' = Inr st'" "cache_shows st' ?c"
    using refresh_all_newest [OF assms(1)] by blast
  have "lastRevision ?c = Revision st'" using st'(3) by (simp add: cache_shows_def)
  then have "st' = st" using assms(5) st'(1,2) le by fastforce
  then have shown: "cache_shows st ?c" using st'(3) by simp
  show ?thesis
    using warm_lookup [OF shown good assms(4)] assms(3) shown by (simp add: Let_def cache_shows_def)
qed

text \<open>Two snapshots that arrive in the wrong order, with a failed read between them.\<close>

definition demo_old :: AssignmentState where
  "demo_old = \<lparr>ExecutorMetadata = [(''a'', [])],
     ShardAssignments = [(''a'', zero_AssignedState\<lparr>AssignedShards := [(''1'', \<lparr>sa_Status = AssignmentStatusREADY\<rparr>)]\<rparr>)],
     DrainedShards = [], Revision = 4, AssignmentRevision = 4\<rparr>"

definition demo_new :: AssignmentState where
  "demo_new = \<lparr>ExecutorMetadata = [(''a'', []), (''b'', [(''ip'', ''x'')])],
     ShardAssignments = [(''b'', zero_AssignedState\<lparr>AssignedShards := [(''1'', \<lparr>sa_Status = AssignmentStatusREADY\<rparr>)]\<rparr>)],
     DrainedShards = [''2''], Revision = 7, AssignmentRevision = 7\<rparr>"

definition demo_read :: "AssignmentState result \<Rightarrow> store_read" where
  "demo_read r = \<lparr>read_result = r, executor_order = (\<lambda>xs. xs), shard_order = (\<lambda>_ xs. xs)\<rparr>"

theorem cache_answers_newest_witness:
  "let c = refresh_all [demo_read (Inr demo_new), demo_read (Inl DeadlineExceeded), demo_read (Inr demo_old)] newShardCache in
   lastRevision c = 7
   \<and> cache_GetShardOwner (FlightCancelled ContextCanceled) (FlightCancelled ContextCanceled) ''1'' c
      = (Inr \<lparr>so_ExecutorID = ''b'', so_Metadata = [(''ip'', ''x'')]\<rparr>, c)"
proof -
  let ?reads = "[demo_read (Inr demo_new), demo_read (Inl DeadlineExceeded), demo_read (Inr demo_old)]"
  have "list_all good_read ?reads"
    by (simp add: good_read_def demo_read_def is_order_def wf_snapshot_def demo_new_def demo_old_def
        wf_map_def zero_AssignedState_def)
  moreover have "single_owner (ShardAssignments demo_new)"
    by (simp add: single_owner_def demo_new_def)
  moreover have "visible_owner demo_new ''1'' ''b'' [(''ip'', ''x'')]"
    by (simp add: visible_owner_def demo_new_def mhas_def)
  moreover have "''1'' \<notin> set (DrainedShards demo_new)" "Revision demo_new = 7" "Revision demo_old = 4"
    by (simp_all add: demo_new_def demo_old_def)
  ultimately show ?thesis
    using cache_answers_newest [of ?reads "demo_read (Inr demo_new)" demo_new "''1''"
        "FlightCancelled ContextCanceled" "FlightCancelled ContextCanceled" "''b''" "[(''ip'', ''x'')]"]
    by (simp add: demo_read_def Let_def)
qed

section \<open>Delays of the refresh loop\<close>

text \<open>
  The refresh loop never stops and never spins: after a successful refresh it waits between 8
  and 12 seconds, after a failed one a positive time of at most one second, whatever the number
  of failures so far.
\<close>

theorem refresh_delay_bounds:
  assumes "is_rand rnd"
  shows "\<exists>delay retrier'. nextDelay now rnd err retrier = Some (delay, retrier')
    \<and> (if err = None then 8 * Second \<le> delay \<and> delay \<le> 12 * Second else 0 < delay \<and> delay \<le> Second)"
proof (cases err)
  case None
  obtain d where d: "JitInt64 rnd reconcileInterval reconcileJitterCoeff = Some d"
      "\<lfloor>reconcileInterval * (1 - 1 / 5 :: real)\<rfloor> \<le> d" "d \<le> reconcileInterval + \<lceil>reconcileInterval * (1 / 5 :: real)\<rceil>"
    using JitInt64_bounds [OF assms, of "1 / 5" reconcileInterval]
    by (auto simp: reconcileInterval_def Second_def Millisecond_def reconcileJitterCoeff_def)
  have "JitDuration rnd reconcileInterval reconcileJitterCoeff = Some d"
    using d(1) by (simp add: JitDuration_def validateCoefficient_def reconcileJitterCoeff_def zero_float64_def)
  moreover have "8 * Second \<le> d" "d \<le> 12 * Second"
    using d(2,3) by (simp_all add: reconcileInterval_def Second_def Millisecond_def)
  ultimately show ?thesis
    using None by (auto simp: nextDelay_def)
next
  case (Some e)
  obtain p where p: "newRefreshRetrier_policy = Exponential p" "0 < initialInterval p"
      "backoffCoefficient p = Fin 2" "maximumInterval p = Second" "expirationInterval p = NoInterval"
    by (simp add: newRefreshRetrier_policy_def NewExponentialRetryPolicy_def refreshRetryInitialInterval_def
        refreshRetryMaxInterval_def Millisecond_def)
  define d where "d = ComputeNextDelay rnd p (getElapsedTime now retrier) (currentAttempt retrier)"
  have "d = backoff_done \<or> d \<le> Second"
  proof (cases "d = backoff_done")
    case False
    obtain x where "d = jittered rnd (Fin x)" "initialInterval p \<le> \<lfloor>x\<rfloor>" "x \<le> maximumInterval p"
      by (rule ComputeNextDelay_interval [OF p(2,3) _ _ _ False [unfolded d_def]])
         (auto simp: p(4) Second_def Millisecond_def d_def)
    moreover have "0 < x" using calculation(2) p(2) by linarith
    moreover have "x < 2 ^ 63" using calculation(3) by (simp add: p(4) Second_def Millisecond_def)
    ultimately have "real_of_int d \<le> real_of_int Second"
      using jittered_bounds(2) [OF assms, of x] p(4) by simp
    then show ?thesis by simp
  qed simp
  then show ?thesis
    using Some
    by (auto simp: nextDelay_def NextBackOff_def p(1) d_def [symmetric] refreshRetryMaxInterval_def backoff_done_def
        Second_def Millisecond_def)
qed

theorem refresh_delay_bounds_witness:
  "\<exists>delay retrier'. nextDelay 0 (\<lambda>_. 0) (Some DeadlineExceeded) (NewRetrier 0) = Some (delay, retrier')
     \<and> 0 < delay \<and> delay \<le> Second"
  using refresh_delay_bounds [of "\<lambda>_. 0" 0 "Some DeadlineExceeded" "NewRetrier 0"]
  by (simp add: is_rand_def)

end
