(* ===== verification/NamespaceWatch.thy ===== *)
theory NamespaceWatch
  imports StoreDrain Cache
begin

text \<open>
  The namespace watch of \<open>store/etcd/executorstore/namespacewatch.go\<close> and its composition with
  the refresh loop of the cache. The watch turns the events of etcd into one-slot signals, and the
  loop re-reads the namespace when it is signalled.

  \<^item> The channel of signals has one slot, so it is a flag.
  \<^item> The watch API of etcd is third-party: \<open>delivers\<close> states which events it sends for a write, and
    a watch that is re-established starts at the current revision.
  \<^item> The composition is the step relation \<open>watch_step\<close>. Every interleaving of writes, watch
    failures, reconnections, failed reads, refreshes of other callers and timers is one of its runs.
\<close>

section \<open>The watch\<close>

definition signalNamespaceChange :: "bool \<Rightarrow> bool" where
  "signalNamespaceChange changeChan = (if \<not> changeChan then True else changeChan)"

definition isNamespaceStateChange :: "string \<Rightarrow> string \<Rightarrow> 'v WatchEvent \<Rightarrow> bool" where
  "isNamespaceStateChange pre namespace event =
     (let key = ev_Key event in
      if prefix (BuildExecutorsPrefix pre namespace) key
      then (case ParseExecutorKey pre namespace key of
              Inl _ \<Rightarrow> False
            | Inr (_, keyType) \<Rightarrow>
                if keyType \<noteq> ExecutorAssignedStateKey \<and> keyType \<noteq> ExecutorMetadataKey then False
                else if ev_PrevValue event = Some (ev_Value event) then False
                else True)
      else if prefix (BuildDrainedShardsPrefix pre namespace) key
      then (case ParseDrainedShardKey pre namespace key of Inl _ \<Rightarrow> False | Inr _ \<Rightarrow> True)
      else False)"

definition hasNamespaceStateChanged :: "string \<Rightarrow> string \<Rightarrow> 'v WatchEvent list \<Rightarrow> bool" where
  "hasNamespaceStateChanged pre namespace events = list_ex (isNamespaceStateChange pre namespace) events"

text \<open>The loop over the responses of one watch; it returns the reason why the watch ended.\<close>

fun watchNamespace_loop ::
    "string \<Rightarrow> string \<Rightarrow> 'v WatchEvent list result list \<Rightarrow> bool \<Rightarrow> err \<times> bool" where
  "watchNamespace_loop pre namespace [] changeChan = (ErrorString ''watch channel closed'', changeChan)"
| "watchNamespace_loop pre namespace (watchResp # watchChan) changeChan =
     (case watchResp of
        Inl e \<Rightarrow> (Errorf ''watch response'' e, changeChan)
      | Inr events \<Rightarrow>
          watchNamespace_loop pre namespace watchChan
            (if hasNamespaceStateChanged pre namespace events then signalNamespaceChange changeChan
             else changeChan))"

definition watchNamespace ::
    "string \<Rightarrow> string \<Rightarrow> 'v WatchEvent list result list \<Rightarrow> bool \<Rightarrow> err \<times> bool" where
  "watchNamespace pre namespace watchChan changeChan =
     watchNamespace_loop pre namespace watchChan (signalNamespaceChange changeChan)"

text \<open>Subscribing and stopping: no subscription starts once the watcher is stopped.\<close>

record namespaceWatcher =
  watcher_stopped :: bool
  watcher_running :: "string list"

definition newNamespaceWatcher :: namespaceWatcher where
  "newNamespaceWatcher = \<lparr>watcher_stopped = False, watcher_running = []\<rparr>"

definition SubscribeToNamespaceChanges :: "string \<Rightarrow> namespaceWatcher \<Rightarrow> unit result \<times> namespaceWatcher" where
  "SubscribeToNamespaceChanges namespace w =
     (if watcher_stopped w then (Inl (ErrorString ''store is stopping''), w)
      else (Inr (), w\<lparr>watcher_running := namespace # watcher_running w\<rparr>))"

definition watcher_Stop :: "namespaceWatcher \<Rightarrow> namespaceWatcher" where
  "watcher_Stop w = w\<lparr>watcher_stopped := True, watcher_running := []\<rparr>"

section \<open>What the events say\<close>

text \<open>
  The keys whose changes matter. An executor key with an empty value looks like an absent one: a
  deletion event carries the empty value \<open>nil\<close>.
\<close>

definition watched_executor_key :: "string \<Rightarrow> string \<Rightarrow> string \<Rightarrow> bool" where
  "watched_executor_key pre namespace key =
     (prefix (BuildExecutorsPrefix pre namespace) key
      \<and> (case ParseExecutorKey pre namespace key of Inl _ \<Rightarrow> False
         | Inr (_, keyType) \<Rightarrow> keyType = ExecutorAssignedStateKey \<or> keyType = ExecutorMetadataKey))"

definition watched_drained_key :: "string \<Rightarrow> string \<Rightarrow> string \<Rightarrow> bool" where
  "watched_drained_key pre namespace key =
     (\<not> prefix (BuildExecutorsPrefix pre namespace) key \<and> prefix (BuildDrainedShardsPrefix pre namespace) key
      \<and> (case ParseDrainedShardKey pre namespace key of Inl _ \<Rightarrow> False | Inr _ \<Rightarrow> True))"

definition value_of :: "'v \<Rightarrow> 'v kvs \<Rightarrow> string \<Rightarrow> 'v" where
  "value_of nil m k = (case mget m k of None \<Rightarrow> nil | Some (v, _) \<Rightarrow> v)"

definition same_watched :: "'v \<Rightarrow> string \<Rightarrow> string \<Rightarrow> 'v kvs \<Rightarrow> 'v kvs \<Rightarrow> bool" where
  "same_watched nil pre namespace m m' \<longleftrightarrow>
     (\<forall>k. (watched_executor_key pre namespace k \<longrightarrow> value_of nil m k = value_of nil m' k)
          \<and> (watched_drained_key pre namespace k \<longrightarrow> mhas m k = mhas m' k))"

text \<open>
  The events etcd delivers for a write that leads from \<open>m\<close> to \<open>m'\<close>: one for every key under the
  watched prefix that the write touched, with the values before and after.
\<close>

definition delivers :: "'v \<Rightarrow> string \<Rightarrow> 'v kvs \<Rightarrow> 'v kvs \<Rightarrow> 'v WatchEvent list \<Rightarrow> bool" where
  "delivers nil p m m' events \<longleftrightarrow>
     (\<forall>event \<in> set events. ev_Value event = value_of nil m' (ev_Key event)
        \<and> ev_PrevValue event = map_option fst (mget m (ev_Key event)))
     \<and> (\<forall>k. prefix p k \<longrightarrow> mget m k \<noteq> mget m' k \<longrightarrow> k \<in> ev_Key ` set events)"

lemma watched_in_namespace:
  "watched_executor_key pre ns k \<or> watched_drained_key pre ns k \<Longrightarrow> prefix (BuildNamespacePrefix pre ns) k"
  unfolding watched_executor_key_def watched_drained_key_def BuildExecutorsPrefix_def BuildDrainedShardsPrefix_def
  by (auto dest: append_prefixD)

text \<open>A response that is not reported leaves everything the cache shows as it was.\<close>

lemma unreported_same:
  assumes "delivers nil (BuildNamespacePrefix pre ns) m m' events" "\<not> hasNamespaceStateChanged pre ns events"
  shows "same_watched nil pre ns m m'"
  unfolding same_watched_def
proof (intro allI conjI impI)
  fix k
  have quiet: "\<not> isNamespaceStateChange pre ns event" if "event \<in> set events" for event
    using assms(2) that by (simp add: hasNamespaceStateChanged_def list_ex_iff)
  have event: "mget m k = mget m' k \<or> (\<exists>event \<in> set events. ev_Key event = k
      \<and> ev_Value event = value_of nil m' k \<and> ev_PrevValue event = map_option fst (mget m k))"
    if "prefix (BuildNamespacePrefix pre ns) k"
    using assms(1) that unfolding delivers_def by blast
  show "value_of nil m k = value_of nil m' k" if w: "watched_executor_key pre ns k"
  proof (cases "mget m k = mget m' k")
    case False
    then obtain event where e: "event \<in> set events" "ev_Key event = k" "ev_Value event = value_of nil m' k"
        "ev_PrevValue event = map_option fst (mget m k)"
      using event watched_in_namespace w by blast
    have "ev_PrevValue event = Some (ev_Value event)"
      using quiet [OF e(1)] w
      by (auto simp: isNamespaceStateChange_def watched_executor_key_def e(2) Let_def split: sum.splits prod.splits if_splits)
    then show ?thesis using e by (auto simp: value_of_def)
  qed (simp add: value_of_def)
  show "mhas m k = mhas m' k" if w: "watched_drained_key pre ns k"
  proof (cases "mget m k = mget m' k")
    case False
    then obtain event where "event \<in> set events" "ev_Key event = k"
      using event watched_in_namespace w by blast
    then have False
      using quiet [of event] w
      by (auto simp: isNamespaceStateChange_def watched_drained_key_def Let_def split: sum.splits)
    then show ?thesis ..
  qed (simp add: mhas_def)
qed

lemma same_watched_refl [simp]: "same_watched nil pre ns m m"
  by (simp add: same_watched_def)

lemma same_watched_trans:
  "same_watched nil pre ns m m' \<Longrightarrow> same_watched nil pre ns m' m'' \<Longrightarrow> same_watched nil pre ns m m''"
  by (simp add: same_watched_def)

section \<open>What a read of the namespace returns\<close>

text \<open>\<open>GetAssignmentState\<close> as a function of the state of etcd it reads.\<close>

definition namespace_snapshot :: "'v Codec \<Rightarrow> string \<Rightarrow> string \<Rightarrow> 'v etcd \<Rightarrow> AssignmentState result" where
  "namespace_snapshot K pre namespace db =
     (case ParseExecutorAssignmentKVs K pre namespace (range_prefix (BuildExecutorsPrefix pre namespace) (et_kvs db)) of
        Inl e \<Rightarrow> Inl e
      | Inr (metadata, assignments) \<Rightarrow>
          Inr \<lparr>ExecutorMetadata = metadata, ShardAssignments = assignments,
               DrainedShards = parseDrainedShardKVs pre namespace
                 (range_prefix (BuildDrainedShardsPrefix pre namespace) (et_kvs db)),
               Revision = et_revision db,
               AssignmentRevision = mod_revision (et_kvs db) (BuildAssignmentVersionKey pre namespace)\<rparr>)"

lemma GetAssignmentState_snapshot:
  assumes "etcd_backed C view K s" "GetAssignmentState s db ns = (r, db')"
    and "Commit C (GetAssignmentState_txn s ns) db = (Inr resp, db'')"
  shows "r = namespace_snapshot K (st_prefix s) ns (view db) \<and> view db' = view db"
proof -
  let ?m = "et_kvs (view db)" and ?pre = "st_prefix s"
  have "run_txn (GetAssignmentState_txn s ns) (view db) = (resp, view db'')"
    by (rule etcd_client.commit_done [OF etcd_backed.axioms(1) [OF assms(1)] assms(3)])
  then have resp: "resp = \<lparr>Succeeded = True, Responses =
       [ResponseRange (range_prefix (BuildExecutorsPrefix ?pre ns) ?m),
        ResponseRange (range_prefix (BuildDrainedShardsPrefix ?pre ns) ?m),
        ResponseRange (range_key (BuildAssignmentVersionKey ?pre ns) ?m)],
       HeaderRevision = et_revision (view db)\<rparr>" and v: "view db'' = view db"
    by (auto simp: run_txn_def GetAssignmentState_txn_def empty_Txn_def Let_def)
  have store: "st_client s = C" "st_codec s = K"
    using assms(1) by (simp_all add: etcd_backed_def etcd_backed_axioms_def)
  show ?thesis
    using assms(2,3) v
    by (auto simp: GetAssignmentState_def store resp range_kvs_def Let_def namespace_snapshot_def range_key_def
        mod_revision_def split: sum.splits prod.splits option.splits)
qed

text \<open>One key of the parser's loop.\<close>

lemma light_step:
  assumes "ParseExecutorAssignmentKVs_loop K pre ns (kv # kvs) (md, as) = Inr r"
  obtains e t md' as' where "ParseExecutorKey pre ns (kv_Key kv) = Inr (e, t)"
    and "ParseExecutorAssignmentKVs_loop K pre ns kvs (md', as') = Inr r"
    and "t = ExecutorAssignedStateKey \<and> (\<exists>a. decode_assigned K (kv_Value kv) (kv_ModRevision kv) = Some a
           \<and> wf_assigned a \<and> as' = mput e a as \<and> md' = mput e (mzero [] md e) md)
       \<or> t \<noteq> ExecutorAssignedStateKey \<and> as' = as
         \<and> (md' = md \<or> md' = mput e (mzero [] md e) md \<or> (\<exists>k v. md' = mput e (mput k v (mzero [] md e)) md))"
proof -
  obtain e t where k: "ParseExecutorKey pre ns (kv_Key kv) = Inr (e, t)"
    using assms by (cases "ParseExecutorKey pre ns (kv_Key kv)") auto
  show ?thesis
  proof (cases "t = ExecutorAssignedStateKey")
    case True
    obtain a where a: "DecompressAndUnmarshal K (unmarshal_AssignedState K) (kv_Value kv) = Inr a"
      using assms k True by (cases "DecompressAndUnmarshal K (unmarshal_AssignedState K) (kv_Value kv)") auto
    have "wf_assigned (ToAssignedState (a\<lparr>ModRevision := kv_ModRevision kv\<rparr>))"
      using wf_decode_assigned [OF a] by (intro wf_ToAssignedState) (simp add: wf_assigned_def)
    then show ?thesis
      using that [OF k] assms k True a by (auto simp: decode_assigned_def)
  next
    case False
    then show ?thesis
      using that [OF k] assms k by (auto simp: Let_def split: if_splits)
  qed
qed

lemma assigned_key_parse:
  assumes "ParseExecutorKey pre ns key = Inr (e', t)" "CHR ''/'' \<notin> set e"
  shows "key = assigned_key pre ns e \<longleftrightarrow> e' = e \<and> t = ExecutorAssignedStateKey"
proof
  assume "key = assigned_key pre ns e"
  then have "ParseExecutorKey pre ns key = Inr (e, ExecutorAssignedStateKey)"
    using assms(2) by (simp add: ParseExecutorKey_iff assigned_key_def)
  then show "e' = e \<and> t = ExecutorAssignedStateKey" using assms(1) by simp
next
  assume "e' = e \<and> t = ExecutorAssignedStateKey"
  then show "key = assigned_key pre ns e"
    using assms by (auto simp: ParseExecutorKey_iff assigned_key_def key_types)
qed

lemma light_assignment:
  "ParseExecutorAssignmentKVs_loop K pre ns kvs (md, as) = Inr (md', as') \<Longrightarrow> distinct (map kv_Key kvs) \<Longrightarrow>
   CHR ''/'' \<notin> set e \<Longrightarrow>
   mget as' e = (case find (\<lambda>kv. kv_Key kv = assigned_key pre ns e) kvs of
     None \<Rightarrow> mget as e | Some kv \<Rightarrow> decode_assigned K (kv_Value kv) (kv_ModRevision kv))"
proof (induction kvs arbitrary: md as)
  case (Cons kv kvs)
  obtain e' t md\<^sub>1 as\<^sub>1 where k: "ParseExecutorKey pre ns (kv_Key kv) = Inr (e', t)"
    and rest: "ParseExecutorAssignmentKVs_loop K pre ns kvs (md\<^sub>1, as\<^sub>1) = Inr (md', as')"
    and acc: "t = ExecutorAssignedStateKey \<and> (\<exists>a. decode_assigned K (kv_Value kv) (kv_ModRevision kv) = Some a
           \<and> wf_assigned a \<and> as\<^sub>1 = mput e' a as \<and> md\<^sub>1 = mput e' (mzero [] md e') md)
       \<or> t \<noteq> ExecutorAssignedStateKey \<and> as\<^sub>1 = as
         \<and> (md\<^sub>1 = md \<or> md\<^sub>1 = mput e' (mzero [] md e') md \<or> (\<exists>k v. md\<^sub>1 = mput e' (mput k v (mzero [] md e')) md))"
    by (rule light_step [OF Cons.prems(1)])
  have dist: "distinct (map kv_Key kvs)" using Cons.prems(2) by simp
  note IH = Cons.IH [OF rest dist Cons.prems(3)]
  show ?case
  proof (cases "kv_Key kv = assigned_key pre ns e")
    case True
    then have "find (\<lambda>kv. kv_Key kv = assigned_key pre ns e) kvs = None"
      using Cons.prems(2) by (auto simp: find_None_iff rev_image_eqI)
    then show ?thesis
      using IH True acc assigned_key_parse [OF k Cons.prems(3)] by (auto simp: mget_mput)
  next
    case False
    then show ?thesis
      using IH acc assigned_key_parse [OF k Cons.prems(3)] by (auto simp: mget_mput split: option.splits)
  qed
qed simp

text \<open>What holds of every snapshot: distinct keys, executor IDs without a slash, and every executor
  with an assignment is visible.\<close>

definition light_ok :: "(string, (string, string) gomap) gomap \<Rightarrow> (string, AssignedState) gomap \<Rightarrow> bool" where
  "light_ok md as \<longleftrightarrow> wf_map md \<and> (\<forall>(_, m) \<in> set md. wf_map m) \<and> wf_map as
     \<and> (\<forall>(_, a) \<in> set as. wf_assigned a) \<and> (\<forall>e. mhas as e \<longrightarrow> mhas md e \<and> CHR ''/'' \<notin> set e)"

lemma mput_entry: "(k', x) \<in> set (mput k v m) \<Longrightarrow> x = v \<or> (k', x) \<in> set m"
  by (induction m) (auto split: if_splits)

lemma mzero_metadata: "(\<forall>(_, m) \<in> set md. wf_map m) \<Longrightarrow> wf_map (mzero [] md e)"
  by (auto simp: mzero_def split: option.splits dest!: map_of_SomeD)

lemma light_ok_loop:
  "ParseExecutorAssignmentKVs_loop K pre ns kvs (md, as) = Inr (md', as') \<Longrightarrow> light_ok md as \<Longrightarrow> light_ok md' as'"
proof (induction kvs arbitrary: md as)
  case (Cons kv kvs)
  obtain e' t md\<^sub>1 as\<^sub>1 where k: "ParseExecutorKey pre ns (kv_Key kv) = Inr (e', t)"
    and rest: "ParseExecutorAssignmentKVs_loop K pre ns kvs (md\<^sub>1, as\<^sub>1) = Inr (md', as')"
    and acc: "t = ExecutorAssignedStateKey \<and> (\<exists>a. decode_assigned K (kv_Value kv) (kv_ModRevision kv) = Some a
           \<and> wf_assigned a \<and> as\<^sub>1 = mput e' a as \<and> md\<^sub>1 = mput e' (mzero [] md e') md)
       \<or> t \<noteq> ExecutorAssignedStateKey \<and> as\<^sub>1 = as
         \<and> (md\<^sub>1 = md \<or> md\<^sub>1 = mput e' (mzero [] md e') md \<or> (\<exists>k v. md\<^sub>1 = mput e' (mput k v (mzero [] md e')) md))"
    by (rule light_step [OF Cons.prems(1)])
  have e': "CHR ''/'' \<notin> set e'" using k by (simp add: ParseExecutorKey_iff)
  have md: "\<forall>(_, m) \<in> set md. wf_map m" using Cons.prems(2) by (simp add: light_ok_def)
  have "light_ok md\<^sub>1 as\<^sub>1"
    using acc Cons.prems(2) e' mzero_metadata [OF md, of e'] by (fastforce simp: light_ok_def dest!: mput_entry)
  then show ?case using Cons.IH [OF rest] by simp
qed simp

definition holds_shard :: "AssignmentState \<Rightarrow> string \<Rightarrow> string \<Rightarrow> bool" where
  "holds_shard st e s \<longleftrightarrow> (\<exists>a. mget (ShardAssignments st) e = Some a \<and> mhas (AssignedShards a) s)"

lemma snapshot_facts:
  assumes "namespace_snapshot K pre ns db = Inr st" "wf_map (et_kvs db)"
  shows "wf_snapshot st" "Revision st = et_revision db"
    and "mhas (ShardAssignments st) e \<Longrightarrow> mhas (ExecutorMetadata st) e \<and> CHR ''/'' \<notin> set e"
    and "CHR ''/'' \<notin> set e \<Longrightarrow> mget (ShardAssignments st) e = stored_assignment K pre ns (et_kvs db) e"
    and "x \<in> set (DrainedShards st) \<longleftrightarrow> x \<noteq> [] \<and> CHR ''/'' \<notin> set x \<and> mhas (et_kvs db) (BuildDrainedShardKey pre ns x)"
proof -
  let ?kvs = "range_prefix (BuildExecutorsPrefix pre ns) (et_kvs db)"
  obtain md as where parse: "ParseExecutorAssignmentKVs_loop K pre ns ?kvs ([], []) = Inr (md, as)"
    and st: "ExecutorMetadata st = md" "ShardAssignments st = as" "Revision st = et_revision db"
      "DrainedShards st = parseDrainedShardKVs pre ns (range_prefix (BuildDrainedShardsPrefix pre ns) (et_kvs db))"
    using assms(1) by (auto simp: namespace_snapshot_def ParseExecutorAssignmentKVs_def split: sum.splits)
  have ok: "light_ok md as"
    by (rule light_ok_loop [OF parse]) (simp add: light_ok_def mhas_def)
  then show "wf_snapshot st"
    by (auto simp: light_ok_def wf_snapshot_def st list_all_iff wf_assigned_def)
  show "mhas (ShardAssignments st) e \<Longrightarrow> mhas (ExecutorMetadata st) e \<and> CHR ''/'' \<notin> set e"
    using ok by (simp add: light_ok_def st)
  show "mget (ShardAssignments st) e = stored_assignment K pre ns (et_kvs db) e" if "CHR ''/'' \<notin> set e"
    using light_assignment [OF parse distinct_range_prefix [OF assms(2)] that]
      find_range_prefix [OF assms(2) assigned_key_prefix, of pre ns e]
    by (auto simp: st stored_assignment_def split: option.splits)
qed (use assms in \<open>auto simp: drained_stored namespace_snapshot_def split: sum.splits\<close>)

lemma holds_shard_stored:
  assumes "namespace_snapshot K pre ns db = Inr st" "wf_map (et_kvs db)" "json_parse K (Bytes K []) = Inl je"
  shows "holds_shard st e s \<longleftrightarrow> CHR ''/'' \<notin> set e \<and>
    (\<exists>a. decode_assigned K (value_of (Bytes K []) (et_kvs db) (assigned_key pre ns e)) 0 = Some a \<and> mhas (AssignedShards a) s)"
proof -
  have nil: "decode_assigned K (Bytes K []) r = None" for r
    using assms(3) by (simp add: decode_assigned_def DecompressAndUnmarshal_def Decompress_def bind_result_def)
  have shards: "(\<exists>a. decode_assigned K v r = Some a \<and> mhas (AssignedShards a) s)
      = (\<exists>a. decode_assigned K v 0 = Some a \<and> mhas (AssignedShards a) s)" for v r
    by (auto simp: decode_assigned_def ToAssignedState_def split: sum.splits)
  show ?thesis
  proof (cases "CHR ''/'' \<in> set e")
    case True
    then show ?thesis using snapshot_facts(3) [OF assms(1,2), of e] by (auto simp: holds_shard_def mhas_def)
  next
    case False
    then show ?thesis
      using snapshot_facts(4) [OF assms(1,2) False] nil shards
      by (auto simp: holds_shard_def stored_assignment_def value_of_def split: option.splits)
  qed
qed

lemma same_snapshot:
  assumes "same_watched (Bytes K []) pre ns (et_kvs db) (et_kvs db')" "json_parse K (Bytes K []) = Inl je"
    and "namespace_snapshot K pre ns db = Inr st" "wf_map (et_kvs db)"
    and "namespace_snapshot K pre ns db' = Inr st'" "wf_map (et_kvs db')"
  shows "set (DrainedShards st) = set (DrainedShards st')" "holds_shard st e s = holds_shard st' e s"
proof -
  have "watched_executor_key pre ns (assigned_key pre ns e)" if "CHR ''/'' \<notin> set e"
  proof -
    have "ParseExecutorKey pre ns (assigned_key pre ns e) = Inr (e, ExecutorAssignedStateKey)"
      using that by (simp add: ParseExecutorKey_iff assigned_key_def)
    then show ?thesis using assigned_key_prefix [of pre ns e] by (simp add: watched_executor_key_def)
  qed
  then have "CHR ''/'' \<notin> set e \<Longrightarrow> value_of (Bytes K []) (et_kvs db) (assigned_key pre ns e)
      = value_of (Bytes K []) (et_kvs db') (assigned_key pre ns e)"
    using assms(1) by (simp add: same_watched_def)
  then show "holds_shard st e s = holds_shard st' e s"
    unfolding holds_shard_stored [OF assms(3,4,2)] holds_shard_stored [OF assms(5,6,2)] by auto
  have "mhas (et_kvs db) (BuildDrainedShardKey pre ns x) = mhas (et_kvs db') (BuildDrainedShardKey pre ns x)"
    if "x \<noteq> []" "CHR ''/'' \<notin> set x" for x
  proof -
    have "ParseDrainedShardKey pre ns (BuildDrainedShardKey pre ns x) = Inr x"
      using that by (simp add: ParseDrainedShardKey_iff)
    moreover have "\<not> prefix (BuildExecutorsPrefix pre ns) (BuildDrainedShardKey pre ns x)"
      by (simp add: BuildDrainedShardKey_def BuildDrainedShardsPrefix_def BuildExecutorsPrefix_def)
    moreover have "prefix (BuildDrainedShardsPrefix pre ns) (BuildDrainedShardKey pre ns x)"
      by (simp add: BuildDrainedShardKey_def)
    ultimately have "watched_drained_key pre ns (BuildDrainedShardKey pre ns x)"
      by (simp add: watched_drained_key_def)
    then show ?thesis using assms(1) by (simp add: same_watched_def)
  qed
  then show "set (DrainedShards st) = set (DrainedShards st')"
    using snapshot_facts(5) [OF assms(3,4)] snapshot_facts(5) [OF assms(5,6)] by auto
qed

section \<open>The watch and the cache together\<close>

datatype watch_phase = WatchDown | WatchOpen | WatchUp

datatype 'v loop_phase = Waiting | Refreshing | HasRead "'v etcd"

text \<open>
  The state: etcd, the watch with the responses it has not processed yet, the slot of the signal
  channel, the refresh loop and whether its last refresh failed, the refreshes of other callers
  between their read and their update, and the cache. \<open>w_changed\<close> is the revision of the last
  reported write; no step reads it.
\<close>

record 'v watch_state =
  w_db :: "'v etcd"
  w_watch :: watch_phase
  w_events :: "'v WatchEvent list list"
  w_signal :: bool
  w_loop :: "'v loop_phase"
  w_failed :: bool
  w_flights :: "'v etcd list"
  w_cache :: shardCache
  w_changed :: int

definition watch_init :: "'v etcd \<Rightarrow> 'v watch_state" where
  "watch_init db = \<lparr>w_db = db, w_watch = WatchDown, w_events = [], w_signal = False, w_loop = Waiting,
     w_failed = False, w_flights = [], w_cache = newShardCache, w_changed = et_revision db\<rparr>"

text \<open>A read of the state \<open>db\<close>: its snapshot, or an error.\<close>

definition reads_from :: "'v Codec \<Rightarrow> string \<Rightarrow> string \<Rightarrow> 'v etcd \<Rightarrow> store_read \<Rightarrow> bool" where
  "reads_from K pre ns db rd \<longleftrightarrow> is_order (executor_order rd) \<and> (\<forall>e. is_order (shard_order rd e))
     \<and> (read_result rd = namespace_snapshot K pre ns db \<or> (\<exists>e. read_result rd = Inl e))"

text \<open>The steps the service makes when its reads succeed and its watch is not interrupted.\<close>

inductive service_step :: "'v Codec \<Rightarrow> string \<Rightarrow> string \<Rightarrow> 'v watch_state \<Rightarrow> 'v watch_state \<Rightarrow> bool"
  for K pre ns where
  watch_open: "w_watch \<sigma> = WatchDown \<Longrightarrow> service_step K pre ns \<sigma> (\<sigma>\<lparr>w_watch := WatchOpen, w_events := []\<rparr>)"
| watch_announce: "w_watch \<sigma> = WatchOpen \<Longrightarrow>
    service_step K pre ns \<sigma> (\<sigma>\<lparr>w_watch := WatchUp, w_signal := signalNamespaceChange (w_signal \<sigma>)\<rparr>)"
| watch_response: "w_watch \<sigma> = WatchUp \<Longrightarrow> w_events \<sigma> = events # rest \<Longrightarrow>
    service_step K pre ns \<sigma> (\<sigma>\<lparr>w_events := rest,
      w_signal := (if hasNamespaceStateChanged pre ns events then signalNamespaceChange (w_signal \<sigma>) else w_signal \<sigma>)\<rparr>)"
| loop_signalled: "w_loop \<sigma> = Waiting \<Longrightarrow> w_signal \<sigma> \<Longrightarrow>
    service_step K pre ns \<sigma> (\<sigma>\<lparr>w_loop := Refreshing, w_signal := False, w_failed := False\<rparr>)"
| loop_retry: "w_loop \<sigma> = Waiting \<Longrightarrow> w_failed \<sigma> \<Longrightarrow>
    service_step K pre ns \<sigma> (\<sigma>\<lparr>w_loop := Refreshing, w_failed := False\<rparr>)"
| loop_read: "w_loop \<sigma> = Refreshing \<Longrightarrow> service_step K pre ns \<sigma> (\<sigma>\<lparr>w_loop := HasRead (w_db \<sigma>)\<rparr>)"
| loop_refresh: "w_loop \<sigma> = HasRead db \<Longrightarrow> reads_from K pre ns db rd \<Longrightarrow>
    read_result rd = namespace_snapshot K pre ns db \<Longrightarrow> refresh rd (w_cache \<sigma>) = (err, c) \<Longrightarrow>
    service_step K pre ns \<sigma> (\<sigma>\<lparr>w_loop := Waiting, w_failed := (err \<noteq> None), w_cache := c\<rparr>)"

text \<open>
  The steps of everything else: a write to etcd with the events it causes, the loss of the watch,
  the reconcile timer, a read that fails, and the refreshes of cache misses.
\<close>

inductive other_step :: "'v Codec \<Rightarrow> string \<Rightarrow> string \<Rightarrow> 'v watch_state \<Rightarrow> 'v watch_state \<Rightarrow> bool"
  for K pre ns where
  etcd_write: "et_revision db' = et_revision (w_db \<sigma>) + 1 \<Longrightarrow> wf_map (et_kvs db') \<Longrightarrow>
    delivers (Bytes K []) (BuildNamespacePrefix pre ns) (et_kvs (w_db \<sigma>)) (et_kvs db') events \<Longrightarrow>
    other_step K pre ns \<sigma> (\<sigma>\<lparr>w_db := db',
      w_events := (if w_watch \<sigma> = WatchDown then w_events \<sigma> else w_events \<sigma> @ [events]),
      w_changed := (if hasNamespaceStateChanged pre ns events then et_revision db' else w_changed \<sigma>)\<rparr>)"
| watch_lost: "w_watch \<sigma> \<noteq> WatchDown \<Longrightarrow> other_step K pre ns \<sigma> (\<sigma>\<lparr>w_watch := WatchDown, w_events := []\<rparr>)"
| reconcile: "w_loop \<sigma> = Waiting \<Longrightarrow> other_step K pre ns \<sigma> (\<sigma>\<lparr>w_loop := Refreshing, w_failed := False\<rparr>)"
| failed_refresh: "w_loop \<sigma> = HasRead db \<Longrightarrow> reads_from K pre ns db rd \<Longrightarrow> read_result rd = Inl e \<Longrightarrow>
    refresh rd (w_cache \<sigma>) = (err, c) \<Longrightarrow>
    other_step K pre ns \<sigma> (\<sigma>\<lparr>w_loop := Waiting, w_failed := (err \<noteq> None), w_cache := c\<rparr>)"
| miss_read: "other_step K pre ns \<sigma> (\<sigma>\<lparr>w_flights := w_db \<sigma> # w_flights \<sigma>\<rparr>)"
| miss_refresh: "db \<in> set (w_flights \<sigma>) \<Longrightarrow> reads_from K pre ns db rd \<Longrightarrow> refresh rd (w_cache \<sigma>) = (err, c) \<Longrightarrow>
    other_step K pre ns \<sigma> (\<sigma>\<lparr>w_flights := remove1 db (w_flights \<sigma>), w_cache := c\<rparr>)"

inductive watch_run :: "'v Codec \<Rightarrow> string \<Rightarrow> string \<Rightarrow> 'v watch_state \<Rightarrow> bool" for K pre ns where
  start: "wf_map (et_kvs db) \<Longrightarrow> 0 < et_revision db \<Longrightarrow> watch_run K pre ns (watch_init db)"
| by_service: "watch_run K pre ns \<sigma> \<Longrightarrow> service_step K pre ns \<sigma> \<sigma>' \<Longrightarrow> watch_run K pre ns \<sigma>'"
| by_other: "watch_run K pre ns \<sigma> \<Longrightarrow> other_step K pre ns \<sigma> \<sigma>' \<Longrightarrow> watch_run K pre ns \<sigma>'"

inductive_cases service_stepE: "service_step K pre ns \<sigma> \<sigma>'"
inductive_cases other_stepE: "other_step K pre ns \<sigma> \<sigma>'"

subsection \<open>The invariant\<close>

text \<open>A state read earlier: not newer than the present one, and equal in what is watched unless a
  reported write came later.\<close>

definition earlier :: "'v Codec \<Rightarrow> string \<Rightarrow> string \<Rightarrow> 'v watch_state \<Rightarrow> 'v etcd \<Rightarrow> bool" where
  "earlier K pre ns \<sigma> db \<longleftrightarrow> wf_map (et_kvs db) \<and> 0 < et_revision db \<and> et_revision db \<le> et_revision (w_db \<sigma>)
     \<and> (w_changed \<sigma> \<le> et_revision db \<longrightarrow> same_watched (Bytes K []) pre ns (et_kvs db) (et_kvs (w_db \<sigma>)))"

text \<open>Something is left to do: a refresh is due, under way or will be signalled.\<close>

definition owed :: "string \<Rightarrow> string \<Rightarrow> 'v watch_state \<Rightarrow> bool" where
  "owed pre ns \<sigma> \<longleftrightarrow> w_watch \<sigma> \<noteq> WatchUp \<or> w_signal \<sigma> \<or> w_failed \<sigma> \<and> w_loop \<sigma> = Waiting \<or> w_loop \<sigma> = Refreshing
     \<or> (\<exists>db. w_loop \<sigma> = HasRead db \<and> w_changed \<sigma> \<le> et_revision db)
     \<or> (\<exists>events \<in> set (w_events \<sigma>). hasNamespaceStateChanged pre ns events)"

definition watch_inv :: "'v Codec \<Rightarrow> string \<Rightarrow> string \<Rightarrow> 'v watch_state \<Rightarrow> bool" where
  "watch_inv K pre ns \<sigma> \<longleftrightarrow>
     earlier K pre ns \<sigma> (w_db \<sigma>) \<and> 0 < w_changed \<sigma> \<and> w_changed \<sigma> \<le> et_revision (w_db \<sigma>)
     \<and> (\<forall>db. w_loop \<sigma> = HasRead db \<longrightarrow> earlier K pre ns \<sigma> db) \<and> (\<forall>db \<in> set (w_flights \<sigma>). earlier K pre ns \<sigma> db)
     \<and> (lastRevision (w_cache \<sigma>) = 0
        \<or> (\<exists>db st. earlier K pre ns \<sigma> db \<and> namespace_snapshot K pre ns db = Inr st \<and> cache_shows st (w_cache \<sigma>)))
     \<and> (w_changed \<sigma> \<le> lastRevision (w_cache \<sigma>) \<or> owed pre ns \<sigma>)"

definition shows_earlier :: "'v Codec \<Rightarrow> string \<Rightarrow> string \<Rightarrow> 'v watch_state \<Rightarrow> shardCache \<Rightarrow> bool" where
  "shows_earlier K pre ns \<sigma> c \<longleftrightarrow> lastRevision c = 0
     \<or> (\<exists>db st. earlier K pre ns \<sigma> db \<and> namespace_snapshot K pre ns db = Inr st \<and> cache_shows st c)"

lemma reads_good:
  assumes "reads_from K pre ns db rd" "wf_map (et_kvs db)" "0 < et_revision db"
  shows "good_read rd"
  using assms snapshot_facts(1,2) [of K pre ns db]
  by (auto simp: reads_from_def good_read_def)

lemma refresh_earlier:
  assumes "reads_from K pre ns db rd" "earlier K pre ns \<sigma> db" "refresh rd c = (err, c')" "shows_earlier K pre ns \<sigma> c"
  shows "shows_earlier K pre ns \<sigma> c'" "lastRevision c \<le> lastRevision c'"
    and "err = None \<Longrightarrow> et_revision db \<le> lastRevision c'"
    and "err = None \<longleftrightarrow> (\<exists>st. read_result rd = Inr st)"
proof -
  have good: "good_read rd" using reads_good assms(1,2) by (auto simp: earlier_def)
  have snap: "namespace_snapshot K pre ns db = Inr st \<and> Revision st = et_revision db" if "read_result rd = Inr st" for st
  proof -
    have s: "namespace_snapshot K pre ns db = Inr st" using assms(1) that by (auto simp: reads_from_def)
    have "wf_map (et_kvs db)" using assms(2) by (simp add: earlier_def)
    then show ?thesis using s snapshot_facts(2) [OF s] by simp
  qed
  from good have "shows_earlier K pre ns \<sigma> c' \<and> lastRevision c \<le> lastRevision c'
      \<and> (err = None \<longrightarrow> et_revision db \<le> lastRevision c') \<and> (err = None \<longleftrightarrow> (\<exists>st. read_result rd = Inr st))"
  proof (cases rule: refresh_cases [where c = c])
    case (failed e)
    then show ?thesis using assms(3,4) by auto
  next
    case (stale st)
    then show ?thesis using assms(3,4) snap by simp
  next
    case (newer st)
    then have "cache_shows st c'" "err = None" "lastRevision c' = Revision st" using assms(3) by (simp_all add: cache_shows_def)
    then show ?thesis using newer(1,2) snap [OF newer(1)] assms(2) unfolding shows_earlier_def by auto
  qed
  then show "shows_earlier K pre ns \<sigma> c'" "lastRevision c \<le> lastRevision c'"
    "err = None \<Longrightarrow> et_revision db \<le> lastRevision c'" "err = None \<longleftrightarrow> (\<exists>st. read_result rd = Inr st)" by auto
qed

lemma watch_inv_shows:
  "watch_inv K pre ns \<sigma> \<longleftrightarrow>
     earlier K pre ns \<sigma> (w_db \<sigma>) \<and> 0 < w_changed \<sigma> \<and> w_changed \<sigma> \<le> et_revision (w_db \<sigma>)
     \<and> (\<forall>db. w_loop \<sigma> = HasRead db \<longrightarrow> earlier K pre ns \<sigma> db) \<and> (\<forall>db \<in> set (w_flights \<sigma>). earlier K pre ns \<sigma> db)
     \<and> shows_earlier K pre ns \<sigma> (w_cache \<sigma>) \<and> (w_changed \<sigma> \<le> lastRevision (w_cache \<sigma>) \<or> owed pre ns \<sigma>)"
  by (simp add: watch_inv_def shows_earlier_def)

text \<open>Only a write changes what counts as an earlier state.\<close>

lemma earlier_cong:
  "w_db \<sigma>' = w_db \<sigma> \<Longrightarrow> w_changed \<sigma>' = w_changed \<sigma> \<Longrightarrow> earlier K pre ns \<sigma>' = earlier K pre ns \<sigma>
     \<and> shows_earlier K pre ns \<sigma>' = shows_earlier K pre ns \<sigma>"
  by (auto simp: earlier_def shows_earlier_def fun_eq_iff)

lemma earlier_write:
  assumes "earlier K pre ns \<sigma> db" "et_revision db' = et_revision (w_db \<sigma>) + 1"
    and "delivers (Bytes K []) (BuildNamespacePrefix pre ns) (et_kvs (w_db \<sigma>)) (et_kvs db') events"
    and "w_db \<sigma>' = db'" "w_changed \<sigma>' = (if hasNamespaceStateChanged pre ns events then et_revision db' else w_changed \<sigma>)"
  shows "earlier K pre ns \<sigma>' db"
  using assms unreported_same [OF assms(3)] same_watched_trans unfolding earlier_def by (auto split: if_splits)

lemma watch_inv_frame:
  assumes "watch_inv K pre ns \<sigma>" "w_db \<sigma>' = w_db \<sigma>" "w_changed \<sigma>' = w_changed \<sigma>"
    and "w_flights \<sigma>' = w_flights \<sigma>" "w_cache \<sigma>' = w_cache \<sigma>"
    and "\<And>db. w_loop \<sigma>' = HasRead db \<Longrightarrow> w_loop \<sigma> = HasRead db \<or> db = w_db \<sigma>"
    and "w_changed \<sigma> \<le> et_revision (w_db \<sigma>) \<Longrightarrow> owed pre ns \<sigma> \<Longrightarrow> owed pre ns \<sigma>'"
  shows "watch_inv K pre ns \<sigma>'"
proof -
  have cong: "earlier K pre ns \<sigma>' = earlier K pre ns \<sigma>" "shows_earlier K pre ns \<sigma>' = shows_earlier K pre ns \<sigma>"
    using earlier_cong [of \<sigma>' \<sigma>] assms(2,3) by simp_all
  show ?thesis
    using assms unfolding watch_inv_shows cong by auto
qed

lemma watch_inv_service: "service_step K pre ns \<sigma> \<sigma>' \<Longrightarrow> watch_inv K pre ns \<sigma> \<Longrightarrow> watch_inv K pre ns \<sigma>'"
proof (induction rule: service_step.induct)
  case (loop_refresh \<sigma> db rd err c)
  note inv = loop_refresh.prems [unfolded watch_inv_shows]
  have db: "earlier K pre ns \<sigma> db" using inv loop_refresh.hyps(1) by blast
  note r = refresh_earlier [OF loop_refresh.hyps(2) db loop_refresh.hyps(4)]
  let ?\<sigma> = "\<sigma>\<lparr>w_loop := Waiting, w_failed := err \<noteq> None, w_cache := c\<rparr>"
  have cong: "earlier K pre ns ?\<sigma> = earlier K pre ns \<sigma>" "shows_earlier K pre ns ?\<sigma> = shows_earlier K pre ns \<sigma>"
    using earlier_cong [of ?\<sigma> \<sigma>] by simp_all
  show ?case
    unfolding watch_inv_shows cong using inv r loop_refresh.hyps(1)
    by (cases "err = None") (auto simp: owed_def)
qed (rule watch_inv_frame, assumption, auto simp: owed_def signalNamespaceChange_def)+

lemma watch_inv_other: "other_step K pre ns \<sigma> \<sigma>' \<Longrightarrow> watch_inv K pre ns \<sigma> \<Longrightarrow> watch_inv K pre ns \<sigma>'"
proof (induction rule: other_step.induct)
  case (etcd_write db' \<sigma> events)
  let ?\<sigma> = "\<sigma>\<lparr>w_db := db', w_events := (if w_watch \<sigma> = WatchDown then w_events \<sigma> else w_events \<sigma> @ [events]),
      w_changed := (if hasNamespaceStateChanged pre ns events then et_revision db' else w_changed \<sigma>)\<rparr>"
  note inv = etcd_write.prems [unfolded watch_inv_shows]
  have step: "earlier K pre ns ?\<sigma> db" if "earlier K pre ns \<sigma> db" for db
    by (rule earlier_write [OF that etcd_write.hyps(1,3)]) simp_all
  then have "shows_earlier K pre ns ?\<sigma> (w_cache \<sigma>)" using inv unfolding shows_earlier_def by blast
  moreover have "earlier K pre ns ?\<sigma> db'" "0 < w_changed ?\<sigma>" "w_changed ?\<sigma> \<le> et_revision db'"
    using inv etcd_write.hyps(1,2) by (auto simp: earlier_def)
  moreover have "w_changed ?\<sigma> \<le> lastRevision (w_cache \<sigma>) \<or> owed pre ns ?\<sigma>"
  proof (cases "hasNamespaceStateChanged pre ns events")
    case True
    then show ?thesis by (simp add: owed_def)
  next
    case False
    then show ?thesis using inv by (auto simp: owed_def)
  qed
  ultimately show ?case using inv step unfolding watch_inv_shows by simp
next
  case (failed_refresh \<sigma> db rd e err c)
  note inv = failed_refresh.prems [unfolded watch_inv_shows]
  have db: "earlier K pre ns \<sigma> db" using inv failed_refresh.hyps(1) by blast
  note r = refresh_earlier [OF failed_refresh.hyps(2) db failed_refresh.hyps(4)]
  let ?\<sigma> = "\<sigma>\<lparr>w_loop := Waiting, w_failed := err \<noteq> None, w_cache := c\<rparr>"
  have cong: "earlier K pre ns ?\<sigma> = earlier K pre ns \<sigma>" "shows_earlier K pre ns ?\<sigma> = shows_earlier K pre ns \<sigma>"
    using earlier_cong [of ?\<sigma> \<sigma>] by simp_all
  have "err \<noteq> None" using r(4) inv failed_refresh.hyps(3) by auto
  then show ?case
    unfolding watch_inv_shows cong using inv r failed_refresh.hyps(1) by (auto simp: owed_def)
next
  case (miss_refresh db \<sigma> rd err c)
  note inv = miss_refresh.prems [unfolded watch_inv_shows]
  have db: "earlier K pre ns \<sigma> db" using inv miss_refresh.hyps(1) by blast
  note r = refresh_earlier [OF miss_refresh.hyps(2) db miss_refresh.hyps(3)]
  let ?\<sigma> = "\<sigma>\<lparr>w_flights := remove1 db (w_flights \<sigma>), w_cache := c\<rparr>"
  have cong: "earlier K pre ns ?\<sigma> = earlier K pre ns \<sigma>" "shows_earlier K pre ns ?\<sigma> = shows_earlier K pre ns \<sigma>"
    using earlier_cong [of ?\<sigma> \<sigma>] by simp_all
  have "owed pre ns ?\<sigma> = owed pre ns \<sigma>" by (simp add: owed_def)
  then show ?case
    unfolding watch_inv_shows cong using inv r by (auto dest: notin_set_remove1)
qed (auto simp: watch_inv_shows owed_def earlier_def shows_earlier_def)

lemma watch_inv_run: "watch_run K pre ns \<sigma> \<Longrightarrow> watch_inv K pre ns \<sigma>"
proof (induction rule: watch_run.induct)
  case (start db)
  then show ?case
    by (simp add: watch_inv_shows watch_init_def earlier_def shows_earlier_def owed_def newShardCache_def)
qed (blast intro: watch_inv_service watch_inv_other)+

subsection \<open>Convergence\<close>

text \<open>Every step of the service uses up some of the work that is left.\<close>

definition loop_work :: "'v Codec \<Rightarrow> string \<Rightarrow> string \<Rightarrow> 'v loop_phase \<Rightarrow> nat" where
  "loop_work K pre ns l = (case l of Waiting \<Rightarrow> 0 | Refreshing \<Rightarrow> 2
     | HasRead db \<Rightarrow> (case namespace_snapshot K pre ns db of Inl _ \<Rightarrow> 4 | Inr _ \<Rightarrow> 1))"

definition watch_work :: "'v Codec \<Rightarrow> string \<Rightarrow> string \<Rightarrow> 'v watch_state \<Rightarrow> nat" where
  "watch_work K pre ns \<sigma> =
     (case w_watch \<sigma> of WatchDown \<Rightarrow> 5 | WatchOpen \<Rightarrow> 4 | WatchUp \<Rightarrow> 0) + 4 * length (w_events \<sigma>)
     + (if w_signal \<sigma> then 3 else 0) + (if w_failed \<sigma> then 3 else 0) + loop_work K pre ns (w_loop \<sigma>)"

lemma service_step_db: "service_step K pre ns \<sigma> \<sigma>' \<Longrightarrow> w_db \<sigma>' = w_db \<sigma>"
  by (induction rule: service_step.induct) simp_all

lemma refresh_None: "read_result rd = Inr st \<Longrightarrow> fst (refresh rd c) = None"
  by (simp add: refresh_def refreshNamespaceState_def split: prod.splits)

lemma service_step_work:
  "service_step K pre ns \<sigma> \<sigma>' \<Longrightarrow> namespace_snapshot K pre ns (w_db \<sigma>) = Inr st \<Longrightarrow>
     watch_work K pre ns \<sigma>' < watch_work K pre ns \<sigma>"
proof (induction rule: service_step.induct)
  case (loop_refresh \<sigma> db rd err c)
  show ?case
  proof (cases "namespace_snapshot K pre ns db")
    case (Inr st')
    then have "err = None" using loop_refresh.hyps(3,4) refresh_None by (metis fst_conv)
    then show ?thesis using loop_refresh.hyps(1) Inr by (simp add: watch_work_def loop_work_def)
  qed (use loop_refresh.hyps(1) in \<open>simp add: watch_work_def loop_work_def\<close>)
qed (auto simp: watch_work_def loop_work_def signalNamespaceChange_def)

definition watch_quiet :: "'v Codec \<Rightarrow> string \<Rightarrow> string \<Rightarrow> 'v watch_state \<Rightarrow> bool" where
  "watch_quiet K pre ns \<sigma> \<longleftrightarrow> (\<nexists>\<sigma>'. service_step K pre ns \<sigma> \<sigma>')"

lemma watch_quiet_iff:
  "watch_quiet K pre ns \<sigma> \<Longrightarrow> w_watch \<sigma> = WatchUp \<and> w_events \<sigma> = [] \<and> \<not> w_signal \<sigma> \<and> \<not> w_failed \<sigma> \<and> w_loop \<sigma> = Waiting"
proof -
  assume q: "watch_quiet K pre ns \<sigma>"
  have up: "w_watch \<sigma> = WatchUp"
    using q watch_open watch_announce unfolding watch_quiet_def by (cases "w_watch \<sigma>") blast+
  moreover have "w_events \<sigma> = []"
    using q watch_response [OF up] unfolding watch_quiet_def by (cases "w_events \<sigma>") blast+
  moreover have "w_loop \<sigma> = Waiting"
  proof (cases "w_loop \<sigma>")
    case Refreshing
    then show ?thesis using q loop_read unfolding watch_quiet_def by blast
  next
    case (HasRead db)
    let ?rd = "\<lparr>read_result = namespace_snapshot K pre ns db, executor_order = (\<lambda>xs. xs), shard_order = (\<lambda>_ xs. xs)\<rparr>"
    have "reads_from K pre ns db ?rd" by (simp add: reads_from_def is_order_def)
    from loop_refresh [OF HasRead this] have "\<exists>\<sigma>'. service_step K pre ns \<sigma> \<sigma>'"
      by (metis prod.collapse store_read.select_convs(1))
    then show ?thesis using q by (simp add: watch_quiet_def)
  qed simp
  moreover have "\<not> w_signal \<sigma>" "\<not> w_failed \<sigma>"
    using q loop_signalled loop_retry calculation(3) unfolding watch_quiet_def by blast+
  ultimately show ?thesis by simp
qed

lemma service_converges:
  "namespace_snapshot K pre ns (w_db \<sigma>) = Inr st \<Longrightarrow>
     \<exists>\<sigma>'. (service_step K pre ns)\<^sup>*\<^sup>* \<sigma> \<sigma>' \<and> watch_quiet K pre ns \<sigma>'"
proof (induction "watch_work K pre ns \<sigma>" arbitrary: \<sigma> rule: less_induct)
  case less
  show ?case
  proof (cases "watch_quiet K pre ns \<sigma>")
    case False
    then obtain \<sigma>\<^sub>1 where step: "service_step K pre ns \<sigma> \<sigma>\<^sub>1" by (auto simp: watch_quiet_def)
    then obtain \<sigma>' where "(service_step K pre ns)\<^sup>*\<^sup>* \<sigma>\<^sub>1 \<sigma>'" "watch_quiet K pre ns \<sigma>'"
      using less service_step_work [OF step less.prems] service_step_db [OF step] by metis
    then show ?thesis using step by (meson converse_rtranclp_into_rtranclp)
  qed blast
qed

lemma service_steps_run:
  "(service_step K pre ns)\<^sup>*\<^sup>* \<sigma> \<sigma>' \<Longrightarrow> watch_run K pre ns \<sigma> \<Longrightarrow> watch_run K pre ns \<sigma>' \<and> w_db \<sigma>' = w_db \<sigma>"
  by (induction rule: rtranclp_induct) (auto intro: by_service simp: service_step_db)

text \<open>The cache answers as the snapshot says: the same drained shards, and an owner exactly for the
  shards that have one.\<close>

definition cache_agrees :: "shardCache \<Rightarrow> AssignmentState \<Rightarrow> bool" where
  "cache_agrees c st \<longleftrightarrow> set (drainedShards c) = set (DrainedShards st)
     \<and> (\<forall>s. case mget (shardToExecutor c) s of None \<Rightarrow> \<not> (\<exists>e. holds_shard st e s)
            | Some owner \<Rightarrow> holds_shard st (so_ExecutorID owner) s)"

lemma quiet_agrees:
  assumes "watch_run K pre ns \<sigma>" "watch_quiet K pre ns \<sigma>" "namespace_snapshot K pre ns (w_db \<sigma>) = Inr st"
    and "json_parse K (Bytes K []) = Inl je"
  shows "cache_agrees (w_cache \<sigma>) st"
proof -
  note inv = watch_inv_run [OF assms(1), unfolded watch_inv_shows]
  have "\<not> owed pre ns \<sigma>" using watch_quiet_iff [OF assms(2)] by (simp add: owed_def)
  then have rev: "w_changed \<sigma> \<le> lastRevision (w_cache \<sigma>)" "lastRevision (w_cache \<sigma>) \<noteq> 0" using inv by auto
  then obtain db st' where db: "earlier K pre ns \<sigma> db" "namespace_snapshot K pre ns db = Inr st'"
      "cache_shows st' (w_cache \<sigma>)"
    using inv unfolding shows_earlier_def by blast
  have wf: "wf_map (et_kvs db)" "wf_map (et_kvs (w_db \<sigma>))" using db(1) inv by (simp_all add: earlier_def)
  have "et_revision db = lastRevision (w_cache \<sigma>)"
    using db(3) snapshot_facts(2) [OF db(2) wf(1)] by (simp add: cache_shows_def)
  then have same: "same_watched (Bytes K []) pre ns (et_kvs db) (et_kvs (w_db \<sigma>))"
    using db(1) rev(1) by (simp add: earlier_def)
  note eq = same_snapshot [OF same assms(4) db(2) wf(1) assms(3) wf(2)]
  have visible: "(\<exists>md. visible_owner st' s e md) = holds_shard st' e s" for e s
    using snapshot_facts(3) [OF db(2) wf(1), of e]
    by (auto simp: visible_owner_def holds_shard_def mhas_def)
  have "holds_shard st' (so_ExecutorID owner) s" if "mget (shardToExecutor (w_cache \<sigma>)) s = Some owner" for s owner
    using db(3) that visible [of s "so_ExecutorID owner"] unfolding cache_shows_def by blast
  then show ?thesis
    using db(3) eq visible unfolding cache_agrees_def cache_shows_def by (auto split: option.splits)
qed



end
