(* ===== verification/Api.thy ===== *)
theory Api
  imports State
begin

text \<open>
  The requests and responses of the service's API, \<open>common/types/sharddistributor.go\<close>. A struct
  behind a pointer that may be nil inside a message is an option; the getters of the source, which
  read a zero value from a nil message, are the selectors. The types that repeat a type of the store
  (\<open>types.HeartbeatState\<close> and others) have a name of their own.
\<close>

section \<open>Shard owners\<close>

record GetShardOwnerRequest =
  gso_ShardKey :: string
  gso_Namespace :: string

record GetShardOwnerResponse =
  gr_Owner :: string
  gr_Namespace :: string
  gr_Metadata :: "(string, string) gomap"

section \<open>State of a namespace\<close>

record ExecutorAssignedShardState =
  eas_ShardKey :: string
  eas_AssignmentStatus :: AssignmentStatus
  eas_AssignedStateModRevision :: int

record NamespaceExecutorState =
  nes_ExecutorID :: string
  nes_Status :: ExecutorStatus
  nes_LastHeartbeat :: gotime
  nes_Metadata :: "(string, string) gomap"
  nes_AssignedShards :: "ExecutorAssignedShardState list"
  nes_HostMetadata :: "HostMetadata option"

record GetNamespaceStateRequest =
  gns_Namespace :: string

record GetNamespaceStateResponse =
  gnr_Namespace :: string
  gnr_Executors :: "NamespaceExecutorState list"

record GetExecutorStateRequest =
  ges_Namespace :: string
  ges_ExecutorID :: string

record GetExecutorStateResponse =
  ger_Namespace :: string
  ger_Executor :: "NamespaceExecutorState option"

record types_HeartbeatState =
  th_LastHeartbeat :: gotime
  th_Status :: ExecutorStatus
  th_ReportedShards :: "(string, ShardStatusReport) gomap"
  th_Metadata :: "(string, string) gomap"

record types_ShardStatistics =
  ts_SmoothedLoad :: float64
  ts_LastUpdateTime :: gotime
  ts_LastMoveTime :: gotime

record types_ShardHandoverStats =
  tho_PreviousExecutorLastHeartbeatTime :: gotime
  tho_HandoverType :: HandoverType

record types_AssignedState =
  ta_AssignedShards :: "(string, ShardAssignment) gomap"
  ta_ShardHandoverStats :: "(string, types_ShardHandoverStats) gomap"
  ta_LastUpdated :: gotime
  ta_ModRevision :: int

record types_DrainedHost =
  td_Hostname :: string
  td_DrainedAt :: gotime
  td_DrainedBy :: string
  td_Reason :: string

record GetFullNamespaceStateRequest =
  gfn_Namespace :: string

record GetFullNamespaceStateResponse =
  gfr_Namespace :: string
  gfr_Executors :: "(string, types_HeartbeatState) gomap"
  gfr_ShardStats :: "(string, types_ShardStatistics) gomap"
  gfr_ShardAssignments :: "(string, types_AssignedState) gomap"
  gfr_DrainedShards :: "string list"
  gfr_DrainedHosts :: "(string, types_DrainedHost) gomap"

section \<open>Administration\<close>

record NamespaceConfig =
  nc_Name :: string
  nc_Type :: string
  nc_Mode :: string
  nc_ShardNum :: int

record ListNamespacesResponse =
  ln_Namespaces :: "NamespaceConfig list"

record ForceResetNamespaceRequest =
  frn_Namespace :: string

record ForceResetNamespaceResponse =
  frr_DeletedKeys :: int

record DrainShardsRequest =
  dsr_Namespace :: string
  dsr_ShardKeys :: "string list"

record UndrainShardsRequest =
  usr_Namespace :: string
  usr_ShardKeys :: "string list"

record UndrainShardsResponse =
  usp_UndrainedShardKeys :: "string list"

record GetDrainedShardsRequest =
  gds_Namespace :: string

record GetDrainedShardsResponse =
  gdr_Namespace :: string
  gdr_ShardKeys :: "string list"

record DrainHostsRequest =
  dhr_Namespace :: string
  dhr_Hosts :: "types_DrainedHost list"

record UndrainHostsRequest =
  uhr_Namespace :: string
  uhr_Hostnames :: "string list"

record UndrainHostsResponse =
  uhp_UndrainedHostnames :: "string list"

record GetDrainedHostsRequest =
  gdh_Namespace :: string

record GetDrainedHostsResponse =
  ghr_Namespace :: string
  ghr_Hosts :: "types_DrainedHost list"

section \<open>Watching a namespace\<close>

record Shard =
  sh_ShardKey :: string

record ExecutorShardAssignment =
  esa_ExecutorID :: string
  esa_AssignedShards :: "Shard list"
  esa_Metadata :: "(string, string) gomap"

record WatchNamespaceStateResponse =
  wns_Executors :: "ExecutorShardAssignment list"
  wns_DrainedShardKeys :: "string list"
  wns_AssignmentRevision :: int

section \<open>Heartbeats\<close>

record ExecutorHeartbeatRequest =
  ehr_Namespace :: string
  ehr_ExecutorID :: string
  ehr_Status :: ExecutorStatus
  ehr_ShardStatusReports :: "(string, ShardStatusReport) gomap"
  ehr_Metadata :: "(string, string) gomap"
  ehr_HostMetadata :: "HostMetadata option"

record ExecutorHeartbeatResponse =
  ehp_ShardAssignments :: "(string, ShardAssignment) gomap"
  ehp_MigrationMode :: MigrationMode

end
