(* ===== verification/EphemeralAssigner.thy ===== *)
theory EphemeralAssigner
  imports LoadBalancer StoreInterface Cache Api
begin

text \<open>
  The assignment of ephemeral shards on demand, \<open>ephemeralassigner/assigner.go\<close>: one attempt reads
  the namespace, keeps the owners it finds, places the rest with the load balancer, writes the
  changed executors in one transaction and looks up the owners' metadata. A version conflict is
  retried.

  \<^item> The store is an instance of the interface, over a database \<open>'db\<close>; the cache is a function that
    looks an executor up, over a state \<open>'c\<close>.
  \<^item> \<open>try_env\<close> holds what an attempt does not determine: the orders of its loops over maps, the
    time, and what other processes do to the database between its read and its write.
\<close>

section \<open>Data\<close>

record ('db, 'g, 'c) Assigner =
  as_namespace :: string
  as_cfg :: Config
  as_storage :: "('db, 'g) Store"
  as_NopGuard :: 'g
  as_GetExecutor :: "string \<Rightarrow> 'c \<Rightarrow> ShardOwner result \<times> 'c"

record 'db try_env =
  owners_order :: order
  merge_order :: order
  fetch_order :: order
  te_now :: gotime
  te_other :: "'db \<Rightarrow> 'db"

section \<open>The steps of an attempt\<close>

definition resolveOwners ::
    "order \<Rightarrow> NamespaceState \<Rightarrow> string list \<Rightarrow> (string, string) gomap \<times> string list \<times> gostrset" where
  "resolveOwners ord state shardKeys =
     (let owners = ShardOwners ord state;
          (executorByShard, toPlace) =
            fold (\<lambda>shardKey (executorByShard, toPlace).
                    if shardKey \<in> set (DrainedShards state) then (executorByShard, toPlace)
                    else (case mget owners shardKey of
                            Some executorID \<Rightarrow> (mput shardKey executorID executorByShard, toPlace)
                          | None \<Rightarrow> (executorByShard, toPlace @ [shardKey])))
              shardKeys ([], [])
      in (executorByShard, toPlace, DrainedShards state))"

definition placementsByExecutor :: "Placement list \<Rightarrow> (string, string list) gomap" where
  "placementsByExecutor placements =
     fold (\<lambda>placement out. mput (pl_ExecutorID placement)
             (slice out (pl_ExecutorID placement) @ [pl_ShardID placement]) out) placements []"

definition addShards :: "gotime \<Rightarrow> string list \<Rightarrow> AssignedState \<Rightarrow> AssignedState" where
  "addShards now shardsForExecutor existing =
     (let newShards = maps_Copy [] (AssignedShards existing);
          newShards = fold (\<lambda>shardKey m. mput shardKey \<lparr>sa_Status = AssignmentStatusREADY\<rparr> m)
                        shardsForExecutor newShards
      in existing\<lparr>AssignedShards := newShards, LastUpdated := now\<rparr>)"

definition mergePlacements ::
    "order \<Rightarrow> NamespaceState \<Rightarrow> Placement list \<Rightarrow> gotime \<Rightarrow> NamespaceState \<times> gostrset" where
  "mergePlacements ord state placements now =
     fold (\<lambda>(executorID, shardsForExecutor) (state, changedExecutors).
             let existing = mzero zero_AssignedState (ShardAssignments state) executorID
             in (state\<lparr>ShardAssignments :=
                         mput executorID (addShards now shardsForExecutor existing) (ShardAssignments state)\<rparr>,
                 List.insert executorID changedExecutors))
       (mrange ord (placementsByExecutor placements)) (state, [])"

text \<open>One lookup per executor; the first failure ends the loop.\<close>

fun fetchExecutorMetadata_loop ::
    "(string \<Rightarrow> 'c \<Rightarrow> ShardOwner result \<times> 'c) \<Rightarrow> string list \<Rightarrow> (string, ShardOwner) gomap \<Rightarrow> 'c
      \<Rightarrow> (string, ShardOwner) gomap result \<times> 'c" where
  "fetchExecutorMetadata_loop getExecutor [] executorOwners c = (Inr executorOwners, c)"
| "fetchExecutorMetadata_loop getExecutor (executorID # executorIDs) executorOwners c =
     (if mhas executorOwners executorID
      then fetchExecutorMetadata_loop getExecutor executorIDs executorOwners c
      else case getExecutor executorID c of
             (Inl e, c) \<Rightarrow> (Inl (InternalServiceError (''get executor '' @ executorID) (Some e)), c)
           | (Inr owner, c) \<Rightarrow>
               fetchExecutorMetadata_loop getExecutor executorIDs (mput executorID owner executorOwners) c)"

definition fetchExecutorMetadata ::
    "(string \<Rightarrow> 'c \<Rightarrow> ShardOwner result \<times> 'c) \<Rightarrow> order \<Rightarrow> (string, string) gomap \<Rightarrow> 'c
      \<Rightarrow> (string, ShardOwner) gomap result \<times> 'c" where
  "fetchExecutorMetadata getExecutor ord executorByShard c =
     fetchExecutorMetadata_loop getExecutor (map snd (mrange ord executorByShard)) [] c"

text \<open>The owner is present: every executor of \<open>executorByShard\<close> was looked up.\<close>

definition buildResults ::
    "string \<Rightarrow> string list \<Rightarrow> (string, string) gomap \<Rightarrow> (string, ShardOwner) gomap
      \<Rightarrow> (string, GetShardOwnerResponse) gomap" where
  "buildResults namespace shardKeys executorByShard executorOwners =
     fold (\<lambda>shardKey results.
             (case mget executorByShard shardKey of
                None \<Rightarrow> results
              | Some executorID \<Rightarrow>
                  let owner = the (mget executorOwners executorID)
                  in mput shardKey \<lparr>gr_Owner = so_ExecutorID owner, gr_Namespace = namespace,
                                   gr_Metadata = so_Metadata owner\<rparr> results))
       shardKeys []"

type_synonym batch_result = "(string, GetShardOwnerResponse) gomap \<times> gostrset"

definition finishBatch ::
    "('db, 'g, 'c) Assigner \<Rightarrow> order \<Rightarrow> string list \<Rightarrow> (string, string) gomap \<Rightarrow> gostrset \<Rightarrow> 'db \<times> 'c
      \<Rightarrow> batch_result result \<times> 'db \<times> 'c" where
  "finishBatch a ord shardKeys executorByShard drained = (\<lambda>(db, c).
     (case fetchExecutorMetadata (as_GetExecutor a) ord executorByShard c of
        (Inl e, c) \<Rightarrow> (Inl e, db, c)
      | (Inr executorOwners, c) \<Rightarrow>
          (Inr (buildResults (as_namespace a) shardKeys executorByShard executorOwners, drained), db, c)))"

definition tryAssignEphemeralBatch ::
    "('db, 'g, 'c) Assigner \<Rightarrow> 'db try_env \<Rightarrow> string list \<Rightarrow> 'db \<times> 'c \<Rightarrow> batch_result result \<times> 'db \<times> 'c" where
  "tryAssignEphemeralBatch a env shardKeys = (\<lambda>(db, c).
     (case GetState (as_storage a) db (as_namespace a) of
        Inl e \<Rightarrow> (Inl (InternalServiceError ''get namespace state'' (Some e)), db, c)
      | Inr state \<Rightarrow>
          (case resolveOwners (owners_order env) state shardKeys of
             (executorByShard, toPlace, drained) \<Rightarrow>
               if toPlace = [] then finishBatch a (fetch_order env) shardKeys executorByShard drained (db, c)
               else (case PlanInitialPlacement (as_cfg a) state toPlace of
                       Inl e \<Rightarrow> (Inl (InternalServiceError ''plan initial placement'' (Some e)), db, c)
                     | Inr placements \<Rightarrow>
                         (case mergePlacements (merge_order env) state placements (te_now env) of
                            (state, changedExecutors) \<Rightarrow>
                              (case AssignShards (as_storage a) (te_other env db) (as_namespace a)
                                      \<lparr>NewState = state, ExecutorsToDelete = [], ChangedExecutors = Some changedExecutors\<rparr>
                                      (as_NopGuard a) of
                                 (Inl writeErr, db) \<Rightarrow>
                                   (Inl (if errors_Is writeErr ErrVersionConflict
                                         then Errorf ''assign ephemeral shards'' writeErr
                                         else InternalServiceError ''assign ephemeral shards'' (Some writeErr)), db, c)
                               | (Inr _, db) \<Rightarrow>
                                   finishBatch a (fetch_order env) shardKeys
                                     (fold (\<lambda>placement m. mput (pl_ShardID placement) (pl_ExecutorID placement) m)
                                        placements executorByShard) drained (db, c)))))))"

section \<open>Retrying\<close>

definition versionConflictRetryInitialInterval :: duration where
  "versionConflictRetryInitialInterval = 50 * Millisecond"
definition versionConflictRetryMaxInterval :: duration where "versionConflictRetryMaxInterval = Second"
definition versionConflictRetryMaxAttempts :: int where "versionConflictRetryMaxAttempts = 3"

definition assign_retry :: ThrottleRetry where
  "assign_retry =
     (let retryPolicy = (NewExponentialRetryPolicy versionConflictRetryInitialInterval)
            \<lparr>maximumInterval := versionConflictRetryMaxInterval,
             maximumAttempts := versionConflictRetryMaxAttempts\<rparr>
      in NewThrottleRetry [WithRetryPolicy (Exponential retryPolicy),
           WithRetryableError (\<lambda>e. errors_Is e ErrVersionConflict)])"

text \<open>The operation of the retry loop sets the variables \<open>results\<close> and \<open>drained\<close> in every round.\<close>

definition assign_op ::
    "('db, 'g, 'c) Assigner \<Rightarrow> (nat \<Rightarrow> 'db try_env) \<Rightarrow> string list \<Rightarrow> nat \<Rightarrow> ('db \<times> 'c) \<times> batch_result
      \<Rightarrow> err option \<times> ('db \<times> 'c) \<times> batch_result" where
  "assign_op a env shardKeys k = (\<lambda>(st, _).
     (case tryAssignEphemeralBatch a (env k) shardKeys st of
        (Inl e, st) \<Rightarrow> (Some e, st, ([], []))
      | (Inr res, st) \<Rightarrow> (None, st, res)))"

definition assignEphemeralBatch ::
    "('db, 'g, 'c) Assigner \<Rightarrow> (nat \<Rightarrow> 'db try_env) \<Rightarrow> (('db \<times> 'c) \<times> batch_result) retry_env \<Rightarrow> string list
      \<Rightarrow> 'db \<times> 'c \<Rightarrow> (err option \<times> ('db \<times> 'c) \<times> batch_result) option" where
  "assignEphemeralBatch a env retry shardKeys st =
     Do assign_retry retry (assign_op a env shardKeys) (st, ([], []))"

fun as_ShardDrained :: "err \<Rightarrow> bool" where
  "as_ShardDrained (ShardDrainedError _ _) = True"
| "as_ShardDrained (Errorf _ e) = as_ShardDrained e"
| "as_ShardDrained (JoinError e\<^sub>1 e\<^sub>2) = (as_ShardDrained e\<^sub>1 \<or> as_ShardDrained e\<^sub>2)"
| "as_ShardDrained _ = False"

definition mapAssignError :: "string \<Rightarrow> string \<Rightarrow> err \<Rightarrow> err" where
  "mapAssignError namespace shardKey e =
     (if as_ShardDrained e then e
      else if errors_Is e ErrShardDrained then ShardDrainedError namespace shardKey
      else InternalServiceError ''failed to assign ephemeral shard'' (Some e))"

definition GetOrAssign ::
    "string \<Rightarrow> (string \<Rightarrow> GetShardOwnerResponse result) \<Rightarrow> string \<Rightarrow> GetShardOwnerResponse result" where
  "GetOrAssign namespace Submit shardKey =
     (case Submit shardKey of
        Inl e \<Rightarrow> Inl (mapAssignError namespace shardKey e)
      | Inr resp \<Rightarrow> Inr resp)"

section \<open>What the steps compute\<close>

lemma resolveOwners_spec:
  assumes "resolveOwners ord st keys = (ex, tp, dr)"
  shows "dr = DrainedShards st"
    and "mget ex k = (if k \<in> set keys \<and> k \<notin> set (DrainedShards st) then mget (ShardOwners ord st) k else None)"
    and "k \<in> set tp \<longleftrightarrow> k \<in> set keys \<and> k \<notin> set (DrainedShards st) \<and> mget (ShardOwners ord st) k = None"
proof -
  let ?f = "\<lambda>shardKey (executorByShard, toPlace).
      if shardKey \<in> set (DrainedShards st) then (executorByShard, toPlace)
      else (case mget (ShardOwners ord st) shardKey of
              Some executorID \<Rightarrow> (mput shardKey executorID executorByShard, toPlace)
            | None \<Rightarrow> (executorByShard, toPlace @ [shardKey]))"
  have "mget (fst (fold ?f keys (m, ps))) k =
        (if k \<in> set keys \<and> k \<notin> set (DrainedShards st) \<and> mget (ShardOwners ord st) k \<noteq> None
         then mget (ShardOwners ord st) k else mget m k)
      \<and> (k \<in> set (snd (fold ?f keys (m, ps))) \<longleftrightarrow>
           k \<in> set ps \<or> k \<in> set keys \<and> k \<notin> set (DrainedShards st) \<and> mget (ShardOwners ord st) k = None)" for m ps
    by (induction keys arbitrary: m ps) (auto simp: mget_mput split: option.splits if_splits)
  from this [of "[]" "[]"] show
    "mget ex k = (if k \<in> set keys \<and> k \<notin> set (DrainedShards st) then mget (ShardOwners ord st) k else None)"
    "k \<in> set tp \<longleftrightarrow> k \<in> set keys \<and> k \<notin> set (DrainedShards st) \<and> mget (ShardOwners ord st) k = None"
    using assms by (auto simp: resolveOwners_def Let_def split: prod.splits)
  show "dr = DrainedShards st"
    using assms by (auto simp: resolveOwners_def Let_def split: prod.splits)
qed

lemma placementsByExecutor_spec:
  "wf_map (placementsByExecutor ps)"
  "mget (placementsByExecutor ps) e =
     (if e \<in> pl_ExecutorID ` set ps then Some (map pl_ShardID (filter (\<lambda>p. pl_ExecutorID p = e) ps)) else None)"
proof -
  have "wf_map (placementsByExecutor ps) \<and> mget (placementsByExecutor ps) e =
     (if e \<in> pl_ExecutorID ` set ps then Some (map pl_ShardID (filter (\<lambda>p. pl_ExecutorID p = e) ps)) else None)" for e
    unfolding placementsByExecutor_def
    by (induction ps rule: rev_induct)
       (auto simp: mget_mput mzero_def filter_empty_conv split: option.splits if_splits, metis imageI)
  then show "wf_map (placementsByExecutor ps)"
    "mget (placementsByExecutor ps) e =
     (if e \<in> pl_ExecutorID ` set ps then Some (map pl_ShardID (filter (\<lambda>p. pl_ExecutorID p = e) ps)) else None)"
    by blast+
qed

lemma addShards_has:
  "wf_map (AssignedShards a) \<Longrightarrow> mhas (AssignedShards (addShards now ss a)) s \<longleftrightarrow> mhas (AssignedShards a) s \<or> s \<in> set ss"
  by (simp add: addShards_def maps_Copy_Nil Let_def mhas_def mget_fold_mput)

lemma addShards_wf: "wf_assigned a \<Longrightarrow> wf_assigned (addShards now ss a)"
  by (simp add: addShards_def wf_assigned_def maps_Copy_Nil Let_def wf_fold_mput)

lemma addShards_fields [simp]:
  "ModRevision (addShards now ss a) = ModRevision a" "as_HandoverStats (addShards now ss a) = as_HandoverStats a"
  "LastUpdated (addShards now ss a) = now"
  by (simp_all add: addShards_def Let_def)

lemma fold_merge:
  "wf_map ms \<Longrightarrow>
   fold (\<lambda>(executorID, shardsForExecutor) (state, changedExecutors).
             let existing = mzero zero_AssignedState (ShardAssignments state) executorID
             in (state\<lparr>ShardAssignments :=
                         mput executorID (addShards now shardsForExecutor existing) (ShardAssignments state)\<rparr>,
                 List.insert executorID changedExecutors)) ms (st, ch) = (st', ch') \<Longrightarrow>
   (\<exists>new. st' = st\<lparr>ShardAssignments := new\<rparr> \<and> (wf_map (ShardAssignments st) \<longrightarrow> wf_map new)
     \<and> (\<forall>e. mget new e = (case mget ms e of
         Some ss \<Rightarrow> Some (addShards now ss (mzero zero_AssignedState (ShardAssignments st) e))
       | None \<Rightarrow> mget (ShardAssignments st) e)))
   \<and> set ch' = set ch \<union> set (mkeys ms)"
proof (induction ms arbitrary: st ch)
  case Nil
  then show ?case by (auto intro!: exI [of _ "ShardAssignments st"])
next
  case (Cons p ms)
  obtain e ss where p: "p = (e, ss)" by (cases p)
  let ?old = "mzero zero_AssignedState (ShardAssignments st) e"
  let ?st = "st\<lparr>ShardAssignments := mput e (addShards now ss ?old) (ShardAssignments st)\<rparr>"
  have e: "e \<notin> set (mkeys ms)" "wf_map ms" using Cons.prems(1) by (auto simp: p wf_map_def)
  obtain new where new: "st' = ?st\<lparr>ShardAssignments := new\<rparr>" "wf_map (ShardAssignments ?st) \<longrightarrow> wf_map new"
      "\<forall>e. mget new e = (case mget ms e of
         Some ss \<Rightarrow> Some (addShards now ss (mzero zero_AssignedState (ShardAssignments ?st) e))
       | None \<Rightarrow> mget (ShardAssignments ?st) e)"
    and ch: "set ch' = set (List.insert e ch) \<union> set (mkeys ms)"
    using Cons.IH [OF e(2), of ?st "List.insert e ch"] Cons.prems(2) by (auto simp: p Let_def)
  have "mget ms e = None" using e(1) by (simp add: map_of_eq_None_iff)
  then have "\<forall>e'. mget new e' = (case mget (p # ms) e' of
         Some ss \<Rightarrow> Some (addShards now ss (mzero zero_AssignedState (ShardAssignments st) e'))
       | None \<Rightarrow> mget (ShardAssignments st) e')"
    using new(3) by (auto simp: p mget_mput mzero_def split: option.splits)
  then show ?case
    using new(1,2) ch by (auto simp: p)
qed

lemma mergePlacements_spec:
  assumes "is_order ord" "mergePlacements ord st ps now = (st', changed)"
  obtains new where "st' = st\<lparr>ShardAssignments := new\<rparr>" "wf_map (ShardAssignments st) \<longrightarrow> wf_map new"
    and "\<forall>e. mget new e = (if e \<in> pl_ExecutorID ` set ps
        then Some (addShards now (map pl_ShardID (filter (\<lambda>p. pl_ExecutorID p = e) ps))
                     (mzero zero_AssignedState (ShardAssignments st) e))
        else mget (ShardAssignments st) e)"
    and "set changed = pl_ExecutorID ` set ps"
proof -
  let ?ms = "mrange ord (placementsByExecutor ps)"
  have wf: "wf_map ?ms" by (rule wf_mrange [OF assms(1) placementsByExecutor_spec(1)])
  have get: "mget ?ms = mget (placementsByExecutor ps)"
    by (rule mget_mrange [OF assms(1) placementsByExecutor_spec(1)])
  have keys: "set (mkeys ?ms) = pl_ExecutorID ` set ps"
  proof -
    have "e \<in> set (mkeys ?ms) \<longleftrightarrow> mget ?ms e \<noteq> None" for e by (simp add: map_of_eq_None_iff)
    then show ?thesis unfolding get placementsByExecutor_spec(2) by (auto simp del: set_map split: if_splits)
  qed
  obtain new where new: "st' = st\<lparr>ShardAssignments := new\<rparr>" "wf_map (ShardAssignments st) \<longrightarrow> wf_map new"
      "\<forall>e. mget new e = (case mget ?ms e of
         Some ss \<Rightarrow> Some (addShards now ss (mzero zero_AssignedState (ShardAssignments st) e))
       | None \<Rightarrow> mget (ShardAssignments st) e)" "set changed = pl_ExecutorID ` set ps"
    using fold_merge [OF wf assms(2) [unfolded mergePlacements_def]] unfolding keys by auto
  show ?thesis
    by (rule that [OF new(1,2) _ new(4)]) (use new(3) in \<open>auto simp: get placementsByExecutor_spec(2)\<close>)
qed

section \<open>The effect of a batch on the assignments\<close>

definition assigned_at :: "(string, AssignedState) gomap \<Rightarrow> string \<Rightarrow> string \<Rightarrow> bool" where
  "assigned_at m e s \<longleftrightarrow> (\<exists>a. mget m e = Some a \<and> mhas (AssignedShards a) s)"

lemma single_owner_iff:
  assumes "wf_map m" "\<forall>(e, a) \<in> set m. wf_map (AssignedShards a)"
  shows "single_owner m \<longleftrightarrow> (\<forall>e e' s. assigned_at m e s \<longrightarrow> assigned_at m e' s \<longrightarrow> e = e')"
proof
  assume "single_owner m"
  then show "\<forall>e e' s. assigned_at m e s \<longrightarrow> assigned_at m e' s \<longrightarrow> e = e'"
    using single_owner_unique [OF _ assms(1)] by (fastforce simp: assigned_at_def dest!: map_of_SomeD)
next
  assume uniq: "\<forall>e e' s. assigned_at m e s \<longrightarrow> assigned_at m e' s \<longrightarrow> e = e'"
  have "\<forall>e a e' a' s. (e, a) \<in> set m \<longrightarrow> (e', a') \<in> set m \<longrightarrow> s \<in> set (mkeys (AssignedShards a))
      \<longrightarrow> s \<in> set (mkeys (AssignedShards a')) \<longrightarrow> e = e'"
    using uniq assms(1) unfolding assigned_at_def mget_eq_iff [OF assms(1)] mhas_mkeys by blast
  then show "single_owner m"
    using assms unfolding single_owner_def
  proof (induction m)
    case (Cons p m)
    obtain e a where p: "p = (e, a)" by (cases p)
    have fresh: "e \<notin> fst ` set m" and wfm: "wf_map m" using Cons.prems(2) by (simp_all add: p wf_map_def)
    have no: "s \<notin> set (mkeys (AssignedShards a))" if "(e', a') \<in> set m" "s \<in> set (mkeys (AssignedShards a'))" for s e' a'
    proof
      assume "s \<in> set (mkeys (AssignedShards a))"
      then have "e = e'" using Cons.prems(1) that by (fastforce simp: p simp del: set_map)
      then show False using fresh that(1) by (auto intro: rev_image_eqI)
    qed
    have "x \<notin> set (mkeys (AssignedShards a))" if "x \<in> set (concat (map (\<lambda>(_, a). mkeys (AssignedShards a)) m))" for x
    proof -
      from that obtain q where "q \<in> set m" "x \<in> set (mkeys (AssignedShards (snd q)))"
        by (auto simp: set_concat case_prod_beta)
      then show ?thesis using no [of "fst q" "snd q"] by simp
    qed
    then have disj: "set (mkeys (AssignedShards a)) \<inter> set (concat (map (\<lambda>(_, a). mkeys (AssignedShards a)) m)) = {}"
      by blast
    have "distinct (concat (map (\<lambda>(_, a). mkeys (AssignedShards a)) m))"
      by (rule Cons.IH) (use Cons.prems wfm in \<open>auto simp del: set_map\<close>)
    then show ?case
      using disj Cons.prems(3) by (simp add: p wf_map_def del: set_map set_concat)
  qed simp
qed

lemma ShardOwners_assigned:
  assumes "is_order ord" "wf_state st" "single_owner (ShardAssignments st)"
  shows "mget (ShardOwners ord st) s = Some e \<longleftrightarrow> assigned_at (ShardAssignments st) e s"
    and "mget (ShardOwners ord st) s = None \<longleftrightarrow> \<not> (\<exists>e. assigned_at (ShardAssignments st) e s)"
proof -
  have wf: "wf_map (ShardAssignments st)" "\<forall>(e, a) \<in> set (ShardAssignments st). wf_map (AssignedShards a)"
    using assms(2) wf_state_assigned [OF assms(2)] by (auto simp: wf_stateD)
  note uniq = assms(3) [unfolded single_owner_iff [OF wf]]
  have in_shards: "s \<in># assigned_shards (ShardAssignments st) \<longleftrightarrow> (\<exists>e. assigned_at (ShardAssignments st) e s)"
    unfolding in_assigned_shards assigned_at_def mget_eq_iff [OF wf(1)] by auto
  show none: "mget (ShardOwners ord st) s = None \<longleftrightarrow> \<not> (\<exists>e. assigned_at (ShardAssignments st) e s)"
    unfolding ShardOwners_None [OF assms(1,2)] in_shards by (rule refl)
  have some: "assigned_at (ShardAssignments st) e s" if "mget (ShardOwners ord st) s = Some e" for e
    using ShardOwners_Some [OF assms(1,2) that] by (simp add: assigned_at_def)
  show "mget (ShardOwners ord st) s = Some e \<longleftrightarrow> assigned_at (ShardAssignments st) e s"
  proof
    assume at: "assigned_at (ShardAssignments st) e s"
    then obtain e' where e': "mget (ShardOwners ord st) s = Some e'" using none by (cases "mget (ShardOwners ord st) s") auto
    then show "mget (ShardOwners ord st) s = Some e" using uniq at some [OF e'] by metis
  qed (rule some)
qed

lemma merge_effect:
  assumes "is_order ord" "wf_state st" "mergePlacements ord st ps now = (st', changed)"
  shows "wf_state st'" "Executors st' = Executors st" "DrainedShards st' = DrainedShards st"
    and "assigned_at (ShardAssignments st') e s \<longleftrightarrow>
      assigned_at (ShardAssignments st) e s \<or> (\<exists>p \<in> set ps. pl_ExecutorID p = e \<and> pl_ShardID p = s)"
    and "set changed = pl_ExecutorID ` set ps"
    and "e \<notin> set changed \<Longrightarrow> mget (ShardAssignments st') e = mget (ShardAssignments st) e"
    and "e \<in> set changed \<Longrightarrow> mhas (ShardAssignments st') e"
proof -
  obtain new where st': "st' = st\<lparr>ShardAssignments := new\<rparr>" and wf_new: "wf_map (ShardAssignments st) \<longrightarrow> wf_map new"
    and get_new: "\<forall>e. mget new e = (if e \<in> pl_ExecutorID ` set ps
        then Some (addShards now (map pl_ShardID (filter (\<lambda>p. pl_ExecutorID p = e) ps))
                     (mzero zero_AssignedState (ShardAssignments st) e))
        else mget (ShardAssignments st) e)"
    and changed: "set changed = pl_ExecutorID ` set ps"
    by (rule mergePlacements_spec [OF assms(1,3)])
  note new = get_new [rule_format]
  have wf: "wf_map new" using wf_new wf_stateD(1) [OF assms(2)] by simp
  have old: "wf_assigned (mzero zero_AssignedState (ShardAssignments st) e)" for e
    using assms(2) by (auto simp: mzero_def wf_state_def list_all_iff zero_AssignedState_def wf_assigned_def
        split: option.splits dest!: map_of_SomeD)
  have "wf_assigned a" if "(e, a) \<in> set new" for e a
    using that new [of e] old [of e] assms(2)
    by (auto simp: mget_eq_iff [OF wf, symmetric] wf_state_def list_all_iff split: if_splits
        intro!: addShards_wf dest!: map_of_SomeD)
  then show "wf_state st'"
    using assms(2) wf by (auto simp: st' wf_state_def list_all_iff)
  show "Executors st' = Executors st" "DrainedShards st' = DrainedShards st" by (simp_all add: st')
  show "set changed = pl_ExecutorID ` set ps" by (rule changed)
  show "e \<notin> set changed \<Longrightarrow> mget (ShardAssignments st') e = mget (ShardAssignments st) e"
    "e \<in> set changed \<Longrightarrow> mhas (ShardAssignments st') e"
    by (simp_all add: st' new changed mhas_def)
  show "assigned_at (ShardAssignments st') e s \<longleftrightarrow>
      assigned_at (ShardAssignments st) e s \<or> (\<exists>p \<in> set ps. pl_ExecutorID p = e \<and> pl_ShardID p = s)"
  proof (cases "e \<in> pl_ExecutorID ` set ps")
    case True
    have "wf_map (AssignedShards (mzero zero_AssignedState (ShardAssignments st) e))" using old by (simp add: wf_assigned_def)
    note has = addShards_has [OF this, of now "map pl_ShardID (filter (\<lambda>p. pl_ExecutorID p = e) ps)" s]
    have "mhas (AssignedShards (mzero zero_AssignedState (ShardAssignments st) e)) s \<longleftrightarrow> assigned_at (ShardAssignments st) e s"
      by (auto simp: mzero_def assigned_at_def zero_AssignedState_def mhas_def split: option.splits)
    then show ?thesis
      using True has by (auto simp: assigned_at_def st' new)
  next
    case False
    then show ?thesis by (auto simp: assigned_at_def st' new)
  qed
qed

section \<open>Looking up the owners\<close>

lemma buildResults_get:
  "mget (buildResults ns keys ex owners) k =
     (if k \<in> set keys then map_option (\<lambda>e. let owner = the (mget owners e) in
        \<lparr>gr_Owner = so_ExecutorID owner, gr_Namespace = ns, gr_Metadata = so_Metadata owner\<rparr>) (mget ex k) else None)"
  unfolding buildResults_def
  by (induction keys rule: rev_induct) (auto simp: mget_mput Let_def split: option.splits)

text \<open>What the assigner relies on: a lookup that succeeds answers with the executor it was asked for,
  as long as the state it works on is in order.\<close>

locale executor_lookup =
  fixes get :: "string \<Rightarrow> 'c \<Rightarrow> ShardOwner result \<times> 'c"
    and coherent :: "'c \<Rightarrow> bool"
  assumes lookup_id: "coherent c \<Longrightarrow> get e c = (Inr owner, c') \<Longrightarrow> so_ExecutorID owner = e"
    and lookup_keeps: "coherent c \<Longrightarrow> get e c = (r, c') \<Longrightarrow> coherent c'"
begin

lemma fetch_loop:
  "fetchExecutorMetadata_loop get ids owners c = (Inr owners', c') \<Longrightarrow> coherent c \<Longrightarrow>
   (\<forall>e owner. mget owners e = Some owner \<longrightarrow> so_ExecutorID owner = e) \<Longrightarrow>
   coherent c' \<and> (\<forall>e owner. mget owners' e = Some owner \<longrightarrow> so_ExecutorID owner = e)
   \<and> (\<forall>e. mhas owners' e \<longleftrightarrow> mhas owners e \<or> e \<in> set ids)"
proof (induction ids arbitrary: owners c)
  case (Cons i ids)
  show ?case
  proof (cases "mhas owners i")
    case True
    then have "fetchExecutorMetadata_loop get ids owners c = (Inr owners', c')" using Cons.prems(1) by simp
    from Cons.IH [OF this Cons.prems(2,3)] show ?thesis using True by auto
  next
    case False
    obtain r c\<^sub>1 where g: "get i c = (r, c\<^sub>1)" by (cases "get i c")
    then obtain owner where r: "r = Inr owner" using Cons.prems(1) False by (cases r) auto
    have id: "so_ExecutorID owner = i" and coh: "coherent c\<^sub>1"
      using lookup_id lookup_keeps Cons.prems(2) g r by blast+
    have rest: "fetchExecutorMetadata_loop get ids (mput i owner owners) c\<^sub>1 = (Inr owners', c')"
      using Cons.prems(1) False g r by simp
    have "\<forall>e o'. mget (mput i owner owners) e = Some o' \<longrightarrow> so_ExecutorID o' = e"
      using Cons.prems(3) id by (simp add: mget_mput)
    from Cons.IH [OF rest coh this] show ?thesis by auto
  qed
qed simp

lemma fetch_owners:
  assumes "fetchExecutorMetadata get ord ex c = (Inr owners, c')" "coherent c" "is_order ord" "wf_map ex"
  shows "coherent c'" "mget ex s = Some e \<Longrightarrow> \<exists>owner. mget owners e = Some owner \<and> so_ExecutorID owner = e"
proof -
  have f: "coherent c' \<and> (\<forall>e owner. mget owners e = Some owner \<longrightarrow> so_ExecutorID owner = e)
      \<and> (\<forall>e. mhas owners e \<longleftrightarrow> e \<in> set (map snd (mrange ord ex)))"
    using fetch_loop [OF assms(1) [unfolded fetchExecutorMetadata_def] assms(2)]
    by (simp add: mhas_def del: set_map)
  then show "coherent c'" by simp
  show "\<exists>owner. mget owners e = Some owner \<and> so_ExecutorID owner = e" if "mget ex s = Some e"
  proof -
    have "(s, e) \<in> set (mrange ord ex)" using that set_mrange [OF assms(3,4)] map_of_SomeD by fast
    then have "e \<in> set (map snd (mrange ord ex))" by force
    then have "mhas owners e" using f by blast
    then obtain owner where "mget owners e = Some owner" by (auto simp: mhas_def)
    then show ?thesis using f by blast
  qed
qed

lemma finish_results:
  assumes "finishBatch a ord keys ex dr (db, c) = (Inr (results, dr'), db', c')"
    and "as_GetExecutor a = get" "coherent c" "is_order ord" "wf_map ex"
  shows "dr' = dr" "db' = db" "coherent c'"
    and "k \<in> set keys \<Longrightarrow> mget ex k = Some e \<Longrightarrow> \<exists>r. mget results k = Some r \<and> gr_Owner r = e \<and> gr_Namespace r = as_namespace a"
    and "mget ex k = None \<or> k \<notin> set keys \<Longrightarrow> mget results k = None"
proof -
  obtain r c\<^sub>1 where f: "fetchExecutorMetadata get ord ex c = (r, c\<^sub>1)" by (cases "fetchExecutorMetadata get ord ex c")
  then obtain owners where r: "r = Inr owners"
    using assms(1,2) by (cases r) (auto simp: finishBatch_def)
  have res: "results = buildResults (as_namespace a) keys ex owners" "dr' = dr" "db' = db" "c' = c\<^sub>1"
    using assms(1,2) f r by (auto simp: finishBatch_def)
  show "dr' = dr" "db' = db" by (rule res)+
  note own = fetch_owners [OF f [unfolded r] assms(3-5)]
  show "coherent c'" using own(1) res(4) by simp
  show "\<exists>r. mget results k = Some r \<and> gr_Owner r = e \<and> gr_Namespace r = as_namespace a"
    if "k \<in> set keys" "mget ex k = Some e"
    using own(2) [OF that(2)] that by (auto simp: res(1) buildResults_get)
  show "mget results k = None" if "mget ex k = None \<or> k \<notin> set keys"
    using that by (auto simp: res(1) buildResults_get)
qed

end

definition cache_coherent :: "shardCache \<Rightarrow> bool" where
  "cache_coherent c \<longleftrightarrow> (\<forall>e owner. mget (shardOwners c) e = Some owner \<longrightarrow> so_ExecutorID owner = e)"

definition good_flight :: "flight \<Rightarrow> bool" where
  "good_flight fl = (case fl of FlightResult rd \<Rightarrow> good_read rd | FlightCancelled _ \<Rightarrow> True)"

lemma refresh_coherent:
  assumes "good_read rd" "cache_coherent c"
  shows "cache_coherent (snd (refresh rd c))"
  using assms(1)
proof (cases rule: refresh_cases [where c = c])
  case (newer st)
  then show ?thesis by (auto simp: cache_coherent_def cache_shows_def)
qed (use assms(2) in simp_all)

lemma flight_coherent:
  "good_flight fl \<Longrightarrow> cache_coherent c \<Longrightarrow> cache_coherent (snd (refreshSingleFlight fl c))"
  using refresh_coherent by (auto simp: good_flight_def refreshSingleFlight_def split: flight.splits)

interpretation cache_lookup: executor_lookup
  "\<lambda>e c. if good_flight fl then cache_GetExecutor fl e c else (Inl ErrExecutorNotFound, c)" cache_coherent for fl
proof
  let ?get = "\<lambda>e c. if good_flight fl then cache_GetExecutor fl e c else (Inl ErrExecutorNotFound, c)"
  fix c e r c' owner
  assume coh: "cache_coherent c" 
  have "cache_coherent c' \<and> (r = Inr owner \<longrightarrow> so_ExecutorID owner = e)" if "?get e c = (r, c')" for r owner
  proof (cases "good_flight fl")
    case True
    obtain fe fc where f: "refreshSingleFlight fl c = (fe, fc)" by (cases "refreshSingleFlight fl c")
    then have "cache_coherent fc" using flight_coherent [OF True coh] by simp
    then show ?thesis
      using that coh True f
      by (auto simp: cache_GetExecutor_def getShardOwnerInMap_def cache_coherent_def split: option.splits sum.splits)
  qed (use that coh in auto)
  then show "?get e c = (Inr owner, c') \<Longrightarrow> so_ExecutorID owner = e" "?get e c = (r, c') \<Longrightarrow> cache_coherent c'"
    by blast+
qed

lemma newShardCache_coherent: "cache_coherent newShardCache"
  by (simp add: cache_coherent_def newShardCache_def)

section \<open>Properties\<close>

lemma placed_owner:
  assumes "distinct (map pl_ShardID ps)"
  shows "mget (fold (\<lambda>p m. mput (pl_ShardID p) (pl_ExecutorID p) m) ps m) k =
    (case find (\<lambda>p. pl_ShardID p = k) ps of Some p \<Rightarrow> Some (pl_ExecutorID p) | None \<Rightarrow> mget m k)"
  using assms
proof (induction ps arbitrary: m)
  case (Cons p ps)
  have "find (\<lambda>q. pl_ShardID q = pl_ShardID p) ps = None"
    using Cons.prems by (auto simp: find_None_iff rev_image_eqI)
  then show ?case using Cons by (auto simp: mget_mput split: option.splits)
qed simp

lemma wf_placed: "wf_map m \<Longrightarrow> wf_map (fold (\<lambda>p m. mput (pl_ShardID p) (pl_ExecutorID p) m) ps m)"
  by (induction ps arbitrary: m) simp_all

lemma wf_resolved:
  assumes "resolveOwners ord st keys = (ex, tp, dr)"
  shows "wf_map ex"
proof -
  have "wf_map (fst (fold (\<lambda>shardKey (executorByShard, toPlace).
      if shardKey \<in> set (DrainedShards st) then (executorByShard, toPlace)
      else (case mget (ShardOwners ord st) shardKey of
              Some executorID \<Rightarrow> (mput shardKey executorID executorByShard, toPlace)
            | None \<Rightarrow> (executorByShard, toPlace @ [shardKey]))) keys (m, ps)))" if "wf_map m" for m ps
    using that by (induction keys arbitrary: m ps) (auto split: option.splits)
  from this [of "[]" "[]"] show ?thesis
    using assms by (auto simp: resolveOwners_def Let_def split: prod.splits)
qed

text \<open>The parts of a successful attempt that placed something.\<close>

lemma try_cases:
  assumes "tryAssignEphemeralBatch a env keys (db, c) = (Inr (results, dr), db', c')"
    and "GetState (as_storage a) db (as_namespace a) = Inr st"
    and "resolveOwners (owners_order env) st keys = (ex, tp, dr\<^sub>0)"
  obtains (kept) "tp = []" "finishBatch a (fetch_order env) keys ex dr\<^sub>0 (db, c) = (Inr (results, dr), db', c')"
  | (placed) ps new changed db\<^sub>1 where "tp \<noteq> []" "PlanInitialPlacement (as_cfg a) st tp = Inr ps"
      "mergePlacements (merge_order env) st ps (te_now env) = (new, changed)"
      "AssignShards (as_storage a) (te_other env db) (as_namespace a)
         \<lparr>NewState = new, ExecutorsToDelete = [], ChangedExecutors = Some changed\<rparr> (as_NopGuard a) = (Inr (), db\<^sub>1)"
      "finishBatch a (fetch_order env) keys
         (fold (\<lambda>p m. mput (pl_ShardID p) (pl_ExecutorID p) m) ps ex) dr\<^sub>0 (db\<^sub>1, c) = (Inr (results, dr), db', c')"
proof (cases "tp = []")
  case True
  then show ?thesis using kept assms by (simp add: tryAssignEphemeralBatch_def)
next
  case False
  obtain ps where ps: "PlanInitialPlacement (as_cfg a) st tp = Inr ps"
    using assms False by (cases "PlanInitialPlacement (as_cfg a) st tp") (auto simp: tryAssignEphemeralBatch_def)
  obtain new changed where m: "mergePlacements (merge_order env) st ps (te_now env) = (new, changed)"
    by (cases "mergePlacements (merge_order env) st ps (te_now env)")
  obtain w db\<^sub>1 where w: "AssignShards (as_storage a) (te_other env db) (as_namespace a)
         \<lparr>NewState = new, ExecutorsToDelete = [], ChangedExecutors = Some changed\<rparr> (as_NopGuard a) = (w, db\<^sub>1)"
    by (cases "AssignShards (as_storage a) (te_other env db) (as_namespace a)
         \<lparr>NewState = new, ExecutorsToDelete = [], ChangedExecutors = Some changed\<rparr> (as_NopGuard a)")
  have "w = Inr ()"
    using assms False ps m w by (cases w) (auto simp: tryAssignEphemeralBatch_def)
  then show ?thesis
    using placed [OF False ps m] assms False ps m w by (simp add: tryAssignEphemeralBatch_def)
qed

text \<open>The assignments after a placement: the shards that had no owner get one, all others keep theirs.\<close>

lemma placement_effect:
  assumes "is_order ord" "wf_state st" "single_owner (ShardAssignments st)"
    and "PlanInitialPlacement cfg st tp = Inr ps" "mergePlacements ord st ps now = (new, changed)"
    and unowned: "\<And>k e. k \<in> set tp \<Longrightarrow> \<not> assigned_at (ShardAssignments st) e k"
  shows "single_owner (ShardAssignments new)"
    and "assigned_at (ShardAssignments new) e k \<longleftrightarrow> assigned_at (ShardAssignments st) e k
      \<or> k \<in> set tp \<and> e \<in> set (AssignableExecutorIDs st []) \<and> assigned_at (ShardAssignments new) e k"
    and "k \<in> set tp \<Longrightarrow> \<exists>e. assigned_at (ShardAssignments new) e k"
    and "mget (fold (\<lambda>p m. mput (pl_ShardID p) (pl_ExecutorID p) m) ps ex) k = Some e \<longleftrightarrow>
      (if k \<in> set tp then assigned_at (ShardAssignments new) e k else mget ex k = Some e)"
proof -
  have ps: "distinct (map pl_ShardID ps)" "set (map pl_ShardID ps) = set tp"
      "set (map pl_ExecutorID ps) \<subseteq> set (AssignableExecutorIDs st [])"
    using lb_placement.batch_Inr [OF assms(2,4)] by auto
  note mrg = merge_effect [OF assms(1,2,5)]
  have once: "p = q" if "p \<in> set ps" "q \<in> set ps" "pl_ShardID p = pl_ShardID q" for p q
    using that ps(1) by (metis distinct_map inj_onD)
  have in_tp: "k \<in> set tp \<longleftrightarrow> (\<exists>p \<in> set ps. pl_ShardID p = k)" for k using ps(2) by force
  have wf: "wf_map (ShardAssignments st)" "\<forall>(e, a) \<in> set (ShardAssignments st). wf_map (AssignedShards a)"
      "wf_map (ShardAssignments new)" "\<forall>(e, a) \<in> set (ShardAssignments new). wf_map (AssignedShards a)"
    using assms(2) mrg(1) wf_state_assigned by (auto simp: wf_stateD)
  show "single_owner (ShardAssignments new)"
    using assms(3) unowned once in_tp unfolding single_owner_iff [OF wf(3,4)] single_owner_iff [OF wf(1,2)] mrg(4)
    by metis
  show "assigned_at (ShardAssignments new) e k \<longleftrightarrow> assigned_at (ShardAssignments st) e k
      \<or> k \<in> set tp \<and> e \<in> set (AssignableExecutorIDs st []) \<and> assigned_at (ShardAssignments new) e k"
    using ps(3) in_tp unfolding mrg(4) by auto
  show "k \<in> set tp \<Longrightarrow> \<exists>e. assigned_at (ShardAssignments new) e k"
    using in_tp unfolding mrg(4) by blast
  show "mget (fold (\<lambda>p m. mput (pl_ShardID p) (pl_ExecutorID p) m) ps ex) k = Some e \<longleftrightarrow>
      (if k \<in> set tp then assigned_at (ShardAssignments new) e k else mget ex k = Some e)"
  proof (cases "find (\<lambda>p. pl_ShardID p = k) ps")
    case None
    then have "k \<notin> set tp" using in_tp by (auto simp: find_None_iff)
    then show ?thesis using None by (simp add: placed_owner [OF ps(1)])
  next
    case (Some p)
    then have p: "p \<in> set ps" "pl_ShardID p = k" by (auto simp: find_Some_iff)
    then have "k \<in> set tp" "assigned_at (ShardAssignments new) e k \<longleftrightarrow> pl_ExecutorID p = e"
      using in_tp unowned [of k e] once unfolding mrg(4) by blast+
    then show ?thesis using Some by (simp add: placed_owner [OF ps(1)])
  qed
qed

text \<open>A successful attempt, as a whole.\<close>

lemma batch_effect:
  assumes "executor_lookup (as_GetExecutor a) coherent" "coherent c"
    and "GetState (as_storage a) db (as_namespace a) = Inr st" "wf_state st" "single_owner (ShardAssignments st)"
    and "is_order (owners_order env)" "is_order (merge_order env)" "is_order (fetch_order env)"
    and "tryAssignEphemeralBatch a env keys (db, c) = (Inr (results, dr), db', c')"
  shows "\<exists>new changed.
    (new = st \<and> db' = db
     \<or> (\<exists>ps. ps \<noteq> [] \<and> mergePlacements (merge_order env) st ps (te_now env) = (new, changed))
       \<and> AssignShards (as_storage a) (te_other env db) (as_namespace a)
         \<lparr>NewState = new, ExecutorsToDelete = [], ChangedExecutors = Some changed\<rparr> (as_NopGuard a) = (Inr (), db'))
    \<and> wf_state new \<and> single_owner (ShardAssignments new)
    \<and> (\<forall>e s. assigned_at (ShardAssignments new) e s \<longleftrightarrow> assigned_at (ShardAssignments st) e s
         \<or> s \<in> set keys \<and> s \<notin> set (DrainedShards st) \<and> \<not> (\<exists>e'. assigned_at (ShardAssignments st) e' s)
           \<and> e \<in> set (AssignableExecutorIDs st []) \<and> map_option gr_Owner (mget results s) = Some e)
    \<and> (\<forall>k. k \<in> set keys \<longrightarrow> (if k \<in> set (DrainedShards st) then mget results k = None \<and> k \<in> set dr
         else \<exists>r. mget results k = Some r \<and> assigned_at (ShardAssignments new) (gr_Owner r) k))"
proof -
  obtain ex tp dr\<^sub>0 where res: "resolveOwners (owners_order env) st keys = (ex, tp, dr\<^sub>0)"
    by (cases "resolveOwners (owners_order env) st keys")
  note r = resolveOwners_spec [OF res] wf_resolved [OF res]
  note own = ShardOwners_assigned [OF assms(6,4,5)]
  have ex: "mget ex k = Some e \<longleftrightarrow> k \<in> set keys \<and> k \<notin> set (DrainedShards st) \<and> assigned_at (ShardAssignments st) e k" for k e
    using r(2) own(1) by auto
  have tp: "k \<in> set tp \<longleftrightarrow> k \<in> set keys \<and> k \<notin> set (DrainedShards st) \<and> \<not> (\<exists>e. assigned_at (ShardAssignments st) e k)" for k
    using r(3) own(2) by auto
  show ?thesis
  proof (rule try_cases [OF assms(9,3) res])
    assume none: "tp = []" and fin: "finishBatch a (fetch_order env) keys ex dr\<^sub>0 (db, c) = (Inr (results, dr), db', c')"
    note f = executor_lookup.finish_results [OF assms(1) fin refl assms(2,8) r(4)]
    have "\<exists>r. mget results k = Some r \<and> assigned_at (ShardAssignments st) (gr_Owner r) k"
      if k: "k \<in> set keys" "k \<notin> set (DrainedShards st)" for k
    proof -
      obtain e where "mget ex k = Some e" using tp [of k] none k ex by auto
      then show ?thesis using f(4) [OF k(1)] ex by metis
    qed
    moreover have "mget results k = None" if "k \<in> set (DrainedShards st)" for k
      using f(5) [of k] r(2) [of k] that by simp
    ultimately show ?thesis
      using f(1,2) r(1) tp none assms(4,5) by (intro exI [of _ st] exI [of _ "[]"]) auto
  next
    fix ps new changed db\<^sub>1
    assume "tp \<noteq> []" and plan: "PlanInitialPlacement (as_cfg a) st tp = Inr ps"
      and m: "mergePlacements (merge_order env) st ps (te_now env) = (new, changed)"
      and w: "AssignShards (as_storage a) (te_other env db) (as_namespace a)
         \<lparr>NewState = new, ExecutorsToDelete = [], ChangedExecutors = Some changed\<rparr> (as_NopGuard a) = (Inr (), db\<^sub>1)"
      and fin: "finishBatch a (fetch_order env) keys
         (fold (\<lambda>p m. mput (pl_ShardID p) (pl_ExecutorID p) m) ps ex) dr\<^sub>0 (db\<^sub>1, c) = (Inr (results, dr), db', c')"
    have "ps \<noteq> []" using lb_placement.batch_Inr [OF assms(4) plan] \<open>tp \<noteq> []\<close> by auto
    have unowned: "\<not> assigned_at (ShardAssignments st) e k" if "k \<in> set tp" for e k using tp that by blast
    note eff = placement_effect [OF assms(7,4,5) plan m unowned]
    note f = executor_lookup.finish_results [OF assms(1) fin refl assms(2,8) wf_placed [OF r(4)]]
    have owner: "mget (fold (\<lambda>p m. mput (pl_ShardID p) (pl_ExecutorID p) m) ps ex) k = Some e \<longleftrightarrow>
        k \<in> set keys \<and> k \<notin> set (DrainedShards st) \<and> assigned_at (ShardAssignments new) e k" for k e
      using eff(2) [of e k] eff(4) [of ex k e] ex [of k e] tp [of k] by auto
    have answer: "map_option gr_Owner (mget results k) = Some e"
      if "k \<in> set keys" "k \<notin> set (DrainedShards st)" "assigned_at (ShardAssignments new) e k" for k e
      using f(4) [OF that(1), of e] owner that by fastforce
    have "\<exists>e. assigned_at (ShardAssignments new) e k" if "k \<in> set keys" "k \<notin> set (DrainedShards st)" for k
      using that tp [of k] eff(2,3) by blast
    then have answered: "\<exists>r. mget results k = Some r \<and> assigned_at (ShardAssignments new) (gr_Owner r) k"
      if "k \<in> set keys" "k \<notin> set (DrainedShards st)" for k
      using answer [OF that] that by fastforce
    have drained: "mget results k = None" if "k \<in> set (DrainedShards st)" for k
      using f(5) [of k] owner [of k] that by (cases "mget (fold (\<lambda>p m. mput (pl_ShardID p) (pl_ExecutorID p) m) ps ex) k") auto
    have "assigned_at (ShardAssignments new) e s \<longleftrightarrow> assigned_at (ShardAssignments st) e s
         \<or> s \<in> set keys \<and> s \<notin> set (DrainedShards st) \<and> \<not> (\<exists>e'. assigned_at (ShardAssignments st) e' s)
           \<and> e \<in> set (AssignableExecutorIDs st []) \<and> map_option gr_Owner (mget results s) = Some e" for e s
      using eff(2) [of e s] tp [of s] answer [of s e] answered [of s] by auto
    then show ?thesis
      using w m \<open>ps \<noteq> []\<close> eff(1) merge_effect(1) [OF assms(7,4) m] answered drained f(1,2) r(1)
      by (intro exI [of _ new] exI [of _ changed]) auto
  qed
qed

text \<open>
  C20. A batch that succeeds gives every requested shard that is not drained exactly one owner and
  answers with it, and it refuses the drained ones. It never moves a shard: the assignments it
  writes are those it read plus the requested shards that had no owner, each on an assignable
  executor, so that every shard still has at most one owner. Without such a shard it writes
  nothing.
\<close>

theorem ephemeral_batch_assigns:
  assumes "executor_lookup (as_GetExecutor a) coherent" "coherent c"
    and "GetState (as_storage a) db (as_namespace a) = Inr st" "wf_state st" "single_owner (ShardAssignments st)"
    and "is_order (owners_order env)" "is_order (merge_order env)" "is_order (fetch_order env)"
    and "tryAssignEphemeralBatch a env keys (db, c) = (Inr (results, dr), db', c')"
  shows "\<exists>new changed.
    (new = st \<and> db' = db
     \<or> AssignShards (as_storage a) (te_other env db) (as_namespace a)
         \<lparr>NewState = new, ExecutorsToDelete = [], ChangedExecutors = Some changed\<rparr> (as_NopGuard a) = (Inr (), db'))
    \<and> wf_state new \<and> single_owner (ShardAssignments new)
    \<and> (\<forall>e s. assigned_at (ShardAssignments new) e s \<longleftrightarrow> assigned_at (ShardAssignments st) e s
         \<or> s \<in> set keys \<and> s \<notin> set (DrainedShards st) \<and> \<not> (\<exists>e'. assigned_at (ShardAssignments st) e' s)
           \<and> e \<in> set (AssignableExecutorIDs st []) \<and> map_option gr_Owner (mget results s) = Some e)
    \<and> (\<forall>k. k \<in> set keys \<longrightarrow> (if k \<in> set (DrainedShards st) then mget results k = None \<and> k \<in> set dr
         else \<exists>r. mget results k = Some r \<and> assigned_at (ShardAssignments new) (gr_Owner r) k))"
  using batch_effect [OF assms] by blast

text \<open>A store that keeps the state it is given, and a namespace of two executors with one shard.\<close>

definition memory_store :: "(NamespaceState, unit) Store" where
  "memory_store = \<lparr>GetState = (\<lambda>db _. Inr db), AssignShards = (\<lambda>db _ req _. (Inr (), NewState req)),
     DeleteExecutors = (\<lambda>db _ _ _. (Inr (), db)), RecordShardStatisticsBatch = (\<lambda>db _ _. (Inr (), db)),
     DeleteShardStats = (\<lambda>db _ _ _. (Inr (), db))\<rparr>"

definition demo_assigner :: "(NamespaceState, unit, shardCache) Assigner" where
  "demo_assigner = \<lparr>as_namespace = ''ns'', as_cfg = naive_config, as_storage = memory_store, as_NopGuard = (),
     as_GetExecutor = cache_GetExecutor (FlightCancelled ContextCanceled)\<rparr>"

definition demo_cache :: shardCache where
  "demo_cache = newShardCache\<lparr>shardOwners := [(''a'', owner_of ''a'' []), (''b'', owner_of ''b'' [])]\<rparr>"

definition demo_env :: "'db try_env" where
  "demo_env = \<lparr>owners_order = (\<lambda>xs. xs), merge_order = (\<lambda>xs. xs), fetch_order = (\<lambda>xs. xs), te_now = 11,
     te_other = (\<lambda>db. db)\<rparr>"

theorem ephemeral_batch_assigns_witness:
  "\<exists>results dr db' c'. tryAssignEphemeralBatch demo_assigner demo_env [''s1'', ''n''] (two_executors, demo_cache)
      = (Inr (results, dr), db', c')
    \<and> single_owner (ShardAssignments db') \<and> assigned_at (ShardAssignments db') ''a'' ''s1''
    \<and> (\<exists>r. mget results ''n'' = Some r \<and> assigned_at (ShardAssignments db') (gr_Owner r) ''n'')"
proof -
  have lookup: "executor_lookup (as_GetExecutor demo_assigner) cache_coherent"
    using cache_lookup.executor_lookup_axioms [of "FlightCancelled ContextCanceled"]
    by (simp add: demo_assigner_def good_flight_def)
  have "\<not> isl (fst (tryAssignEphemeralBatch demo_assigner demo_env [''s1'', ''n''] (two_executors, demo_cache)))"
    by code_simp
  then obtain results dr db' c' where
    run: "tryAssignEphemeralBatch demo_assigner demo_env [''s1'', ''n''] (two_executors, demo_cache) = (Inr (results, dr), db', c')"
    by (cases "tryAssignEphemeralBatch demo_assigner demo_env [''s1'', ''n''] (two_executors, demo_cache)";
        cases "fst (tryAssignEphemeralBatch demo_assigner demo_env [''s1'', ''n''] (two_executors, demo_cache))") auto
  have coh: "cache_coherent demo_cache" by (simp add: cache_coherent_def demo_cache_def)
  have get: "GetState (as_storage demo_assigner) two_executors (as_namespace demo_assigner) = Inr two_executors"
    by (simp add: demo_assigner_def memory_store_def)
  have single: "single_owner (ShardAssignments two_executors)"
    by (simp add: two_executors_def single_owner_def)
  have ord: "is_order (owners_order demo_env)" "is_order (merge_order demo_env)" "is_order (fetch_order demo_env)"
    by (simp_all add: demo_env_def is_order_def)
  obtain new changed where new: "new = two_executors \<and> db' = two_executors
      \<or> AssignShards (as_storage demo_assigner) (te_other demo_env two_executors) (as_namespace demo_assigner)
         \<lparr>NewState = new, ExecutorsToDelete = [], ChangedExecutors = Some changed\<rparr> (as_NopGuard demo_assigner) = (Inr (), db')"
    and owners: "single_owner (ShardAssignments new)"
      "\<forall>e s. assigned_at (ShardAssignments new) e s \<longleftrightarrow> assigned_at (ShardAssignments two_executors) e s
         \<or> s \<in> set [''s1'', ''n''] \<and> s \<notin> set (DrainedShards two_executors)
           \<and> \<not> (\<exists>e'. assigned_at (ShardAssignments two_executors) e' s)
           \<and> e \<in> set (AssignableExecutorIDs two_executors []) \<and> map_option gr_Owner (mget results s) = Some e"
      "\<forall>k. k \<in> set [''s1'', ''n''] \<longrightarrow> (if k \<in> set (DrainedShards two_executors) then mget results k = None \<and> k \<in> set dr
         else \<exists>r. mget results k = Some r \<and> assigned_at (ShardAssignments new) (gr_Owner r) k)"
    using ephemeral_batch_assigns [OF lookup coh get two_executors_facts(1) single ord run] by blast
  have "db' = new" using new by (auto simp: demo_assigner_def memory_store_def)
  moreover have "assigned_at (ShardAssignments two_executors) ''a'' ''s1''" "DrainedShards two_executors = []"
    by (simp_all add: two_executors_def assigned_at_def mhas_def)
  ultimately show ?thesis
    using run owners by (intro exI [of _ results] exI [of _ dr] exI [of _ db'] exI [of _ c']) simp
qed

text \<open>A batch makes at most four attempts, and it always returns.\<close>

lemma assign_attempts:
  assumes "keeps_count env"
  shows "\<exists>e n st'. Do assign_retry env (counting (assign_op a envs keys)) (0, st) = Some (e, n, st') \<and> n \<le> 4"
proof -
  have pol: "tr_policy assign_retry = Exponential ((NewExponentialRetryPolicy versionConflictRetryInitialInterval)
            \<lparr>maximumInterval := versionConflictRetryMaxInterval, maximumAttempts := versionConflictRetryMaxAttempts\<rparr>)"
    by (simp add: assign_retry_def NewThrottleRetry_def WithRetryPolicy_def WithRetryableError_def Let_def)
  show ?thesis
    using Do_loop_returns [OF pol _ assms, of "NewRetrier (clock_Now env (0, st))" 0 "assign_op a envs keys" None _ 0 st]
    by (simp add: Do_def NewRetrier_def versionConflictRetryMaxAttempts_def noMaximumAttempts_def)
qed

end
