(* ===== verification/Batcher.thy ===== *)
theory Batcher
  imports EphemeralAssigner
begin

text \<open>
  The batcher of \<open>ephemeralassigner/batcher.go\<close>: it collects the requests of concurrent callers and
  processes them in batches, one at a time.

  \<^item> The event loop owns the state. One clause of its \<open>select\<close> is one function on the state, and the
    goroutines it starts (the timer of a collection window, the run of a batch) are flags and slots
    of the state: \<open>bt_timer\<close>, \<open>bt_ready\<close>, \<open>bt_running\<close>, \<open>bt_done\<close>.
  \<^item> A request carries an identity in place of its response channel; \<open>bt_answers\<close> lists the values
    written to the response channels. \<open>bt_submitted\<close> lists all requests sent to the loop; no step
    reads it.
  \<^item> The result of a batch is whatever \<open>processBatch\<close> returns.
\<close>

section \<open>Data\<close>

definition requestsChannelLimit :: nat where "requestsChannelLimit = 1024"

record batchRequest =
  br_id :: nat
  br_shardKey :: string

record flushResult =
  fr_results :: "(string, GetShardOwnerResponse) gomap"
  fr_drained :: gostrset
  fr_err :: "err option"

type_synonym batchResponse = "GetShardOwnerResponse result"

datatype loop_state = LoopRunning | LoopDraining | LoopExited

record shardBatcher =
  bt_namespace :: string
  bt_requestChan :: "batchRequest list"
  bt_inflight :: "batchRequest list option"
  bt_pending :: "batchRequest list"
  bt_scheduled :: bool
  bt_timer :: bool
  bt_ready :: bool
  bt_running :: "string list option"
  bt_done :: "flushResult option"
  bt_cancelled :: bool
  bt_loop :: loop_state
  bt_answers :: "(batchRequest \<times> batchResponse) list"
  bt_submitted :: "batchRequest list"

definition newShardBatcher :: "string \<Rightarrow> shardBatcher" where
  "newShardBatcher namespace =
     \<lparr>bt_namespace = namespace, bt_requestChan = [], bt_inflight = None, bt_pending = [], bt_scheduled = False,
      bt_timer = False, bt_ready = False, bt_running = None, bt_done = None, bt_cancelled = False,
      bt_loop = LoopRunning, bt_answers = [], bt_submitted = []\<rparr>"

section \<open>Operations\<close>

definition toBatchResponse ::
    "(string, GetShardOwnerResponse) gomap \<Rightarrow> gostrset \<Rightarrow> err option \<Rightarrow> string \<Rightarrow> string \<Rightarrow> batchResponse" where
  "toBatchResponse results drained err namespace shardKey =
     (case err of
        Some e \<Rightarrow> Inl e
      | None \<Rightarrow>
          if shardKey \<in> set drained then Inl (ShardDrainedError namespace shardKey)
          else (case mget results shardKey of
                  None \<Rightarrow> Inl (InternalServiceError (''batch processor returned no result for shard key: '' @ shardKey) None)
                | Some resp \<Rightarrow> Inr resp))"

definition deliverResults :: "batchRequest list \<Rightarrow> flushResult \<Rightarrow> shardBatcher \<Rightarrow> shardBatcher" where
  "deliverResults reqs res b = b\<lparr>bt_answers := bt_answers b @
     map (\<lambda>req. (req, toBatchResponse (fr_results res) (fr_drained res) (fr_err res) (bt_namespace b) (br_shardKey req))) reqs\<rparr>"

definition scheduleFlush :: "shardBatcher \<Rightarrow> shardBatcher" where
  "scheduleFlush b = b\<lparr>bt_timer := True\<rparr>"

definition startFlush :: "batchRequest list \<Rightarrow> shardBatcher \<Rightarrow> shardBatcher" where
  "startFlush reqs b = b\<lparr>bt_running := Some (map br_shardKey reqs)\<rparr>"

text \<open>The clauses of the loop's \<open>select\<close>: a request, the end of a collection window, the end of a batch.\<close>

definition loop_request :: "batchRequest \<Rightarrow> shardBatcher \<Rightarrow> shardBatcher" where
  "loop_request req b =
     (let b = b\<lparr>bt_requestChan := tl (bt_requestChan b), bt_pending := bt_pending b @ [req]\<rparr>
      in if bt_inflight b = None \<and> \<not> bt_scheduled b then scheduleFlush (b\<lparr>bt_scheduled := True\<rparr>) else b)"

text \<open>A slice of no requests is the nil slice, which stands for "no flush is running".\<close>

definition slice_or_nil :: "'a list \<Rightarrow> 'a list option" where
  "slice_or_nil xs = (if xs = [] then None else Some xs)"

definition loop_flushReady :: "shardBatcher \<Rightarrow> shardBatcher" where
  "loop_flushReady b =
     (let reqs = bt_pending b
      in startFlush reqs (b\<lparr>bt_ready := False, bt_scheduled := False, bt_inflight := slice_or_nil reqs, bt_pending := []\<rparr>))"

definition loop_flushDone :: "flushResult \<Rightarrow> shardBatcher \<Rightarrow> shardBatcher" where
  "loop_flushDone res b =
     (let b = deliverResults (case bt_inflight b of None \<Rightarrow> [] | Some reqs \<Rightarrow> reqs) res (b\<lparr>bt_done := None\<rparr>);
          b = b\<lparr>bt_inflight := None\<rparr>
      in if bt_pending b \<noteq> []
         then let reqs = bt_pending b in startFlush reqs (b\<lparr>bt_inflight := Some reqs, bt_pending := []\<rparr>)
         else b)"

text \<open>
  The shutdown: the result of the batch in flight is delivered first; then the pending requests and
  those still in the channel are cancelled.
\<close>

definition cancel_all :: "batchRequest list \<Rightarrow> shardBatcher \<Rightarrow> shardBatcher" where
  "cancel_all reqs b = b\<lparr>bt_answers := bt_answers b @ map (\<lambda>req. (req, Inl ContextCanceled)) reqs\<rparr>"

definition drainAndCancel :: "flushResult option \<Rightarrow> shardBatcher \<Rightarrow> shardBatcher" where
  "drainAndCancel res b =
     (let b = (case bt_inflight b of
                 None \<Rightarrow> b
               | Some reqs \<Rightarrow> (case res of None \<Rightarrow> b
                   | Some res \<Rightarrow> deliverResults reqs res (b\<lparr>bt_done := None, bt_inflight := None\<rparr>)));
          b = cancel_all (bt_pending b) (b\<lparr>bt_pending := []\<rparr>);
          b = cancel_all (bt_requestChan b) (b\<lparr>bt_requestChan := []\<rparr>)
      in b\<lparr>bt_loop := LoopExited\<rparr>)"

definition batcher_Stop :: "shardBatcher \<Rightarrow> shardBatcher" where
  "batcher_Stop b = b\<lparr>bt_cancelled := True\<rparr>"

definition Submit_send :: "batchRequest \<Rightarrow> shardBatcher \<Rightarrow> shardBatcher" where
  "Submit_send req b = b\<lparr>bt_requestChan := bt_requestChan b @ [req], bt_submitted := bt_submitted b @ [req]\<rparr>"

text \<open>What a caller that waits for the answer to its request may return.\<close>

definition Submit_returns :: "batchRequest \<Rightarrow> shardBatcher \<Rightarrow> err option \<Rightarrow> batchResponse \<Rightarrow> bool" where
  "Submit_returns req b ctxErr resp \<longleftrightarrow>
     (req, resp) \<in> set (bt_answers b) \<or> (\<exists>e. ctxErr = Some e \<and> resp = Inl e) \<or> bt_cancelled b \<and> resp = Inl ContextCanceled"

section \<open>Runs\<close>

inductive batcher_step :: "shardBatcher \<Rightarrow> shardBatcher \<Rightarrow> bool" where
  request: "bt_loop b = LoopRunning \<Longrightarrow> bt_requestChan b = req # rest \<Longrightarrow> batcher_step b (loop_request req b)"
| timer: "bt_timer b \<Longrightarrow> \<not> bt_ready b \<Longrightarrow> batcher_step b (b\<lparr>bt_timer := False, bt_ready := True\<rparr>)"
| timer_cancelled: "bt_timer b \<Longrightarrow> bt_cancelled b \<Longrightarrow> batcher_step b (b\<lparr>bt_timer := False\<rparr>)"
| flush_ready: "bt_loop b = LoopRunning \<Longrightarrow> bt_ready b \<Longrightarrow> batcher_step b (loop_flushReady b)"
| process: "bt_running b = Some keys \<Longrightarrow> bt_done b = None \<Longrightarrow> batcher_step b (b\<lparr>bt_running := None, bt_done := Some res\<rparr>)"
| flush_done: "bt_loop b = LoopRunning \<Longrightarrow> bt_done b = Some res \<Longrightarrow> batcher_step b (loop_flushDone res b)"
| stop_seen: "bt_loop b = LoopRunning \<Longrightarrow> bt_cancelled b \<Longrightarrow> batcher_step b (b\<lparr>bt_loop := LoopDraining\<rparr>)"
| drain: "bt_loop b = LoopDraining \<Longrightarrow> bt_inflight b = None \<or> bt_done b \<noteq> None \<Longrightarrow>
    batcher_step b (drainAndCancel (bt_done b) b)"

inductive client_step :: "shardBatcher \<Rightarrow> shardBatcher \<Rightarrow> bool" where
  submit: "length (bt_requestChan b) < requestsChannelLimit \<Longrightarrow> req \<notin> set (bt_submitted b) \<Longrightarrow>
    client_step b (Submit_send req b)"
| stop: "client_step b (batcher_Stop b)"

inductive batcher_run :: "string \<Rightarrow> shardBatcher \<Rightarrow> bool" for namespace where
  start: "batcher_run namespace (newShardBatcher namespace)"
| step: "batcher_run namespace b \<Longrightarrow> batcher_step b b' \<Longrightarrow> batcher_run namespace b'"
| client: "batcher_run namespace b \<Longrightarrow> client_step b b' \<Longrightarrow> batcher_run namespace b'"

section \<open>The invariant\<close>

text \<open>
  No flush is running exactly when \<open>inflight\<close> is nil; a window is open only while no flush runs and
  a request waits; a request that waits is covered by a window or by the flush that runs; every
  request is in exactly one place.
\<close>

definition flushes :: "shardBatcher \<Rightarrow> nat" where
  "flushes b = (if bt_running b = None then 0 else 1) + (if bt_done b = None then 0 else 1)"

definition inflight_reqs :: "shardBatcher \<Rightarrow> batchRequest list" where
  "inflight_reqs b = (case bt_inflight b of None \<Rightarrow> [] | Some reqs \<Rightarrow> reqs)"

definition batcher_inv :: "shardBatcher \<Rightarrow> bool" where
  "batcher_inv b \<longleftrightarrow>
     flushes b = (if bt_inflight b = None then 0 else 1)
     \<and> bt_inflight b \<noteq> Some []
     \<and> (\<forall>keys. bt_running b = Some keys \<longrightarrow> keys = map br_shardKey (inflight_reqs b))
     \<and> (bt_timer b \<or> bt_ready b \<longrightarrow> bt_scheduled b \<and> \<not> (bt_timer b \<and> bt_ready b) \<or> bt_loop b \<noteq> LoopRunning)
     \<and> (bt_scheduled b \<and> bt_loop b = LoopRunning \<longrightarrow> bt_inflight b = None \<and> bt_pending b \<noteq> []
        \<and> (bt_timer b \<or> bt_ready b \<or> bt_cancelled b))
     \<and> (bt_pending b \<noteq> [] \<and> bt_loop b = LoopRunning \<longrightarrow> bt_scheduled b \<or> bt_inflight b \<noteq> None)
     \<and> (bt_loop b = LoopExited \<longrightarrow> bt_inflight b = None \<and> bt_pending b = [] \<and> bt_cancelled b)
     \<and> (bt_loop b = LoopDraining \<longrightarrow> bt_cancelled b)
     \<and> mset (map fst (bt_answers b)) + mset (inflight_reqs b) + mset (bt_pending b) + mset (bt_requestChan b)
       = mset (bt_submitted b)
     \<and> distinct (bt_submitted b)"

lemmas batcher_defs = batcher_inv_def flushes_def inflight_reqs_def loop_request_def loop_flushReady_def
  loop_flushDone_def drainAndCancel_def cancel_all_def deliverResults_def scheduleFlush_def startFlush_def
  slice_or_nil_def Let_def

lemma inv_request:
  assumes "batcher_inv b" "bt_loop b = LoopRunning" "bt_requestChan b = req # rest"
  shows "batcher_inv (loop_request req b)"
  using assms by (auto simp: batcher_defs split: if_splits)

lemma inv_flushReady:
  assumes "batcher_inv b" "bt_loop b = LoopRunning" "bt_ready b"
  shows "batcher_inv (loop_flushReady b)"
  using assms by (auto simp: batcher_defs split: if_splits)

lemma inv_flushDone:
  assumes "batcher_inv b" "bt_loop b = LoopRunning" "bt_done b = Some res"
  shows "batcher_inv (loop_flushDone res b)"
  using assms by (auto simp: batcher_defs multiset.map_comp comp_def add.assoc split: if_splits option.splits)

lemma inv_drain:
  assumes "batcher_inv b" "bt_loop b = LoopDraining" "bt_inflight b = None \<or> bt_done b \<noteq> None"
  shows "batcher_inv (drainAndCancel (bt_done b) b)"
  using assms by (auto simp: batcher_defs multiset.map_comp comp_def add.assoc split: if_splits option.splits)

lemma batcher_inv_step: "batcher_step b b' \<Longrightarrow> batcher_inv b \<Longrightarrow> batcher_inv b'"
proof (induction rule: batcher_step.induct)
  case (request b req rest)
  then show ?case using inv_request by blast
next
  case (flush_ready b)
  then show ?case using inv_flushReady by blast
next
  case (flush_done b res)
  then show ?case using inv_flushDone by blast
next
  case (drain b)
  then show ?case using inv_drain by blast
qed (auto simp: batcher_inv_def flushes_def inflight_reqs_def split: if_splits)

lemma batcher_inv_client: "client_step b b' \<Longrightarrow> batcher_inv b \<Longrightarrow> batcher_inv b'"
  by (induction rule: client_step.induct)
     (auto simp: batcher_inv_def flushes_def inflight_reqs_def Submit_send_def batcher_Stop_def)

lemma batcher_inv_run: "batcher_run namespace b \<Longrightarrow> batcher_inv b"
proof (induction rule: batcher_run.induct)
  case start
  then show ?case by (simp add: batcher_inv_def flushes_def inflight_reqs_def newShardBatcher_def)
qed (blast intro: batcher_inv_step batcher_inv_client)+

section \<open>Every request is answered\<close>

definition batcher_work :: "shardBatcher \<Rightarrow> nat" where
  "batcher_work b =
     10 * length (bt_requestChan b) + 5 * length (bt_pending b) + length (inflight_reqs b)
     + (if bt_timer b then 3 else 0) + (if bt_ready b then 2 else 0)
     + (if bt_running b = None then 0 else 3) + (if bt_done b = None then 0 else 1)
     + (case bt_loop b of LoopRunning \<Rightarrow> 2 | LoopDraining \<Rightarrow> 1 | LoopExited \<Rightarrow> 0)"

lemmas work_defs = batcher_work_def inflight_reqs_def loop_request_def loop_flushReady_def loop_flushDone_def
  drainAndCancel_def cancel_all_def deliverResults_def scheduleFlush_def startFlush_def slice_or_nil_def Let_def

lemma work_flushReady:
  assumes "batcher_inv b" "bt_loop b = LoopRunning" "bt_ready b"
  shows "batcher_work (loop_flushReady b) < batcher_work b"
proof -
  have "bt_scheduled b" using assms by (auto simp: batcher_inv_def)
  then have "bt_inflight b = None" "bt_pending b \<noteq> []" using assms by (simp_all add: batcher_inv_def)
  then show ?thesis
    using assms by (cases "bt_pending b") (simp_all add: work_defs)
qed

lemma work_flushDone:
  assumes "batcher_inv b" "bt_loop b = LoopRunning" "bt_done b = Some res"
  shows "batcher_work (loop_flushDone res b) < batcher_work b"
proof -
  obtain reqs where "bt_inflight b = Some reqs" "reqs \<noteq> []" "bt_running b = None"
    using assms by (auto simp: batcher_inv_def flushes_def split: if_splits)
  then show ?thesis
    using assms(2,3) by (cases reqs; cases "bt_pending b") (simp_all add: work_defs)
qed

lemma work_step: "batcher_step b b' \<Longrightarrow> batcher_inv b \<Longrightarrow> batcher_work b' < batcher_work b"
proof (induction rule: batcher_step.induct)
  case (flush_ready b)
  then show ?case using work_flushReady by blast
next
  case (flush_done b res)
  then show ?case using work_flushDone by blast
next
  case (drain b)
  then show ?case by (auto simp: work_defs split: option.splits)
qed (auto simp: work_defs split: option.splits)

definition batcher_quiet :: "shardBatcher \<Rightarrow> bool" where
  "batcher_quiet b \<longleftrightarrow> (\<nexists>b'. batcher_step b b')"

lemma quiet_running:
  assumes "batcher_inv b" "batcher_quiet b"
  shows "bt_loop b = LoopExited \<or> bt_loop b = LoopRunning \<and> bt_requestChan b = [] \<and> bt_pending b = []
    \<and> bt_inflight b = None \<and> \<not> bt_cancelled b"
proof -
  have no: "\<not> batcher_step b b'" for b' using assms(2) by (simp add: batcher_quiet_def)
  have running: "bt_running b = None"
  proof (rule ccontr)
    assume r: "bt_running b \<noteq> None"
    then have "bt_done b = None" using assms(1) by (auto simp: batcher_inv_def flushes_def split: if_splits)
    then show False using r no process by blast
  qed
  show ?thesis
  proof (cases "bt_loop b")
    case LoopRunning
    have "bt_done b = None" using no flush_done [OF LoopRunning] by (cases "bt_done b") auto
    then have "bt_inflight b = None" using assms(1) running by (auto simp: batcher_inv_def flushes_def split: if_splits)
    moreover have "bt_requestChan b = []" using no request [OF LoopRunning] by (cases "bt_requestChan b") auto
    moreover have "\<not> bt_ready b" "\<not> bt_cancelled b" using no flush_ready stop_seen LoopRunning by blast+
    moreover have "\<not> bt_timer b" using no timer calculation(3) by blast
    ultimately show ?thesis using assms(1) LoopRunning by (auto simp: batcher_inv_def)
  next
    case LoopDraining
    have "bt_inflight b = None \<or> bt_done b \<noteq> None"
      using assms(1) running by (auto simp: batcher_inv_def flushes_def split: if_splits)
    then show ?thesis using no drain [OF LoopDraining] by blast
  qed simp
qed

lemma batcher_converges:
  "batcher_inv b \<Longrightarrow> \<exists>b'. batcher_step\<^sup>*\<^sup>* b b' \<and> batcher_quiet b'"
proof (induction "batcher_work b" arbitrary: b rule: less_induct)
  case less
  show ?case
  proof (cases "batcher_quiet b")
    case False
    then obtain b\<^sub>1 where step: "batcher_step b b\<^sub>1" by (auto simp: batcher_quiet_def)
    then obtain b' where "batcher_step\<^sup>*\<^sup>* b\<^sub>1 b'" "batcher_quiet b'"
      using less work_step [OF step less.prems] batcher_inv_step [OF step less.prems] by blast
    then show ?thesis using step by (meson converse_rtranclp_into_rtranclp)
  qed blast
qed

lemma submitted_step: "batcher_step b b' \<Longrightarrow> bt_submitted b' = bt_submitted b"
  by (induction rule: batcher_step.induct) (auto simp: work_defs split: option.splits)

lemma batcher_steps:
  "batcher_step\<^sup>*\<^sup>* b b' \<Longrightarrow> batcher_inv b \<Longrightarrow> batcher_inv b' \<and> bt_submitted b' = bt_submitted b"
  by (induction rule: rtranclp_induct) (auto simp: submitted_step batcher_inv_step)

lemma answered_once:
  assumes "batcher_inv b"
  shows "distinct (map fst (bt_answers b))" "set (map fst (bt_answers b)) \<subseteq> set (bt_submitted b)"
proof -
  have "mset (map fst (bt_answers b) @ inflight_reqs b @ bt_pending b @ bt_requestChan b) = mset (bt_submitted b)"
    "distinct (bt_submitted b)"
    using assms by (simp_all add: batcher_inv_def add.assoc)
  then have "distinct (map fst (bt_answers b) @ inflight_reqs b @ bt_pending b @ bt_requestChan b)"
    "set (map fst (bt_answers b) @ inflight_reqs b @ bt_pending b @ bt_requestChan b) = set (bt_submitted b)"
    by (metis mset_eq_imp_distinct_iff, metis mset_eq_setD)
  then show "distinct (map fst (bt_answers b))" "set (map fst (bt_answers b)) \<subseteq> set (bt_submitted b)" by auto
qed



end
