(* ===== verification/EphemeralStore.thy ===== *)
theory EphemeralStore
  imports EphemeralAssigner StoreDrain
begin

text \<open>
  The ephemeral assigner on the etcd store: what a successful batch leaves in etcd, and how two
  assigners can disagree.
\<close>

section \<open>A batch on the store\<close>

definition timely_state :: "NamespaceState \<Rightarrow> bool" where
  "timely_state st = list_all (\<lambda>(_, a). timely_assigned a) (ShardAssignments st)"

lemma addShards_timely: "timely_assigned a \<Longrightarrow> rfc3339_time now \<Longrightarrow> timely_assigned (addShards now ss a)"
  by (simp add: timely_assigned_def)

lemma merged_request:
  assumes "is_order ord" "wf_state st" "mergePlacements ord st ps now = (new, changed)" "timely_state st" "rfc3339_time now"
    and "\<And>e. mhas (ShardAssignments st) e \<or> e \<in> pl_ExecutorID ` set ps \<Longrightarrow> CHR ''/'' \<notin> set e"
  shows "storable_request \<lparr>NewState = new, ExecutorsToDelete = [], ChangedExecutors = Some changed\<rparr>"
proof -
  obtain m where m: "new = st\<lparr>ShardAssignments := m\<rparr>" "wf_map (ShardAssignments st) \<longrightarrow> wf_map m"
      "\<forall>e. mget m e = (if e \<in> pl_ExecutorID ` set ps
        then Some (addShards now (map pl_ShardID (filter (\<lambda>p. pl_ExecutorID p = e) ps))
                     (mzero zero_AssignedState (ShardAssignments st) e))
        else mget (ShardAssignments st) e)"
    by (rule mergePlacements_spec [OF assms(1,3)])
  have wf: "wf_map m" "wf_map (ShardAssignments st)" using m(2) wf_stateD(1) [OF assms(2)] by simp_all
  have wf_new: "wf_state new" by (rule merge_effect(1) [OF assms(1-3)])
  have zero: "timely_assigned (mzero zero_AssignedState (ShardAssignments st) e)" for e
    using assms(4) by (auto simp: timely_state_def list_all_iff mzero_def zero_AssignedState_def timely_assigned_def
        rfc3339_time_def split: option.splits dest!: map_of_SomeD)
  have "CHR ''/'' \<notin> set e \<and> timely_assigned a" if "(e, a) \<in> set m" for e a
  proof -
    have "mget m e = Some a" using that by (simp add: mget_eq_iff [OF wf(1)])
    then show ?thesis
      using m(3) assms(5,6) zero assms(4)
      by (auto simp: timely_state_def list_all_iff mhas_def intro!: addShards_timely split: if_splits dest!: map_of_SomeD)
  qed
  then show ?thesis
    using wf(1) wf_new by (auto simp: storable_request_def m(1) list_all_iff wf_state_def)
qed

context etcd_backed
begin

text \<open>After the write, the executors the request mentions hold exactly the shards it gives them.\<close>

lemma merged_written:
  assumes snap: "etcd_GetState ord s db ns = (Inr st, db\<^sub>0)" and hist: "etcd_history (view db) (view db\<^sub>1)"
    and mrg: "is_order ord'" "mergePlacements ord' st ps now = (new, changed)" "ps \<noteq> []"
    and wr: "etcd_AssignShards s db\<^sub>1 ns \<lparr>NewState = new, ExecutorsToDelete = [], ChangedExecutors = Some changed\<rparr> guard = (Inr u, db\<^sub>2)"
    and req: "storable_request \<lparr>NewState = new, ExecutorsToDelete = [], ChangedExecutors = Some changed\<rparr>"
    and ns: "namespace_ok ns" and e: "mhas (ShardAssignments new) e"
  shows "stored_owner K (st_prefix s) ns (kvs db\<^sub>2) e k \<longleftrightarrow> assigned_at (ShardAssignments new) e k"
proof -
  let ?req = "\<lparr>NewState = new, ExecutorsToDelete = [], ChangedExecutors = Some changed\<rparr>"
  let ?key = "assigned_key (st_prefix s) ns e"
  obtain a where a: "mget (ShardAssignments new) e = Some a" using e by (auto simp: mhas_def)
  then have slash: "CHR ''/'' \<notin> set e"
    using req by (auto simp: storable_request_def list_all_iff dest!: map_of_SomeD)
  have after: "stored_assignment K (st_prefix s) ns (kvs db\<^sub>2) e =
      assignment_after ?req (et_revision (view db\<^sub>1) + 1) (stored_assignment K (st_prefix s) ns (kvs db\<^sub>1)) e"
    by (rule AssignShards_stored [OF wr req ns slash])
  note eff = merge_effect [OF mrg(1) GetState_stored(1) [OF snap] mrg(2)]
  have wr_iff: "written ?req e \<longleftrightarrow> e \<in> set changed" using a by (simp add: written_def mhas_def)
  show ?thesis
  proof (cases "e \<in> set changed")
    case True
    then show ?thesis using after a slash wr_iff by (auto simp: stored_owner_def assignment_after_def assigned_at_def)
  next
    case False
    then have old: "mget (ShardAssignments st) e = Some a" using eff(6) a by simp
    have "mod_revision (kvs db\<^sub>1) ?key = ModRevision a"
    proof (cases rule: AssignShards_done [OF wr])
      case 1
      obtain p where "p \<in> set ps" using mrg(3) by (cases ps) auto
      then have "pl_ExecutorID p \<in> set changed" using eff(5) by simp
      then have "written ?req (pl_ExecutorID p)" using eff(7) by (simp add: written_def)
      then show ?thesis using 1(3) by blast
    next
      case (2 puts t)
      have "(e, a) \<in> set (ShardAssignments new)" using a by (rule map_of_SomeD)
      then have "holds_cmp (kvs db\<^sub>1) (CmpModRevision ?key (ModRevision a))"
        using 2(4) unfolding assign_comparisons_def list_all_iff assigned_key_def by force
      then show ?thesis by simp
    qed
    then have "mget (kvs db\<^sub>1) ?key = mget (kvs db) ?key"
      using history_same_revision [OF hist view_wf] GetState_revision [OF snap slash] old by (simp add: mzero_def)
    then have "stored_assignment K (st_prefix s) ns (kvs db\<^sub>1) e = Some a"
      using GetState_stored(2) [OF snap slash] old by (simp add: stored_assignment_def)
    then show ?thesis
      using after wr_iff False slash a by (simp add: stored_owner_def assignment_after_def assigned_at_def mhas_def)
  qed
qed

end

section \<open>Properties\<close>


definition etcd_assigner :: "(blob etcd, blob GuardFunc, shardCache) Assigner" where
  "etcd_assigner = \<lparr>as_namespace = ''ns'', as_cfg = naive_config,
     as_storage = etcd_store (\<lambda>xs. xs) (\<lambda>_ db. db) demo_store, as_NopGuard = NopGuard,
     as_GetExecutor = cache_GetExecutor (FlightCancelled ContextCanceled)\<rparr>"

lemma etcd_assigner_lookup: "executor_lookup (as_GetExecutor etcd_assigner) cache_coherent"
  using cache_lookup.executor_lookup_axioms [of "FlightCancelled ContextCanceled"]
  by (simp add: etcd_assigner_def good_flight_def)

definition demo_answer :: "(string, GetShardOwnerResponse) gomap" where
  "demo_answer = [(''s'', \<lparr>gr_Owner = ''a'', gr_Namespace = ''ns'', gr_Metadata = []\<rparr>)]"

lemma demo_batch:
  "fst (tryAssignEphemeralBatch etcd_assigner demo_env [''s''] (demo_db, demo_cache)) = Inr (demo_answer, [])"
  by code_simp


section \<open>Two assigners\<close>

text \<open>
  Another server assigns the same shard between the read and the write of the first one. In between,
  the executor the first one chose starts to drain, so the second one chooses differently.
\<close>

definition draining_heartbeat :: HeartbeatState where
  "draining_heartbeat = demo_heartbeat\<lparr>hb_Status := ExecutorStatusDRAINING\<rparr>"

definition second_assigner :: "blob etcd \<Rightarrow> blob etcd" where
  "second_assigner db =
     fst (snd (tryAssignEphemeralBatch etcd_assigner demo_env [''s'']
       (snd (RecordHeartbeat demo_store db ''ns'' ''a'' draining_heartbeat), demo_cache)))"


end
