(* ===== verification/Namespaces.thy ===== *)
theory Namespaces
  imports Types "HOL-Library.Sublist"
begin

text \<open>
  The namespaces the service serves: the registry of \<open>namespaces/registry.go\<close>, built once from
  the static configuration, and the manager of \<open>namespaces/manager\<close>, which owns the cache and the
  ephemeral assigner of every namespace and starts and stops them.

  \<^item> A component is known to the manager by what it did to it: \<open>Start\<close> and \<open>Stop\<close> return the
    sequence of the calls they make. Whether the cache of a namespace can be started is a parameter.
  \<^item> \<open>running\<close> reads from such a sequence which components run.
\<close>

section \<open>The registry\<close>

type_synonym Registry = "(string, Namespace) gomap"

definition validate :: "Namespace \<Rightarrow> err option" where
  "validate ns =
     (if Name ns = [] then Some (ErrorString ''name must not be empty'')
      else if prefix ''_'' (Name ns) then Some (ErrorString ''name must not start with an underscore'')
      else if NsType ns = NamespaceTypeFixed
      then (if ShardNum ns \<le> 0 then Some (ErrorString ''fixed namespace must have a positive shardNum'') else None)
      else if NsType ns = NamespaceTypeEphemeral then None
      else Some (ErrorString ''unknown type''))"

fun NewRegistry_loop :: "Namespace list \<Rightarrow> Registry \<Rightarrow> Registry result" where
  "NewRegistry_loop [] byName = Inr byName"
| "NewRegistry_loop (ns # nss) byName =
     (case validate ns of
        Some e \<Rightarrow> Inl (Errorf (''namespace '' @ Name ns) e)
      | None \<Rightarrow>
          if mhas byName (Name ns)
          then Inl (ErrorString (''namespace '' @ Name ns @ '': configured more than once''))
          else NewRegistry_loop nss (mput (Name ns) ns byName))"

definition NewRegistry :: "Namespace list \<Rightarrow> Registry result" where
  "NewRegistry namespaces = NewRegistry_loop namespaces []"

definition MustNewRegistry :: "Namespace list \<Rightarrow> Registry option" where
  "MustNewRegistry namespaces = (case NewRegistry namespaces of Inl _ \<Rightarrow> None | Inr r \<Rightarrow> Some r)"

definition registry_Get :: "Registry \<Rightarrow> string \<Rightarrow> Namespace result" where
  "registry_Get r name =
     (case mget r name of None \<Rightarrow> Inl (NamespaceNotFoundError name) | Some ns \<Rightarrow> Inr ns)"

definition registry_List :: "Registry \<Rightarrow> Namespace list" where
  "registry_List r = sort_key Name (map snd r)"

section \<open>The manager\<close>

text \<open>
  A managed namespace: its static configuration and whether it has an assigner. Its cache and the
  assigner's store are those of the namespace's name.
\<close>

record managed =
  staticConfig :: Namespace
  has_assigner :: bool

record Manager =
  mgr_namespaces :: "managed list"
  mgr_byName :: "(string, managed) gomap"

definition newManager :: "managed list \<Rightarrow> Manager" where
  "newManager nss =
     \<lparr>mgr_namespaces = nss, mgr_byName = fold (\<lambda>ns m. mput (Name (staticConfig ns)) ns m) nss []\<rparr>"

definition newNamespace :: "Namespace \<Rightarrow> bool \<Rightarrow> managed" where
  "newNamespace nsCfg assigner = \<lparr>staticConfig = nsCfg, has_assigner = assigner\<rparr>"

definition manager_New :: "Registry \<Rightarrow> Manager" where
  "manager_New r =
     newManager (map (\<lambda>nsCfg. newNamespace nsCfg (NsType nsCfg = NamespaceTypeEphemeral)) (registry_List r))"

definition managed_Config :: "(string \<Rightarrow> int) \<Rightarrow> managed \<Rightarrow> Namespace" where
  "managed_Config fixedShardNum ns =
     EffectiveNamespace (staticConfig ns) (fixedShardNum (Name (staticConfig ns)))"

definition manager_Get :: "Manager \<Rightarrow> string \<Rightarrow> managed result" where
  "manager_Get m name =
     (case mget (mgr_byName m) name of None \<Rightarrow> Inl (NamespaceNotFoundError name) | Some ns \<Rightarrow> Inr ns)"

definition manager_List :: "Manager \<Rightarrow> managed list" where
  "manager_List m = mgr_namespaces m"

datatype component = CacheOf string | AssignerOf string

datatype lifecycle = Started component | Stopped component

definition startNamespace :: "(string \<Rightarrow> err option) \<Rightarrow> managed \<Rightarrow> err option \<times> lifecycle list" where
  "startNamespace cache_Start ns =
     (let name = Name (staticConfig ns)
      in case cache_Start name of
           Some e \<Rightarrow> (Some (Errorf (''start cache of namespace '' @ name) e), [])
         | None \<Rightarrow> (None, Started (CacheOf name) # (if has_assigner ns then [Started (AssignerOf name)] else [])))"

definition stopNamespace :: "managed \<Rightarrow> lifecycle list" where
  "stopNamespace ns =
     (let name = Name (staticConfig ns)
      in (if has_assigner ns then [Stopped (AssignerOf name)] else []) @ [Stopped (CacheOf name)])"

definition stopNamespaces :: "managed list \<Rightarrow> lifecycle list" where
  "stopNamespaces nss = concat (map stopNamespace (rev nss))"

fun Start_loop ::
    "(string \<Rightarrow> err option) \<Rightarrow> managed list \<Rightarrow> managed list \<Rightarrow> err option \<times> lifecycle list" where
  "Start_loop cache_Start before [] = (None, [])"
| "Start_loop cache_Start before (ns # nss) =
     (case startNamespace cache_Start ns of
        (Some e, calls) \<Rightarrow> (Some e, calls @ stopNamespaces before)
      | (None, calls) \<Rightarrow>
          (case Start_loop cache_Start (before @ [ns]) nss of (err, later) \<Rightarrow> (err, calls @ later)))"

definition manager_Start :: "(string \<Rightarrow> err option) \<Rightarrow> Manager \<Rightarrow> err option \<times> lifecycle list" where
  "manager_Start cache_Start m = Start_loop cache_Start [] (mgr_namespaces m)"

definition manager_Stop :: "Manager \<Rightarrow> lifecycle list" where
  "manager_Stop m = stopNamespaces (mgr_namespaces m)"

section \<open>The registry holds what was configured\<close>

lemma validate_type:
  "validate ns = None \<Longrightarrow> Name ns \<noteq> [] \<and> (NsType ns = NamespaceTypeFixed \<and> 0 < ShardNum ns \<or> NsType ns = NamespaceTypeEphemeral)"
  by (auto simp: validate_def split: if_splits)

lemma NewRegistry_loop_Inr:
  assumes "NewRegistry_loop nss byName = Inr r" "wf_map byName"
  shows "wf_map r \<and> distinct (map Name nss) \<and> (\<forall>ns \<in> set nss. \<not> mhas byName (Name ns))
    \<and> (\<forall>ns \<in> set nss. validate ns = None)
    \<and> (\<forall>name. mget r name = (case find (\<lambda>ns. Name ns = name) nss of Some ns \<Rightarrow> Some ns | None \<Rightarrow> mget byName name))"
  using assms
proof (induction nss arbitrary: byName)
  case (Cons ns nss)
  from Cons.prems have ok: "validate ns = None" "\<not> mhas byName (Name ns)"
    "NewRegistry_loop nss (mput (Name ns) ns byName) = Inr r"
    by (auto split: option.splits if_splits)
  note IH = Cons.IH [OF ok(3) wf_map_mput [OF Cons.prems(2)]]
  have fresh: "Name ns' \<noteq> Name ns \<and> \<not> mhas byName (Name ns')" if "ns' \<in> set nss" for ns'
    using IH that by (auto simp: mhas_def mget_mput split: if_splits)
  have "find (\<lambda>ns'. Name ns' = Name ns) nss = None" using fresh by (auto simp: find_None_iff)
  then show ?case
    using IH ok fresh by (fastforce simp: mget_mput split: option.splits)
qed simp

lemma NewRegistry_Inr:
  assumes "NewRegistry nss = Inr r"
  shows "wf_map r" "distinct (map Name nss)" "\<And>name. mget r name = find (\<lambda>ns. Name ns = name) nss"
    and "\<And>name ns. mget r name = Some ns \<Longrightarrow> Name ns = name \<and> validate ns = None"
proof -
  note loop = NewRegistry_loop_Inr [OF assms [unfolded NewRegistry_def] wf_map_Nil]
  show "wf_map r" "distinct (map Name nss)" using loop by auto
  show get: "mget r name = find (\<lambda>ns. Name ns = name) nss" for name
    using loop by (simp split: option.splits)
  show "Name ns = name \<and> validate ns = None" if "mget r name = Some ns" for name ns
    using that loop unfolding get by (auto simp: find_Some_iff)
qed

lemma names_of_registry:
  assumes "NewRegistry nss = Inr r"
  shows "map Name (map snd r) = mkeys r"
  using NewRegistry_Inr(1,4) [OF assms] by (auto simp: mget_eq_iff)

lemma registry_List_sorted:
  assumes "NewRegistry nss = Inr r"
  shows "sorted (map Name (registry_List r))" "distinct (map Name (registry_List r))"
    and "set (registry_List r) = set nss"
proof -
  show "sorted (map Name (registry_List r))" by (simp add: registry_List_def)
  have "distinct (map Name (map snd r))"
    using names_of_registry [OF assms] NewRegistry_Inr(1) [OF assms] by (simp only: wf_map_def)
  then show "distinct (map Name (registry_List r))"
    by (metis mset_map mset_sort registry_List_def mset_eq_imp_distinct_iff)
  show "set (registry_List r) = set nss"
  proof (intro set_eqI iffI)
    fix ns
    assume "ns \<in> set (registry_List r)"
    then obtain name where "(name, ns) \<in> set r" by (auto simp: registry_List_def)
    then show "ns \<in> set nss"
      using NewRegistry_Inr(1,3) [OF assms] by (metis find_Some_iff mget_eq_iff nth_mem)
  next
    fix ns
    assume ns: "ns \<in> set nss"
    then have "mget r (Name ns) = Some ns"
      using NewRegistry_Inr(2,3) [OF assms] by (auto simp: find_Some_iff in_set_conv_nth distinct_conv_nth)
    then show "ns \<in> set (registry_List r)"
      using NewRegistry_Inr(1) [OF assms] by (force simp: registry_List_def mget_eq_iff)
  qed
qed

section \<open>Starting and stopping\<close>

text \<open>
  The components that run after a sequence of calls, or \<open>None\<close> when a call is out of order: a
  component started while it runs or stopped while it does not (a second stop of a cache closes a
  closed channel), an assigner that outlives the cache it reads from.
\<close>

fun run_calls :: "lifecycle list \<Rightarrow> component list \<Rightarrow> component list option" where
  "run_calls [] running = Some running"
| "run_calls (Started c # calls) running =
     (if c \<in> set running \<or> (case c of AssignerOf n \<Rightarrow> CacheOf n \<notin> set running | CacheOf n \<Rightarrow> False) then None
      else run_calls calls (c # running))"
| "run_calls (Stopped c # calls) running =
     (if c \<notin> set running \<or> (case c of CacheOf n \<Rightarrow> AssignerOf n \<in> set running | AssignerOf n \<Rightarrow> False) then None
      else run_calls calls (removeAll c running))"

lemma run_calls_append:
  "run_calls (xs @ ys) running = (case run_calls xs running of None \<Rightarrow> None | Some r \<Rightarrow> run_calls ys r)"
  by (induction xs running rule: run_calls.induct) auto

definition components :: "managed \<Rightarrow> component list" where
  "components ns =
     (let name = Name (staticConfig ns)
      in (if has_assigner ns then [AssignerOf name] else []) @ [CacheOf name])"

definition stack :: "managed list \<Rightarrow> component list" where
  "stack nss = concat (map components (rev nss))"

lemma stack_names: "CacheOf n \<in> set (stack nss) \<or> AssignerOf n \<in> set (stack nss) \<Longrightarrow> n \<in> (\<lambda>ns. Name (staticConfig ns)) ` set nss"
  by (auto simp: stack_def components_def Let_def split: if_splits)

lemma run_start:
  assumes "startNamespace cache_Start ns = (None, calls)" "Name (staticConfig ns) \<notin> (\<lambda>ns. Name (staticConfig ns)) ` set before"
  shows "run_calls calls (stack before) = Some (stack (before @ [ns]))"
proof -
  have "CacheOf (Name (staticConfig ns)) \<notin> set (stack before)" "AssignerOf (Name (staticConfig ns)) \<notin> set (stack before)"
    using stack_names [of "Name (staticConfig ns)" before] assms(2) by auto
  moreover have "calls = Started (CacheOf (Name (staticConfig ns)))
      # (if has_assigner ns then [Started (AssignerOf (Name (staticConfig ns)))] else [])"
    using assms(1) by (auto simp: startNamespace_def Let_def split: option.splits)
  ultimately show ?thesis by (simp add: stack_def components_def Let_def)
qed

lemma run_stops:
  assumes "distinct (map (\<lambda>ns. Name (staticConfig ns)) nss)"
  shows "run_calls (stopNamespaces nss) (stack nss) = Some []"
  using assms
proof (induction nss rule: rev_induct)
  case (snoc ns nss)
  have "CacheOf (Name (staticConfig ns)) \<notin> set (stack nss)" "AssignerOf (Name (staticConfig ns)) \<notin> set (stack nss)"
    using stack_names [of "Name (staticConfig ns)" nss] snoc.prems by auto
  then have "run_calls (stopNamespace ns) (stack (nss @ [ns])) = Some (stack nss)"
    by (auto simp: stopNamespace_def stack_def components_def Let_def removeAll_id)
  then show ?case using snoc by (simp add: stopNamespaces_def run_calls_append)
qed (simp add: stopNamespaces_def stack_def)

lemma run_Start_loop:
  assumes "Start_loop cache_Start before nss = (err, calls)" "distinct (map (\<lambda>ns. Name (staticConfig ns)) (before @ nss))"
  shows "run_calls calls (stack before) = Some (if err = None then stack (before @ nss) else [])"
  using assms
proof (induction cache_Start before nss arbitrary: err calls rule: Start_loop.induct)
  case (2 cache_Start before ns nss)
  obtain e cs where st: "startNamespace cache_Start ns = (e, cs)" by fastforce
  show ?case
  proof (cases e)
    case None
    obtain err' later where rec: "Start_loop cache_Start (before @ [ns]) nss = (err', later)" by fastforce
    have "run_calls cs (stack before) = Some (stack (before @ [ns]))"
      using run_start [OF st [unfolded None]] "2.prems"(2) by auto
    moreover have "run_calls later (stack (before @ [ns])) = Some (if err' = None then stack (before @ ns # nss) else [])"
      using "2.IH" [OF st [symmetric] None rec] "2.prems"(2) by simp
    ultimately show ?thesis
      using "2.prems"(1) st rec None by (auto simp: run_calls_append)
  next
    case (Some e')
    have "cs = []" using st Some by (auto simp: startNamespace_def Let_def split: option.splits)
    then show ?thesis
      using "2.prems" st Some run_stops [of before] by auto
  qed
qed simp

lemma manager_New_namespaces:
  assumes "NewRegistry nss = Inr r"
  shows "distinct (map (\<lambda>ns. Name (staticConfig ns)) (mgr_namespaces (manager_New r)))"
  using registry_List_sorted(2) [OF assms] by (simp add: manager_New_def newManager_def newNamespace_def comp_def)

lemma mget_byName:
  assumes "distinct (map (\<lambda>ns. Name (staticConfig ns)) nss)"
  shows "mget (mgr_byName (newManager nss)) name = find (\<lambda>ns. Name (staticConfig ns) = name) nss"
proof -
  have "mget (fold (\<lambda>ns m. mput (Name (staticConfig ns)) ns m) nss m) name =
      (case find (\<lambda>ns. Name (staticConfig ns) = name) nss of Some ns \<Rightarrow> Some ns | None \<Rightarrow> mget m name)" for m
    using assms
  proof (induction nss arbitrary: m)
    case (Cons ns nss)
    have "find (\<lambda>ns'. Name (staticConfig ns') = Name (staticConfig ns)) nss = None"
      using Cons.prems by (auto simp: find_None_iff) (metis image_eqI)
    then show ?case using Cons by (auto simp: mget_mput split: option.splits)
  qed simp
  then show ?thesis by (simp add: newManager_def split: option.splits)
qed

lemma find_named:
  assumes "distinct (map Name cfgs)"
  shows "find (\<lambda>ns. Name (staticConfig ns) = name) (map (\<lambda>cfg. newNamespace cfg (f cfg)) cfgs) = Some ns \<longleftrightarrow>
    (\<exists>cfg \<in> set cfgs. Name cfg = name \<and> ns = newNamespace cfg (f cfg))"
  using assms
proof (induction cfgs)
  case (Cons cfg cfgs)
  then have "Name cfg \<notin> Name ` set cfgs" by simp
  then have "Name cfg' \<noteq> Name cfg" if "cfg' \<in> set cfgs" for cfg' using that by (metis image_eqI)
  then show ?case using Cons by (auto simp: newNamespace_def)
qed simp

text \<open>The manager serves exactly the configured namespaces, and an ephemeral one has an assigner.\<close>

lemma manager_Get_configured:
  assumes "NewRegistry nss = Inr r"
  shows "manager_Get (manager_New r) name = Inr ns \<longleftrightarrow>
    (\<exists>cfg \<in> set nss. Name cfg = name \<and> ns = newNamespace cfg (NsType cfg = NamespaceTypeEphemeral))"
proof -
  let ?mk = "\<lambda>cfg. newNamespace cfg (NsType cfg = NamespaceTypeEphemeral)"
  have "mget (mgr_byName (manager_New r)) name = find (\<lambda>ns. Name (staticConfig ns) = name) (map ?mk (registry_List r))"
    using manager_New_namespaces [OF assms] unfolding manager_New_def
    by (subst mget_byName) (auto simp: newManager_def)
  then have "manager_Get (manager_New r) name = Inr ns \<longleftrightarrow>
      find (\<lambda>ns. Name (staticConfig ns) = name) (map ?mk (registry_List r)) = Some ns"
    by (simp add: manager_Get_def split: option.splits)
  also have "\<dots> \<longleftrightarrow> (\<exists>cfg \<in> set (registry_List r). Name cfg = name \<and> ns = ?mk cfg)"
    by (rule find_named [OF registry_List_sorted(2) [OF assms]])
  finally show ?thesis using registry_List_sorted(3) [OF assms] by simp
qed

lemma ephemeral_has_assigner:
  assumes "NewRegistry nss = Inr r" "manager_Get (manager_New r) name = Inr ns"
    and "NsType (managed_Config fixedShardNum ns) = NamespaceTypeEphemeral"
  shows "has_assigner ns"
  using assms(2,3) by (auto simp: manager_Get_configured [OF assms(1)] managed_Config_def newNamespace_def
      EffectiveNamespace_def split: if_splits)

text \<open>
  C13. Whatever caches fail to start, the components of the namespaces are started and stopped in
  order: none is started or stopped twice, and an assigner never runs without the cache it reads.
  When the manager starts, the caches of all configured namespaces and the assigners of the
  ephemeral ones run, and stopping it stops them all; when it fails to start, nothing is left
  running.
\<close>

theorem manager_lifecycle:
  assumes "NewRegistry nss = Inr r" "manager_Start cache_Start (manager_New r) = (err, calls)"
  shows "if err = None
    then \<exists>running. run_calls calls [] = Some running
      \<and> (\<forall>n. CacheOf n \<in> set running \<longleftrightarrow> n \<in> Name ` set nss)
      \<and> (\<forall>n. AssignerOf n \<in> set running \<longleftrightarrow> n \<in> Name ` {ns \<in> set nss. NsType ns = NamespaceTypeEphemeral})
      \<and> run_calls (manager_Stop (manager_New r)) running = Some []
    else run_calls calls [] = Some []"
proof -
  let ?ms = "mgr_namespaces (manager_New r)"
  note distinct = manager_New_namespaces [OF assms(1)]
  have run: "run_calls calls [] = Some (if err = None then stack ?ms else [])"
    using run_Start_loop [OF assms(2) [unfolded manager_Start_def]] distinct by (simp add: stack_def)
  have ms: "set ?ms = (\<lambda>cfg. newNamespace cfg (NsType cfg = NamespaceTypeEphemeral)) ` set nss"
    using registry_List_sorted(3) [OF assms(1)] by (simp add: manager_New_def newManager_def)
  have "CacheOf n \<in> set (stack ?ms) \<longleftrightarrow> n \<in> Name ` set nss"
    "AssignerOf n \<in> set (stack ?ms) \<longleftrightarrow> n \<in> Name ` {ns \<in> set nss. NsType ns = NamespaceTypeEphemeral}" for n
    by (auto simp: stack_def ms components_def newNamespace_def Let_def)
  then show ?thesis
    using run run_stops [OF distinct] by (simp add: manager_Stop_def)
qed

definition demo_namespaces :: "Namespace list" where
  "demo_namespaces =
     [\<lparr>Name = ''queue'', NsType = NamespaceTypeFixed, ShardNum = 4\<rparr>,
      \<lparr>Name = ''canary'', NsType = NamespaceTypeEphemeral, ShardNum = 0\<rparr>]"

theorem manager_lifecycle_witness:
  "run_calls (snd (manager_Start (\<lambda>n. if n = ''queue'' then Some ContextCanceled else None)
     (manager_New (map (\<lambda>ns. (Name ns, ns)) demo_namespaces)))) [] = Some []"
proof -
  let ?cs = "\<lambda>n. if n = ''queue'' then Some ContextCanceled else None"
  let ?r = "map (\<lambda>ns. (Name ns, ns)) demo_namespaces"
  have reg: "NewRegistry demo_namespaces = Inr ?r" by code_simp
  have "fst (manager_Start ?cs (manager_New ?r)) \<noteq> None" by code_simp
  then show ?thesis
    using manager_lifecycle [OF reg prod.collapse [symmetric], of ?cs] by (simp only: if_False)
qed

end
