(* ===== verification/Handler.thy ===== *)
theory Handler
  imports Namespaces EphemeralAssigner EtcdStore
begin

text \<open>
  The handlers of the service's API, \<open>handler/handler.go\<close>, with the conversions of
  \<open>handler/mappers.go\<close>: one function per RPC. A handler reads the namespace manager, the caches and
  the store.

  \<^item> The state is the database and the caches of the namespaces; an RPC returns its answer or an error
    and the new state.
  \<^item> What a call meets is in \<open>call_env\<close>: the shared refreshes a cache miss starts, the answer of the
    assigner's batcher with what its flushes do to the database, the order of \<open>range\<close> loops.
  \<^item> A panic is the error \<open>RuntimeError\<close>: the handlers recover it and return it as an error.
\<close>

section \<open>The store behind the API\<close>

record ('db, 'g) ServiceStore = "('db, 'g) Store" +
  sv_GetExecutorState :: "'db \<Rightarrow> string \<Rightarrow> string \<Rightarrow> ExecutorState result"
  sv_RecordHeartbeat :: "'db \<Rightarrow> string \<Rightarrow> string \<Rightarrow> HeartbeatState \<Rightarrow> unit result \<times> 'db"
  sv_RecordShardStatistics ::
    "'db \<Rightarrow> string \<Rightarrow> string \<Rightarrow> int \<Rightarrow> (string, ShardStatistics) gomap \<Rightarrow> unit result \<times> 'db"
  sv_ResetNamespace :: "'db \<Rightarrow> string \<Rightarrow> int result \<times> 'db"
  sv_DrainShards :: "'db \<Rightarrow> string \<Rightarrow> string list \<Rightarrow> unit result \<times> 'db"
  sv_UndrainShards :: "'db \<Rightarrow> string \<Rightarrow> string list \<Rightarrow> string list result \<times> 'db"
  sv_GetDrainedShards :: "'db \<Rightarrow> string \<Rightarrow> string list result"
  sv_DrainHosts :: "'db \<Rightarrow> string \<Rightarrow> DrainedHost list \<Rightarrow> unit result \<times> 'db"
  sv_UndrainHosts :: "'db \<Rightarrow> string \<Rightarrow> string list \<Rightarrow> string list result \<times> 'db"
  sv_GetDrainedHosts :: "'db \<Rightarrow> string \<Rightarrow> DrainedHost list result"

definition etcd_service_store ::
    "order \<Rightarrow> (nat \<Rightarrow> 'db \<Rightarrow> 'db) \<Rightarrow> gotime \<Rightarrow> ('db, 'v) executorStoreImpl \<Rightarrow> ('db, 'v GuardFunc) ServiceStore" where
  "etcd_service_store ord env now s = Store.extend (etcd_store ord env s)
     (ServiceStore.fields (GetExecutorState s) (RecordHeartbeat s) (RecordShardStatistics s) (ResetNamespace s)
        (DrainShards s env) (UndrainShards s env) (GetDrainedShards s) (DrainHosts ord s env now)
        (UndrainHosts s env) (GetDrainedHosts s))"

section \<open>Conversions\<close>

text \<open>A loop that stores the converted value of every entry under its key.\<close>

definition convert_values :: "('v \<Rightarrow> 'w) \<Rightarrow> (string, 'v) gomap \<Rightarrow> (string, 'w) gomap" where
  "convert_values f m = fold (\<lambda>(k, v) out. mput k (f v) out) m []"

definition toTypesExecutorAssignedShards :: "order \<Rightarrow> AssignedState option \<Rightarrow> ExecutorAssignedShardState list" where
  "toTypesExecutorAssignedShards ord assigned =
     (case assigned of
        None \<Rightarrow> []
      | Some assigned \<Rightarrow>
          map (\<lambda>(shardKey, shardAssignment).
                 \<lparr>eas_ShardKey = shardKey, eas_AssignmentStatus = sa_Status shardAssignment,
                  eas_AssignedStateModRevision = ModRevision assigned\<rparr>)
            (mrange ord (AssignedShards assigned)))"

definition toTypesNamespaceExecutorState ::
    "order \<Rightarrow> string \<Rightarrow> HeartbeatState \<Rightarrow> AssignedState option \<Rightarrow> NamespaceExecutorState" where
  "toTypesNamespaceExecutorState ord executorID heartbeat assigned =
     \<lparr>nes_ExecutorID = executorID, nes_Status = hb_Status heartbeat, nes_LastHeartbeat = LastHeartbeat heartbeat,
      nes_Metadata = hb_Metadata heartbeat, nes_AssignedShards = toTypesExecutorAssignedShards ord assigned,
      nes_HostMetadata = hb_HostMetadata heartbeat\<rparr>"

definition toTypesHeartbeatStates :: "(string, HeartbeatState) gomap \<Rightarrow> (string, types_HeartbeatState) gomap" where
  "toTypesHeartbeatStates =
     convert_values (\<lambda>h. \<lparr>th_LastHeartbeat = LastHeartbeat h, th_Status = hb_Status h,
       th_ReportedShards = ReportedShards h, th_Metadata = hb_Metadata h\<rparr>)"

definition toTypesShardStatistics :: "(string, ShardStatistics) gomap \<Rightarrow> (string, types_ShardStatistics) gomap" where
  "toTypesShardStatistics =
     convert_values (\<lambda>s. \<lparr>ts_SmoothedLoad = SmoothedLoad s, ts_LastUpdateTime = LastUpdateTime s,
       ts_LastMoveTime = LastMoveTime s\<rparr>)"

definition toTypesShardHandoverStats ::
    "(string, ShardHandoverStats) gomap \<Rightarrow> (string, types_ShardHandoverStats) gomap" where
  "toTypesShardHandoverStats =
     convert_values (\<lambda>s. \<lparr>tho_PreviousExecutorLastHeartbeatTime = PreviousExecutorLastHeartbeatTime s,
       tho_HandoverType = sh_HandoverType s\<rparr>)"

definition toTypesAssignedStates :: "(string, AssignedState) gomap \<Rightarrow> (string, types_AssignedState) gomap" where
  "toTypesAssignedStates =
     convert_values (\<lambda>a. \<lparr>ta_AssignedShards = AssignedShards a,
       ta_ShardHandoverStats = toTypesShardHandoverStats (as_HandoverStats a),
       ta_LastUpdated = LastUpdated a, ta_ModRevision = ModRevision a\<rparr>)"

definition toTypesDrainedHost :: "DrainedHost \<Rightarrow> types_DrainedHost" where
  "toTypesDrainedHost h =
     \<lparr>td_Hostname = dh_Hostname h, td_DrainedAt = DrainedAt h, td_DrainedBy = DrainedBy h, td_Reason = dh_Reason h\<rparr>"

definition fromTypesDrainedHost :: "types_DrainedHost \<Rightarrow> DrainedHost" where
  "fromTypesDrainedHost h =
     \<lparr>dh_Hostname = td_Hostname h, DrainedAt = td_DrainedAt h, DrainedBy = td_DrainedBy h, dh_Reason = td_Reason h\<rparr>"

definition toTypesDrainedHosts :: "DrainedHost list \<Rightarrow> types_DrainedHost list" where
  "toTypesDrainedHosts hosts = map toTypesDrainedHost hosts"

definition fromTypesDrainedHosts :: "types_DrainedHost list \<Rightarrow> DrainedHost list" where
  "fromTypesDrainedHosts hosts = map fromTypesDrainedHost hosts"

definition toTypesDrainedHostsByName :: "(string, DrainedHost) gomap \<Rightarrow> (string, types_DrainedHost) gomap" where
  "toTypesDrainedHostsByName = convert_values toTypesDrainedHost"

definition toTypesShards :: "string list \<Rightarrow> Shard list" where
  "toTypesShards shardIDs = map (\<lambda>shardID. \<lparr>sh_ShardKey = shardID\<rparr>) shardIDs"

definition toTypesExecutorShardAssignments ::
    "(ShardOwner, string list) gomap \<Rightarrow> ExecutorShardAssignment list" where
  "toTypesExecutorShardAssignments assignments =
     map (\<lambda>(owner, shardIDs).
            \<lparr>esa_ExecutorID = so_ExecutorID owner, esa_AssignedShards = toTypesShards shardIDs,
             esa_Metadata = so_Metadata owner\<rparr>) assignments"

section \<open>The RPCs\<close>

record ('db, 'g) handlerImpl =
  h_namespaces :: Manager
  h_storage :: "('db, 'g) ServiceStore"
  h_fixedShardNum :: "string \<Rightarrow> int"

record 'db service_state =
  sv_db :: 'db
  sv_caches :: "string \<Rightarrow> shardCache"

record 'db call_env =
  drained_flight :: flight
  owner_flight :: flight
  submit_answer :: "string \<Rightarrow> 'db \<Rightarrow> GetShardOwnerResponse result \<times> 'db"
  range_order :: order

text \<open>The lookup of the cache, and the answers that both RPCs about a shard's owner share.\<close>

definition cache_lookup_owner ::
    "'db call_env \<Rightarrow> GetShardOwnerRequest \<Rightarrow> 'db service_state \<Rightarrow> ShardOwner result \<times> 'db service_state" where
  "cache_lookup_owner env request st =
     (case cache_GetShardOwner (drained_flight env) (owner_flight env) (gso_ShardKey request)
             (sv_caches st (gso_Namespace request)) of
        (res, c) \<Rightarrow> (res, st\<lparr>sv_caches := (sv_caches st)(gso_Namespace request := c)\<rparr>))"

definition owner_response :: "GetShardOwnerRequest \<Rightarrow> ShardOwner \<Rightarrow> GetShardOwnerResponse" where
  "owner_response request shardOwner =
     \<lparr>gr_Owner = so_ExecutorID shardOwner, gr_Namespace = gso_Namespace request,
      gr_Metadata = so_Metadata shardOwner\<rparr>"

definition handler_GetShardOwner ::
    "('db, 'g) handlerImpl \<Rightarrow> 'db call_env \<Rightarrow> GetShardOwnerRequest \<Rightarrow> 'db service_state
      \<Rightarrow> GetShardOwnerResponse result \<times> 'db service_state" where
  "handler_GetShardOwner h env request st =
     (case manager_Get (h_namespaces h) (gso_Namespace request) of
        Inl e \<Rightarrow> (Inl e, st)
      | Inr ns \<Rightarrow>
          (case cache_lookup_owner env request st of
             (Inr shardOwner, st) \<Rightarrow> (Inr (owner_response request shardOwner), st)
           | (Inl e, st) \<Rightarrow>
               if errors_Is e ErrShardDrained
               then (Inl (ShardDrainedError (gso_Namespace request) (gso_ShardKey request)), st)
               else if errors_Is e ErrShardNotFound
               then (if NsType (managed_Config (h_fixedShardNum h) ns) = NamespaceTypeEphemeral
                     then (if has_assigner ns
                           then (case submit_answer env (gso_ShardKey request) (sv_db st) of
                                   (answer, db) \<Rightarrow>
                                     (GetOrAssign (gso_Namespace request) (\<lambda>_. answer) (gso_ShardKey request),
                                      st\<lparr>sv_db := db\<rparr>))
                           else (Inl RuntimeError, st))
                     else (Inl (ShardNotFoundError (gso_Namespace request) (gso_ShardKey request)), st))
               else (Inl (InternalServiceError ''failed to get shard owner'' (Some e)), st)))"

definition InspectShard ::
    "('db, 'g) handlerImpl \<Rightarrow> 'db call_env \<Rightarrow> GetShardOwnerRequest \<Rightarrow> 'db service_state
      \<Rightarrow> GetShardOwnerResponse result \<times> 'db service_state" where
  "InspectShard h env request st =
     (case manager_Get (h_namespaces h) (gso_Namespace request) of
        Inl e \<Rightarrow> (Inl e, st)
      | Inr ns \<Rightarrow>
          (case cache_lookup_owner env request st of
             (Inr shardOwner, st) \<Rightarrow> (Inr (owner_response request shardOwner), st)
           | (Inl e, st) \<Rightarrow>
               (if errors_Is e ErrShardDrained
                then Inl (ShardDrainedError (gso_Namespace request) (gso_ShardKey request))
                else if errors_Is e ErrShardNotFound
                then Inl (ShardNotFoundError (gso_Namespace request) (gso_ShardKey request))
                else Inl (InternalServiceError ''failed to inspect shard owner'' (Some e)), st)))"

text \<open>The namespace check every other RPC begins with.\<close>

definition in_namespace ::
    "('db, 'g) handlerImpl \<Rightarrow> string \<Rightarrow> ('db service_state \<Rightarrow> 'a result \<times> 'db service_state)
      \<Rightarrow> 'db service_state \<Rightarrow> 'a result \<times> 'db service_state" where
  "in_namespace h namespace body st =
     (case manager_Get (h_namespaces h) namespace of Inl e \<Rightarrow> (Inl e, st) | Inr _ \<Rightarrow> body st)"

definition internal :: "string \<Rightarrow> 'a result \<Rightarrow> ('a \<Rightarrow> 'b) \<Rightarrow> 'b result" where
  "internal msg r f = (case r of Inl e \<Rightarrow> Inl (InternalServiceError msg (Some e)) | Inr x \<Rightarrow> Inr (f x))"

definition handler_GetNamespaceState ::
    "('db, 'g) handlerImpl \<Rightarrow> 'db call_env \<Rightarrow> GetNamespaceStateRequest \<Rightarrow> 'db service_state
      \<Rightarrow> GetNamespaceStateResponse result \<times> 'db service_state" where
  "handler_GetNamespaceState h env request =
     in_namespace h (gns_Namespace request) (\<lambda>st.
       (internal ''failed to get namespace state'' (GetState (h_storage h) (sv_db st) (gns_Namespace request))
          (\<lambda>state. \<lparr>gnr_Namespace = gns_Namespace request,
             gnr_Executors =
               map (\<lambda>(executorID, heartbeat).
                      toTypesNamespaceExecutorState (range_order env) executorID heartbeat
                        (Some (mzero zero_AssignedState (ShardAssignments state) executorID)))
                 (mrange (range_order env) (Executors state))\<rparr>), st))"

definition GetFullNamespaceState ::
    "('db, 'g) handlerImpl \<Rightarrow> GetFullNamespaceStateRequest \<Rightarrow> 'db service_state
      \<Rightarrow> GetFullNamespaceStateResponse result \<times> 'db service_state" where
  "GetFullNamespaceState h request =
     in_namespace h (gfn_Namespace request) (\<lambda>st.
       (internal ''failed to get full namespace state'' (GetState (h_storage h) (sv_db st) (gfn_Namespace request))
          (\<lambda>state. \<lparr>gfr_Namespace = gfn_Namespace request, gfr_Executors = toTypesHeartbeatStates (Executors state),
             gfr_ShardStats = toTypesShardStatistics (ShardStats state),
             gfr_ShardAssignments = toTypesAssignedStates (ShardAssignments state),
             gfr_DrainedShards = sort (DrainedShards state),
             gfr_DrainedHosts = toTypesDrainedHostsByName (DrainedHosts state)\<rparr>), st))"

definition handler_GetExecutorState ::
    "('db, 'g) handlerImpl \<Rightarrow> 'db call_env \<Rightarrow> GetExecutorStateRequest \<Rightarrow> 'db service_state
      \<Rightarrow> GetExecutorStateResponse result \<times> 'db service_state" where
  "handler_GetExecutorState h env request =
     in_namespace h (ges_Namespace request) (\<lambda>st.
       (case sv_GetExecutorState (h_storage h) (sv_db st) (ges_Namespace request) (ges_ExecutorID request) of
          Inl e \<Rightarrow>
            (if errors_Is e ErrExecutorNotFound
             then Inl (EntityNotExistsError (''executor not found '' @ ges_Namespace request @ '':'' @ ges_ExecutorID request))
             else Inl (InternalServiceError ''failed to get executor state'' (Some e)), st)
        | Inr executorState \<Rightarrow>
            (case es_Heartbeat executorState of
               None \<Rightarrow> Inl RuntimeError
             | Some heartbeat \<Rightarrow>
                 Inr \<lparr>ger_Namespace = ges_Namespace request,
                      ger_Executor = Some (toTypesNamespaceExecutorState (range_order env) (ges_ExecutorID request)
                        heartbeat (es_Assignment executorState))\<rparr>, st)))"

definition ForceResetNamespace ::
    "('db, 'g) handlerImpl \<Rightarrow> ForceResetNamespaceRequest \<Rightarrow> 'db service_state
      \<Rightarrow> ForceResetNamespaceResponse result \<times> 'db service_state" where
  "ForceResetNamespace h request =
     in_namespace h (frn_Namespace request) (\<lambda>st.
       (case sv_ResetNamespace (h_storage h) (sv_db st) (frn_Namespace request) of
          (res, db) \<Rightarrow> (internal ''failed to reset namespace'' res (\<lambda>deleted. \<lparr>frr_DeletedKeys = deleted\<rparr>),
            st\<lparr>sv_db := db\<rparr>)))"

definition ListNamespaces :: "('db, 'g) handlerImpl \<Rightarrow> ListNamespacesResponse" where
  "ListNamespaces h =
     \<lparr>ln_Namespaces =
        map (\<lambda>ns. let cfg = managed_Config (h_fixedShardNum h) ns
                  in \<lparr>nc_Name = Name cfg, nc_Type = NsType cfg, nc_Mode = ''onboarded'', nc_ShardNum = ShardNum cfg\<rparr>)
          (manager_List (h_namespaces h))\<rparr>"

definition GetNamespaceStateIfNewer :: "'a result" where
  "GetNamespaceStateIfNewer = Inl (StatusError ''GetNamespaceStateIfNewer is not implemented'')"

fun validateShardKeys_loop :: "string list \<Rightarrow> unit result" where
  "validateShardKeys_loop [] = Inr ()"
| "validateShardKeys_loop (shardKey # shardKeys) =
     (if shardKey = [] \<or> CHR ''/'' \<in> set shardKey
      then Inl (BadRequestError (''invalid shard key '' @ shardKey @ '': must be non-empty and must not contain /''))
      else validateShardKeys_loop shardKeys)"

definition validateShardKeys :: "string list \<Rightarrow> unit result" where
  "validateShardKeys shardKeys =
     (if length shardKeys = 0 then Inl (BadRequestError ''shard keys must not be empty'')
      else validateShardKeys_loop shardKeys)"

text \<open>The message of the rejected name is the one \<open>hostname.Validate\<close> gives.\<close>

fun validateHostnames_loop :: "string list \<Rightarrow> unit result" where
  "validateHostnames_loop [] = Inr ()"
| "validateHostnames_loop (name # names) =
     (case Validate name of
        Inl (ErrorString msg) \<Rightarrow> Inl (BadRequestError msg)
      | Inl _ \<Rightarrow> Inl (BadRequestError [])
      | Inr _ \<Rightarrow> validateHostnames_loop names)"

definition validateHostnames :: "string list \<Rightarrow> unit result" where
  "validateHostnames hostnames =
     (if length hostnames = 0 then Inl (BadRequestError ''hostnames must not be empty'')
      else validateHostnames_loop hostnames)"

definition handler_DrainShards ::
    "('db, 'g) handlerImpl \<Rightarrow> DrainShardsRequest \<Rightarrow> 'db service_state \<Rightarrow> unit result \<times> 'db service_state" where
  "handler_DrainShards h request =
     in_namespace h (dsr_Namespace request) (\<lambda>st.
       (case validateShardKeys (dsr_ShardKeys request) of
          Inl e \<Rightarrow> (Inl e, st)
        | Inr _ \<Rightarrow>
            (case sv_DrainShards (h_storage h) (sv_db st) (dsr_Namespace request) (dsr_ShardKeys request) of
               (res, db) \<Rightarrow> (internal ''failed to drain shards'' res id, st\<lparr>sv_db := db\<rparr>))))"

definition handler_UndrainShards ::
    "('db, 'g) handlerImpl \<Rightarrow> UndrainShardsRequest \<Rightarrow> 'db service_state
      \<Rightarrow> UndrainShardsResponse result \<times> 'db service_state" where
  "handler_UndrainShards h request =
     in_namespace h (usr_Namespace request) (\<lambda>st.
       (case validateShardKeys (usr_ShardKeys request) of
          Inl e \<Rightarrow> (Inl e, st)
        | Inr _ \<Rightarrow>
            (case sv_UndrainShards (h_storage h) (sv_db st) (usr_Namespace request) (usr_ShardKeys request) of
               (res, db) \<Rightarrow> (internal ''failed to undrain shards'' res (\<lambda>ids. \<lparr>usp_UndrainedShardKeys = ids\<rparr>),
                 st\<lparr>sv_db := db\<rparr>))))"

definition handler_GetDrainedShards ::
    "('db, 'g) handlerImpl \<Rightarrow> GetDrainedShardsRequest \<Rightarrow> 'db service_state
      \<Rightarrow> GetDrainedShardsResponse result \<times> 'db service_state" where
  "handler_GetDrainedShards h request =
     in_namespace h (gds_Namespace request) (\<lambda>st.
       (internal ''failed to get drained shards'' (sv_GetDrainedShards (h_storage h) (sv_db st) (gds_Namespace request))
          (\<lambda>shardKeys. \<lparr>gdr_Namespace = gds_Namespace request, gdr_ShardKeys = shardKeys\<rparr>), st))"

definition handler_DrainHosts ::
    "('db, 'g) handlerImpl \<Rightarrow> DrainHostsRequest \<Rightarrow> 'db service_state \<Rightarrow> unit result \<times> 'db service_state" where
  "handler_DrainHosts h request =
     in_namespace h (dhr_Namespace request) (\<lambda>st.
       (let hosts = fromTypesDrainedHosts (dhr_Hosts request)
        in case validateHostnames (map dh_Hostname hosts) of
             Inl e \<Rightarrow> (Inl e, st)
           | Inr _ \<Rightarrow>
               (case sv_DrainHosts (h_storage h) (sv_db st) (dhr_Namespace request) hosts of
                  (res, db) \<Rightarrow> (internal ''failed to drain hosts'' res id, st\<lparr>sv_db := db\<rparr>))))"

definition handler_UndrainHosts ::
    "('db, 'g) handlerImpl \<Rightarrow> UndrainHostsRequest \<Rightarrow> 'db service_state
      \<Rightarrow> UndrainHostsResponse result \<times> 'db service_state" where
  "handler_UndrainHosts h request =
     in_namespace h (uhr_Namespace request) (\<lambda>st.
       (case validateHostnames (uhr_Hostnames request) of
          Inl e \<Rightarrow> (Inl e, st)
        | Inr _ \<Rightarrow>
            (case sv_UndrainHosts (h_storage h) (sv_db st) (uhr_Namespace request) (uhr_Hostnames request) of
               (res, db) \<Rightarrow> (internal ''failed to undrain hosts'' res (\<lambda>names. \<lparr>uhp_UndrainedHostnames = names\<rparr>),
                 st\<lparr>sv_db := db\<rparr>))))"

definition handler_GetDrainedHosts ::
    "('db, 'g) handlerImpl \<Rightarrow> GetDrainedHostsRequest \<Rightarrow> 'db service_state
      \<Rightarrow> GetDrainedHostsResponse result \<times> 'db service_state" where
  "handler_GetDrainedHosts h request =
     in_namespace h (gdh_Namespace request) (\<lambda>st.
       (internal ''failed to get drained hosts'' (sv_GetDrainedHosts (h_storage h) (sv_db st) (gdh_Namespace request))
          (\<lambda>hosts. \<lparr>ghr_Namespace = gdh_Namespace request, ghr_Hosts = toTypesDrainedHosts hosts\<rparr>), st))"

end
