(* ===== verification/ExecutorHandler.thy ===== *)
theory ExecutorHandler
  imports Handler
begin

text \<open>
  The heartbeat of an executor, \<open>handler/executor.go\<close>: read the executor's record, write the
  heartbeat, update the load statistics of its shards, answer with its assignment.

  \<^item> Other clients may write between the steps; \<open>hb_other i\<close> is what they do before the \<open>i\<close>-th write.
  \<^item> The metrics are returned as the list of the samples, which is not part of the answer.
\<close>

section \<open>Validation\<close>

definition maxMetadataKeys :: nat where "maxMetadataKeys = 32"
definition maxMetadataKeyLength :: nat where "maxMetadataKeyLength = 128"
definition maxMetadataValueSize :: nat where "maxMetadataValueSize = 512 * 1024"

fun validateMetadata_loop :: "(string \<times> string) list \<Rightarrow> err option" where
  "validateMetadata_loop [] = None"
| "validateMetadata_loop ((key, val) # entries) =
     (if maxMetadataKeyLength < length key then Some (ErrorString ''metadata key exceeds the maximum length'')
      else if maxMetadataValueSize < length val then Some (ErrorString ''metadata value exceeds the maximum size'')
      else validateMetadata_loop entries)"

definition validateMetadata :: "order \<Rightarrow> (string, string) gomap \<Rightarrow> err option" where
  "validateMetadata ord metadata =
     (if maxMetadataKeys < length metadata then Some (ErrorString ''metadata exceeds the maximum number of keys'')
      else validateMetadata_loop (mrange ord metadata))"

definition normalizeHostMetadata :: "HostMetadata option \<Rightarrow> HostMetadata option" where
  "normalizeHostMetadata metadata =
     (case metadata of None \<Rightarrow> None | Some m \<Rightarrow> Some \<lparr>HostName = Normalize (HostName m)\<rparr>)"

section \<open>The heartbeat\<close>

record ('db, 'g) executor =
  ex_namespaces :: Registry
  ex_storage :: "('db, 'g) ServiceStore"
  ex_sdConfig :: "string \<Rightarrow> Config"

record 'db heartbeat_env =
  hb_now :: gotime
  hb_order :: order
  hb_other :: "nat \<Rightarrow> 'db \<Rightarrow> 'db"

definition zero_ExecutorState :: ExecutorState where
  "zero_ExecutorState = \<lparr>es_Heartbeat = None, es_Assignment = None, es_Statistics = []\<rparr>"

definition convertResponse :: "AssignedState option \<Rightarrow> MigrationMode \<Rightarrow> ExecutorHeartbeatResponse" where
  "convertResponse shards mode =
     (case shards of
        None \<Rightarrow> \<lparr>ehp_ShardAssignments = [], ehp_MigrationMode = mode\<rparr>
      | Some shards \<Rightarrow> \<lparr>ehp_ShardAssignments = AssignedShards shards, ehp_MigrationMode = mode\<rparr>)"

text \<open>Its errors are logged and do not fail the heartbeat.\<close>

definition recordShardStatistics ::
    "('db, 'g) executor \<Rightarrow> ExecutorHeartbeatRequest \<Rightarrow> AssignedState option \<Rightarrow> (string, ShardStatistics) gomap
      \<Rightarrow> gotime \<Rightarrow> 'db \<Rightarrow> 'db" where
  "recordShardStatistics h request assignedState previousStats now db =
     (case lb_PrepareShardStatistics (ex_sdConfig h (ehr_Namespace request)) (ehr_ShardStatusReports request)
             assignedState previousStats now of
        Inl _ \<Rightarrow> db
      | Inr (updatedStats, shouldWrite) \<Rightarrow>
          if \<not> shouldWrite then db
          else (case assignedState of
                  None \<Rightarrow> db
                | Some assigned \<Rightarrow>
                    snd (sv_RecordShardStatistics (ex_storage h) db (ehr_Namespace request) (ehr_ExecutorID request)
                           (ModRevision assigned) updatedStats)))"

definition newHeartbeat :: "gotime \<Rightarrow> ExecutorHeartbeatRequest \<Rightarrow> ExecutorState \<Rightarrow> HeartbeatState" where
  "newHeartbeat heartbeatTime request executorState =
     (let new = \<lparr>LastHeartbeat = heartbeatTime, hb_Status = ehr_Status request,
                 ReportedShards = ehr_ShardStatusReports request, hb_Metadata = ehr_Metadata request,
                 hb_HostMetadata = normalizeHostMetadata (ehr_HostMetadata request)\<rparr>
      in case es_Heartbeat executorState of
           None \<Rightarrow> new
         | Some previous \<Rightarrow>
             if heartbeat_Hostname previous = heartbeat_Hostname new then new\<lparr>hb_HostMetadata := None\<rparr> else new)"

definition Heartbeat_record ::
    "('db, 'g) executor \<Rightarrow> 'db heartbeat_env \<Rightarrow> ExecutorHeartbeatRequest \<Rightarrow> ExecutorState \<Rightarrow> 'db
      \<Rightarrow> ExecutorHeartbeatResponse result \<times> 'db" where
  "Heartbeat_record h env request executorState db =
     (case validateMetadata (hb_order env) (ehr_Metadata request) of
        Some e \<Rightarrow> (Inl (BadRequestValue ''invalid metadata''), db)
      | None \<Rightarrow>
          (case sv_RecordHeartbeat (ex_storage h) (hb_other env 0 db) (ehr_Namespace request) (ehr_ExecutorID request)
                  (newHeartbeat (hb_now env) request executorState) of
             (Inl e, db) \<Rightarrow> (Inl (InternalServiceError ''failed to record heartbeat'' (Some e)), db)
           | (Inr _, db) \<Rightarrow>
               (Inr (convertResponse (es_Assignment executorState) MigrationModeONBOARDED),
                recordShardStatistics h request (es_Assignment executorState) (es_Statistics executorState)
                  (hb_now env) (hb_other env 1 db))))"

definition Heartbeat ::
    "('db, 'g) executor \<Rightarrow> 'db heartbeat_env \<Rightarrow> ExecutorHeartbeatRequest \<Rightarrow> 'db
      \<Rightarrow> ExecutorHeartbeatResponse result \<times> 'db" where
  "Heartbeat h env request db =
     (case registry_Get (ex_namespaces h) (ehr_Namespace request) of
        Inl e \<Rightarrow> (Inl e, db)
      | Inr _ \<Rightarrow>
          (case sv_GetExecutorState (ex_storage h) db (ehr_Namespace request) (ehr_ExecutorID request) of
             Inl e \<Rightarrow>
               if \<not> errors_Is e ErrExecutorNotFound
               then (Inl (InternalServiceError ''failed to get heartbeat'' (Some e)), db)
               else Heartbeat_record h env request zero_ExecutorState db
           | Inr executorState \<Rightarrow> Heartbeat_record h env request executorState db))"

section \<open>Metrics\<close>

definition shardInReportedShards :: "(string, ShardStatusReport) gomap \<Rightarrow> string \<Rightarrow> bool" where
  "shardInReportedShards reportedShards shardID = mhas reportedShards shardID"

definition filterNewlyAssignedShardIDs ::
    "order \<Rightarrow> HeartbeatState option \<Rightarrow> AssignedState option \<Rightarrow> string list" where
  "filterNewlyAssignedShardIDs ord previousHeartbeat assignedState =
     (case assignedState of
        None \<Rightarrow> []
      | Some assigned \<Rightarrow>
          filter (\<lambda>shardID. case previousHeartbeat of
                              None \<Rightarrow> True
                            | Some previous \<Rightarrow> \<not> shardInReportedShards (ReportedShards previous) shardID)
            (map fst (mrange ord (AssignedShards assigned))))"

datatype latency_sample =
    AssignmentDistributionLatency duration
  | HandoverLatency HandoverType duration

definition emitShardAssignmentMetrics ::
    "order \<Rightarrow> gotime \<Rightarrow> HeartbeatState option \<Rightarrow> AssignedState option \<Rightarrow> latency_sample list" where
  "emitShardAssignmentMetrics ord heartbeatTime previousHeartbeat assignedState =
     (let newAssignedShardIDs = filterNewlyAssignedShardIDs ord previousHeartbeat assignedState
      in case assignedState of
           None \<Rightarrow> []
         | Some assigned \<Rightarrow>
             if length newAssignedShardIDs = 0 then []
             else if \<not> (case previousHeartbeat of None \<Rightarrow> True | Some p \<Rightarrow> LastHeartbeat p < LastUpdated assigned)
             then []
             else AssignmentDistributionLatency (time_Sub heartbeatTime (LastUpdated assigned))
                  # List.map_filter (\<lambda>shardID.
                      map_option (\<lambda>stats. HandoverLatency (sh_HandoverType stats)
                          (time_Sub heartbeatTime (PreviousExecutorLastHeartbeatTime stats)))
                        (mget (as_HandoverStats assigned) shardID)) newAssignedShardIDs)"

end
