(* ===== verification/Service.thy ===== *)
theory Service
  imports ExecutorHandler StoreRefinement
begin

text \<open>
  The server's stack around the handlers: the access control of
  \<open>wrappers/accesscontrolled/access_controlled.go\<close>, the translation of errors to and from the wire of
  \<open>common/types/mapper/proto/errors.go\<close>, and the gRPC layer of \<open>wrappers/grpc\<close>. The metered layer
  between them emits metrics only.

  \<^item> A call of the API is a value of \<open>api_call\<close>, one constructor per RPC, and its answer a value of
    \<open>api_reply\<close>.
  \<^item> The RPC framework is not part of the repository. Its errors are a type parameter, and \<open>yarpc\<close>
    holds the functions the code calls, with what their documentation promises in \<open>yarpc_ok\<close>. The
    transport hands the client the error the server returned.
  \<^item> The texts of errors are shorter than the source's where those print arguments.
\<close>

section \<open>Calls of the API\<close>

datatype api_call =
    DrainHosts_call DrainHostsRequest
  | DrainShards_call DrainShardsRequest
  | ForceResetNamespace_call ForceResetNamespaceRequest
  | GetDrainedHosts_call GetDrainedHostsRequest
  | GetDrainedShards_call GetDrainedShardsRequest
  | GetExecutorState_call GetExecutorStateRequest
  | GetFullNamespaceState_call GetFullNamespaceStateRequest
  | GetNamespaceState_call GetNamespaceStateRequest
  | GetNamespaceStateIfNewer_call string
  | GetShardOwner_call GetShardOwnerRequest
  | InspectShard_call GetShardOwnerRequest
  | ListNamespaces_call
  | UndrainHosts_call UndrainHostsRequest
  | UndrainShards_call UndrainShardsRequest

datatype api_reply =
    Done_reply
  | Reset_reply ForceResetNamespaceResponse
  | DrainedHosts_reply GetDrainedHostsResponse
  | DrainedShards_reply GetDrainedShardsResponse
  | ExecutorState_reply GetExecutorStateResponse
  | FullNamespaceState_reply GetFullNamespaceStateResponse
  | NamespaceState_reply GetNamespaceStateResponse
  | Owner_reply GetShardOwnerResponse
  | Namespaces_reply ListNamespacesResponse
  | UndrainedHosts_reply UndrainHostsResponse
  | UndrainedShards_reply UndrainShardsResponse

fun handler_call ::
    "('db, 'g) handlerImpl \<Rightarrow> 'db call_env \<Rightarrow> api_call \<Rightarrow> 'db service_state \<Rightarrow> api_reply result \<times> 'db service_state" where
  "handler_call h env (DrainHosts_call r) st = apfst (map_sum id (\<lambda>_. Done_reply)) (handler_DrainHosts h r st)"
| "handler_call h env (DrainShards_call r) st = apfst (map_sum id (\<lambda>_. Done_reply)) (handler_DrainShards h r st)"
| "handler_call h env (ForceResetNamespace_call r) st = apfst (map_sum id Reset_reply) (ForceResetNamespace h r st)"
| "handler_call h env (GetDrainedHosts_call r) st = apfst (map_sum id DrainedHosts_reply) (handler_GetDrainedHosts h r st)"
| "handler_call h env (GetDrainedShards_call r) st = apfst (map_sum id DrainedShards_reply) (handler_GetDrainedShards h r st)"
| "handler_call h env (GetExecutorState_call r) st = apfst (map_sum id ExecutorState_reply) (handler_GetExecutorState h env r st)"
| "handler_call h env (GetFullNamespaceState_call r) st = apfst (map_sum id FullNamespaceState_reply) (GetFullNamespaceState h r st)"
| "handler_call h env (GetNamespaceState_call r) st = apfst (map_sum id NamespaceState_reply) (handler_GetNamespaceState h env r st)"
| "handler_call h env (GetNamespaceStateIfNewer_call _) st = (GetNamespaceStateIfNewer, st)"
| "handler_call h env (GetShardOwner_call r) st = apfst (map_sum id Owner_reply) (handler_GetShardOwner h env r st)"
| "handler_call h env (InspectShard_call r) st = apfst (map_sum id Owner_reply) (InspectShard h env r st)"
| "handler_call h env ListNamespaces_call st = (Inr (Namespaces_reply (ListNamespaces h)), st)"
| "handler_call h env (UndrainHosts_call r) st = apfst (map_sum id UndrainedHosts_reply) (handler_UndrainHosts h r st)"
| "handler_call h env (UndrainShards_call r) st = apfst (map_sum id UndrainedShards_reply) (handler_UndrainShards h r st)"

section \<open>Access control\<close>

datatype Permission = PermissionRead | PermissionWrite | PermissionAdmin

datatype Decision = DecisionDeny | DecisionAllow

record Attributes =
  at_APIName :: string
  at_Namespace :: string
  at_Permission :: Permission

type_synonym Authorizer = "Attributes \<Rightarrow> Decision result"

definition nopAuthorizer :: Authorizer where
  "nopAuthorizer _ = Inr DecisionAllow"

definition errUnauthorized :: err where
  "errUnauthorized = AccessDeniedError ''Request unauthorized.''"

definition authorize :: "Authorizer \<Rightarrow> string \<Rightarrow> string \<Rightarrow> Permission \<Rightarrow> err option" where
  "authorize authorizer apiName namespace permission =
     (case authorizer \<lparr>at_APIName = apiName, at_Namespace = namespace, at_Permission = permission\<rparr> of
        Inl e \<Rightarrow> Some e
      | Inr decision \<Rightarrow> if decision \<noteq> DecisionAllow then Some errUnauthorized else None)"

definition checked ::
    "err option \<Rightarrow> ('st \<Rightarrow> api_reply result \<times> 'st) \<Rightarrow> 'st \<Rightarrow> api_reply result \<times> 'st" where
  "checked denied call st = (case denied of Some e \<Rightarrow> (Inl e, st) | None \<Rightarrow> call st)"

fun access_call ::
    "Authorizer \<Rightarrow> (api_call \<Rightarrow> 'st \<Rightarrow> api_reply result \<times> 'st) \<Rightarrow> api_call \<Rightarrow> 'st \<Rightarrow> api_reply result \<times> 'st" where
  "access_call a h (InspectShard_call r) =
     checked (authorize a ''InspectShard'' (gso_Namespace r) PermissionRead) (h (InspectShard_call r))"
| "access_call a h (GetNamespaceState_call r) =
     checked (authorize a ''GetNamespaceState'' (gns_Namespace r) PermissionRead) (h (GetNamespaceState_call r))"
| "access_call a h (GetFullNamespaceState_call r) =
     checked (authorize a ''GetFullNamespaceState'' (gfn_Namespace r) PermissionRead) (h (GetFullNamespaceState_call r))"
| "access_call a h (GetExecutorState_call r) =
     checked (authorize a ''GetExecutorState'' (ges_Namespace r) PermissionRead) (h (GetExecutorState_call r))"
| "access_call a h ListNamespaces_call =
     checked (authorize a ''ListNamespaces'' '''' PermissionAdmin) (h ListNamespaces_call)"
| "access_call a h (ForceResetNamespace_call r) =
     checked (authorize a ''ForceResetNamespace'' (frn_Namespace r) PermissionAdmin) (h (ForceResetNamespace_call r))"
| "access_call a h (DrainShards_call r) =
     checked (authorize a ''DrainShards'' (dsr_Namespace r) PermissionAdmin) (h (DrainShards_call r))"
| "access_call a h (UndrainShards_call r) =
     checked (authorize a ''UndrainShards'' (usr_Namespace r) PermissionAdmin) (h (UndrainShards_call r))"
| "access_call a h (GetDrainedShards_call r) =
     checked (authorize a ''GetDrainedShards'' (gds_Namespace r) PermissionRead) (h (GetDrainedShards_call r))"
| "access_call a h (DrainHosts_call r) =
     checked (authorize a ''DrainHosts'' (dhr_Namespace r) PermissionAdmin) (h (DrainHosts_call r))"
| "access_call a h (UndrainHosts_call r) =
     checked (authorize a ''UndrainHosts'' (uhr_Namespace r) PermissionAdmin) (h (UndrainHosts_call r))"
| "access_call a h (GetDrainedHosts_call r) =
     checked (authorize a ''GetDrainedHosts'' (gdh_Namespace r) PermissionRead) (h (GetDrainedHosts_call r))"
| "access_call a h (GetNamespaceStateIfNewer_call n) = h (GetNamespaceStateIfNewer_call n)"
| "access_call a h (GetShardOwner_call r) = h (GetShardOwner_call r)"

section \<open>Errors on the wire\<close>

fun Error :: "(nat \<Rightarrow> string) \<Rightarrow> err \<Rightarrow> string" where
  "Error ext ErrExecutorNotFound = ''executor not found''"
| "Error ext ErrShardNotFound = ''shard not found''"
| "Error ext ErrShardDrained = ''shard drained''"
| "Error ext ErrVersionConflict = ''version conflict''"
| "Error ext ErrExecutorNotRunning = ''executor not running''"
| "Error ext ErrNoActiveExecutors = ''no active executors available''"
| "Error ext (NamespaceNotFoundError n) = ''namespace '' @ n @ '' not found''"
| "Error ext (ShardNotFoundError n k) = ''shard not found '' @ n @ '':'' @ k"
| "Error ext (ShardDrainedError n k) = ''shard drained '' @ n @ '':'' @ k"
| "Error ext (BadRequestError msg) = msg"
| "Error ext (BadRequestValue msg) = msg"
| "Error ext (AccessDeniedError msg) = msg"
| "Error ext (EntityNotExistsError msg) = msg"
| "Error ext (InternalServiceError msg None) = msg"
| "Error ext (InternalServiceError msg (Some e)) = msg @ '': '' @ Error ext e"
| "Error ext (ServiceBusyError msg) = msg"
| "Error ext (ErrorString msg) = msg"
| "Error ext (Errorf msg e) = msg @ '': '' @ Error ext e"
| "Error ext ContextCanceled = ''context canceled''"
| "Error ext DeadlineExceeded = ''context deadline exceeded''"
| "Error ext (JoinError e\<^sub>1 e\<^sub>2) = Error ext e\<^sub>1 @ CHR 0x0A # Error ext e\<^sub>2"
| "Error ext (StatusError msg) = msg"
| "Error ext RuntimeError = ''runtime error''"
| "Error ext (ExternalError n) = ext n"

datatype Code = CodeOK | CodeUnknown | CodeInvalidArgument | CodeNotFound | CodeFailedPrecondition | CodeUnimplemented
  | CodeInternal | CodeOther nat

datatype detail =
    NamespaceNotFoundDetail string
  | ShardNotFoundDetail string string
  | ShardDrainedDetail string string
  | OtherDetail nat

record 'e yarpc =
  NewError :: "Code \<Rightarrow> string \<Rightarrow> detail list \<Rightarrow> 'e option"
  UnimplementedErrorf :: "string \<Rightarrow> 'e"
  status_Code :: "'e \<Rightarrow> Code"
  status_Message :: "'e \<Rightarrow> string"
  GetErrorDetails :: "'e \<Rightarrow> detail list"

definition FromError :: "'e yarpc \<Rightarrow> (nat \<Rightarrow> string) \<Rightarrow> err option \<Rightarrow> 'e option" where
  "FromError y ext err =
     (case err of
        None \<Rightarrow> NewError y CodeOK '''' []
      | Some e \<Rightarrow>
          (case e of
             InternalServiceError _ _ \<Rightarrow> NewError y CodeInternal (Error ext e) []
           | BadRequestError msg \<Rightarrow> NewError y CodeInvalidArgument msg []
           | NamespaceNotFoundError n \<Rightarrow> NewError y CodeNotFound (Error ext e) [NamespaceNotFoundDetail n]
           | ShardNotFoundError n k \<Rightarrow> NewError y CodeNotFound (Error ext e) [ShardNotFoundDetail n k]
           | ShardDrainedError n k \<Rightarrow> NewError y CodeFailedPrecondition (Error ext e) [ShardDrainedDetail n k]
           | StatusError msg \<Rightarrow> Some (UnimplementedErrorf y msg)
           | _ \<Rightarrow> NewError y CodeUnknown (Error ext e) []))"

definition getErrorDetails :: "'e yarpc \<Rightarrow> 'e \<Rightarrow> detail option" where
  "getErrorDetails y e = (case GetErrorDetails y e of [] \<Rightarrow> None | d # _ \<Rightarrow> Some d)"

datatype 'e client_error = ApiError err | RawStatus 'e

definition ToError :: "'e yarpc \<Rightarrow> 'e option \<Rightarrow> 'e client_error option" where
  "ToError y err =
     (case err of
        None \<Rightarrow> None
      | Some e \<Rightarrow>
          (case status_Code y e of
             CodeOK \<Rightarrow> None
           | CodeInternal \<Rightarrow> Some (ApiError (InternalServiceError (status_Message y e) None))
           | CodeNotFound \<Rightarrow>
               (case getErrorDetails y e of
                  Some (NamespaceNotFoundDetail n) \<Rightarrow> Some (ApiError (NamespaceNotFoundError n))
                | Some (ShardNotFoundDetail n k) \<Rightarrow> Some (ApiError (ShardNotFoundError n k))
                | _ \<Rightarrow> Some (RawStatus e))
           | CodeFailedPrecondition \<Rightarrow>
               (case getErrorDetails y e of
                  Some (ShardDrainedDetail n k) \<Rightarrow> Some (ApiError (ShardDrainedError n k))
                | _ \<Rightarrow> Some (RawStatus e))
           | CodeInvalidArgument \<Rightarrow> Some (ApiError (BadRequestError (status_Message y e)))
           | _ \<Rightarrow> Some (RawStatus e)))"

section \<open>The server\<close>

definition grpc_call ::
    "'e yarpc \<Rightarrow> (nat \<Rightarrow> string) \<Rightarrow> Authorizer \<Rightarrow> ('db, 'g) handlerImpl \<Rightarrow> 'db call_env \<Rightarrow> api_call \<Rightarrow> 'db service_state
      \<Rightarrow> (api_reply option \<times> 'e option) \<times> 'db service_state" where
  "grpc_call y ext a h env call st =
     (case access_call a (handler_call h env) call st of
        (Inl e, st) \<Rightarrow> ((None, FromError y ext (Some e)), st)
      | (Inr reply, st) \<Rightarrow> ((Some reply, FromError y ext None), st))"

definition grpc_Heartbeat ::
    "'e yarpc \<Rightarrow> (nat \<Rightarrow> string) \<Rightarrow> ('db, 'g) executor \<Rightarrow> 'db heartbeat_env \<Rightarrow> ExecutorHeartbeatRequest \<Rightarrow> 'db
      \<Rightarrow> (ExecutorHeartbeatResponse option \<times> 'e option) \<times> 'db" where
  "grpc_Heartbeat y ext h env request db =
     (case Heartbeat h env request db of
        (Inl e, db) \<Rightarrow> ((None, FromError y ext (Some e)), db)
      | (Inr response, db) \<Rightarrow> ((Some response, FromError y ext None), db))"

text \<open>What the documentation of the RPC framework promises of its error values.\<close>

definition yarpc_ok :: "'e yarpc \<Rightarrow> bool" where
  "yarpc_ok y \<longleftrightarrow>
     (\<forall>msg ds. NewError y CodeOK msg ds = None)
     \<and> (\<forall>c msg ds. c \<noteq> CodeOK \<longrightarrow>
          (\<exists>e. NewError y c msg ds = Some e \<and> status_Code y e = c \<and> status_Message y e = msg \<and> GetErrorDetails y e = ds))
     \<and> (\<forall>msg. status_Code y (UnimplementedErrorf y msg) = CodeUnimplemented
          \<and> status_Message y (UnimplementedErrorf y msg) = msg)"

section \<open>Who may change and read what\<close>

fun call_namespace :: "api_call \<Rightarrow> string" where
  "call_namespace (DrainHosts_call r) = dhr_Namespace r"
| "call_namespace (DrainShards_call r) = dsr_Namespace r"
| "call_namespace (ForceResetNamespace_call r) = frn_Namespace r"
| "call_namespace (GetDrainedHosts_call r) = gdh_Namespace r"
| "call_namespace (GetDrainedShards_call r) = gds_Namespace r"
| "call_namespace (GetExecutorState_call r) = ges_Namespace r"
| "call_namespace (GetFullNamespaceState_call r) = gfn_Namespace r"
| "call_namespace (GetNamespaceState_call r) = gns_Namespace r"
| "call_namespace (GetNamespaceStateIfNewer_call n) = n"
| "call_namespace (GetShardOwner_call r) = gso_Namespace r"
| "call_namespace (InspectShard_call r) = gso_Namespace r"
| "call_namespace ListNamespaces_call = []"
| "call_namespace (UndrainHosts_call r) = uhr_Namespace r"
| "call_namespace (UndrainShards_call r) = usr_Namespace r"

lemma in_namespace_cases:
  "in_namespace h n body st = (res, st') \<Longrightarrow>
     (\<exists>e. manager_Get (h_namespaces h) n = Inl e \<and> res = Inl e \<and> st' = st) \<or> body st = (res, st')"
  by (auto simp: in_namespace_def split: sum.splits)

lemma cache_lookup_db: "cache_lookup_owner env r st = (res, st') \<Longrightarrow> sv_db st' = sv_db st"
  by (auto simp: cache_lookup_owner_def split: prod.splits)

lemmas rpc_defs = handler_DrainHosts_def handler_DrainShards_def ForceResetNamespace_def handler_GetDrainedHosts_def
  handler_GetDrainedShards_def handler_GetExecutorState_def GetFullNamespaceState_def handler_GetNamespaceState_def
  handler_UndrainHosts_def handler_UndrainShards_def

text \<open>The RPCs that only read leave the database alone.\<close>

definition writes :: "api_call \<Rightarrow> bool" where
  "writes call = (case call of
     DrainHosts_call _ \<Rightarrow> True | DrainShards_call _ \<Rightarrow> True | ForceResetNamespace_call _ \<Rightarrow> True
   | UndrainHosts_call _ \<Rightarrow> True | UndrainShards_call _ \<Rightarrow> True | _ \<Rightarrow> False)"

text \<open>A lookup in an ephemeral namespace changes it through the assigner, and only for a shard without an owner.\<close>

definition assigns :: "('db, 'g) handlerImpl \<Rightarrow> 'db call_env \<Rightarrow> api_call \<Rightarrow> 'db \<Rightarrow> 'db \<Rightarrow> bool" where
  "assigns h env call db db' \<longleftrightarrow>
     (\<exists>r ns. call = GetShardOwner_call r \<and> manager_Get (h_namespaces h) (gso_Namespace r) = Inr ns
        \<and> NsType (managed_Config (h_fixedShardNum h) ns) = NamespaceTypeEphemeral
        \<and> db' = snd (submit_answer env (gso_ShardKey r) db))"

lemma reads_keep_db:
  assumes "\<not> writes call" "handler_call h env call st = (res, st')"
  shows "sv_db st' = sv_db st \<or> assigns h env call (sv_db st) (sv_db st')"
  using assms
  by (cases call) (auto simp: writes_def apfst_def map_prod_def rpc_defs in_namespace_def handler_GetShardOwner_def InspectShard_def
        assigns_def split: sum.splits prod.splits option.splits if_splits dest!: cache_lookup_db)

lemma checked_cases:
  "checked denied call st = (res, st') \<Longrightarrow>
     (\<exists>e. denied = Some e \<and> res = Inl e \<and> st' = st) \<or> (denied = None \<and> call st = (res, st'))"
  by (auto simp: checked_def split: option.splits)

lemma access_call_cases:
  assumes "access_call a hc call st = (res, st')"
  obtains (denied) e api p where "authorize a api (call_namespace call) p = Some e" "res = Inl e" "st' = st"
  | (allowed) "hc call st = (res, st')" "writes call \<longrightarrow> (\<exists>api. authorize a api (call_namespace call) PermissionAdmin = None)"
      "(\<exists>r. call = GetShardOwner_call r) \<or> (\<exists>n. call = GetNamespaceStateIfNewer_call n)
       \<or> (\<exists>api p. authorize a api (call_namespace call) p = None)"
proof (cases call)
  case (GetNamespaceStateIfNewer_call n)
  then show ?thesis using assms by (intro allowed) (auto simp: writes_def)
next
  case (GetShardOwner_call r)
  then show ?thesis using assms by (intro allowed) (auto simp: writes_def)
qed (use assms in \<open>auto dest!: checked_cases intro: denied allowed simp: writes_def\<close>)


text \<open>A server over the etcd store of two namespaces, and an authorizer that admits readers only.\<close>

definition demo_handler :: "(blob etcd, blob GuardFunc) handlerImpl" where
  "demo_handler =
     \<lparr>h_namespaces = manager_New [(''ns'', \<lparr>Name = ''ns'', NsType = NamespaceTypeEphemeral, ShardNum = 0\<rparr>)],
      h_storage = etcd_service_store (\<lambda>xs. xs) (\<lambda>_ db. db) 0 demo_store, h_fixedShardNum = (\<lambda>_. 0)\<rparr>"

definition demo_call_env :: "blob etcd call_env" where
  "demo_call_env = \<lparr>drained_flight = FlightCancelled ContextCanceled, owner_flight = FlightCancelled ContextCanceled,
     submit_answer = (\<lambda>_ db. (Inl ContextCanceled, db)), range_order = (\<lambda>xs. xs)\<rparr>"

definition demo_service :: "blob etcd service_state" where
  "demo_service = \<lparr>sv_db = demo_db, sv_caches = (\<lambda>_. newShardCache)\<rparr>"

definition readers_only :: Authorizer where
  "readers_only attrs = Inr (if at_Permission attrs = PermissionRead then DecisionAllow else DecisionDeny)"


section \<open>What reaches the client\<close>

text \<open>The form in which a client sees an API error: the text of an internal error is flat.\<close>

definition wire_form :: "(nat \<Rightarrow> string) \<Rightarrow> err \<Rightarrow> err" where
  "wire_form ext e = (case e of InternalServiceError _ _ \<Rightarrow> InternalServiceError (Error ext e) None | _ \<Rightarrow> e)"

definition api_error :: "err \<Rightarrow> bool" where
  "api_error e = (case e of
     InternalServiceError _ _ \<Rightarrow> True | BadRequestError _ \<Rightarrow> True | NamespaceNotFoundError _ \<Rightarrow> True
   | ShardNotFoundError _ _ \<Rightarrow> True | ShardDrainedError _ _ \<Rightarrow> True | _ \<Rightarrow> False)"

lemma NewErrorE:
  assumes "yarpc_ok y" "c \<noteq> CodeOK"
  obtains e where "NewError y c msg ds = Some e" "status_Code y e = c" "status_Message y e = msg" "GetErrorDetails y e = ds"
  using assms unfolding yarpc_ok_def by metis

lemma ToError_NewError:
  assumes "yarpc_ok y"
  shows "ToError y (NewError y CodeInternal msg ds) = Some (ApiError (InternalServiceError msg None))"
    "ToError y (NewError y CodeInvalidArgument msg ds) = Some (ApiError (BadRequestError msg))"
    "ToError y (NewError y CodeNotFound msg [NamespaceNotFoundDetail n]) = Some (ApiError (NamespaceNotFoundError n))"
    "ToError y (NewError y CodeNotFound msg [ShardNotFoundDetail n k]) = Some (ApiError (ShardNotFoundError n k))"
    "ToError y (NewError y CodeFailedPrecondition msg [ShardDrainedDetail n k]) = Some (ApiError (ShardDrainedError n k))"
proof -
  have new: "\<exists>e. NewError y c msg ds = Some e \<and> status_Code y e = c \<and> status_Message y e = msg \<and> GetErrorDetails y e = ds"
    if "c \<noteq> CodeOK" for c ds using NewErrorE [OF assms that] by metis
  show "ToError y (NewError y CodeInternal msg ds) = Some (ApiError (InternalServiceError msg None))"
    using new [of CodeInternal ds] by (auto simp: ToError_def)
  show "ToError y (NewError y CodeInvalidArgument msg ds) = Some (ApiError (BadRequestError msg))"
    using new [of CodeInvalidArgument ds] by (auto simp: ToError_def)
  show "ToError y (NewError y CodeNotFound msg [NamespaceNotFoundDetail n]) = Some (ApiError (NamespaceNotFoundError n))"
    using new [of CodeNotFound "[NamespaceNotFoundDetail n]"] by (auto simp: ToError_def getErrorDetails_def)
  show "ToError y (NewError y CodeNotFound msg [ShardNotFoundDetail n k]) = Some (ApiError (ShardNotFoundError n k))"
    using new [of CodeNotFound "[ShardNotFoundDetail n k]"] by (auto simp: ToError_def getErrorDetails_def)
  show "ToError y (NewError y CodeFailedPrecondition msg [ShardDrainedDetail n k]) = Some (ApiError (ShardDrainedError n k))"
    using new [of CodeFailedPrecondition "[ShardDrainedDetail n k]"] by (auto simp: ToError_def getErrorDetails_def)
qed

lemma ToError_unknown:
  assumes "yarpc_ok y" "\<not> api_error e"
  obtains s where "ToError y (FromError y ext (Some e)) = Some (RawStatus s)" "status_Message y s = Error ext e"
    "status_Code y s = (case e of StatusError _ \<Rightarrow> CodeUnimplemented | _ \<Rightarrow> CodeUnknown)"
proof (cases "\<exists>msg. e = StatusError msg")
  case True
  then obtain msg where e: "e = StatusError msg" by blast
  then show thesis
    using assms(1) by (intro that [of "UnimplementedErrorf y msg"]) (simp_all add: yarpc_ok_def FromError_def ToError_def)
next
  case False
  then have "FromError y ext (Some e) = NewError y CodeUnknown (Error ext e) []"
    using assms(2) by (cases e) (simp_all add: FromError_def api_error_def)
  moreover obtain s where s: "NewError y CodeUnknown (Error ext e) [] = Some s" "status_Code y s = CodeUnknown"
      "status_Message y s = Error ext e"
    by (rule NewErrorE [OF assms(1), of CodeUnknown "Error ext e" "[]"]) auto
  ultimately show thesis
    using False by (intro that [of s]) (auto simp: ToError_def split: err.splits)
qed

lemma api_error_on_wire:
  assumes "yarpc_ok y" "api_error e"
  shows "ToError y (FromError y ext (Some e)) = Some (ApiError (wire_form ext e))"
  using assms(2)
  by (cases e) (simp_all add: api_error_def FromError_def wire_form_def ToError_NewError [OF assms(1)] del: Error.simps)

text \<open>The errors of the handlers.\<close>

definition handler_error :: "api_call \<Rightarrow> err \<Rightarrow> bool" where
  "handler_error call e \<longleftrightarrow> api_error e
     \<or> (\<exists>msg r. e = EntityNotExistsError msg \<and> call = GetExecutorState_call r)
     \<or> (\<exists>msg n. e = StatusError msg \<and> call = GetNamespaceStateIfNewer_call n)"

lemma Validate_error: "Validate name = Inl e \<Longrightarrow> \<exists>msg. e = ErrorString msg"
  by (auto simp: Validate_def split: if_splits)

lemma map_sum_Inl [simp]: "map_sum id f x = Inl e \<longleftrightarrow> x = Inl e"
  by (cases x) auto

lemma validate_errors:
  "validateShardKeys ks = Inl e \<Longrightarrow> api_error e" "validateHostnames ks = Inl e \<Longrightarrow> api_error e"
proof -
  have "validateShardKeys_loop ks = Inl e \<Longrightarrow> api_error e" by (induction ks) (auto simp: api_error_def split: if_splits)
  then show "validateShardKeys ks = Inl e \<Longrightarrow> api_error e"
    by (auto simp: validateShardKeys_def api_error_def split: if_splits)
  have "validateHostnames_loop ks = Inl e \<Longrightarrow> api_error e"
    by (induction ks) (auto simp: api_error_def split: sum.splits dest!: Validate_error)
  then show "validateHostnames ks = Inl e \<Longrightarrow> api_error e"
    by (auto simp: validateHostnames_def api_error_def split: if_splits)
qed

lemma manager_Get_error: "manager_Get m n = Inl e \<Longrightarrow> api_error e"
  by (auto simp: manager_Get_def api_error_def split: option.splits)

lemma internal_error: "internal msg r f = Inl e \<Longrightarrow> api_error e"
  by (auto simp: internal_def api_error_def split: sum.splits)

lemma GetOrAssign_error:
  assumes "GetOrAssign n submit k = Inl e" "\<forall>e. submit k = Inl e \<longrightarrow> as_ShardDrained e \<longrightarrow> (\<exists>n' k'. e = ShardDrainedError n' k')"
  shows "api_error e"
  using assms by (auto simp: GetOrAssign_def mapAssignError_def api_error_def split: sum.splits if_splits)

lemma handler_call_error:
  assumes "NewRegistry nss = Inr r" "h_namespaces h = manager_New r"
    and heartbeat: "\<forall>db n e es. sv_GetExecutorState (h_storage h) db n e = Inr es \<longrightarrow> es_Heartbeat es \<noteq> None"
    and submit: "\<forall>k db e. fst (submit_answer env k db) = Inl e \<longrightarrow> as_ShardDrained e \<longrightarrow> (\<exists>n' k'. e = ShardDrainedError n' k')"
    and call: "handler_call h env call st = (Inl e, st')"
  shows "handler_error call e"
proof (cases call)
  case (GetShardOwner_call req)
  then have gso: "handler_GetShardOwner h env req st = (Inl e, st')"
    using call by (auto simp: apfst_def map_prod_def split: prod.splits sum.splits)
  have assigner: "has_assigner ns"
    if "manager_Get (h_namespaces h) (gso_Namespace req) = Inr ns"
      "NsType (managed_Config (h_fixedShardNum h) ns) = NamespaceTypeEphemeral" for ns
    using ephemeral_has_assigner [OF assms(1)] that assms(2) by simp
  have assign: "GetOrAssign n (\<lambda>_. answer) k = Inl e' \<Longrightarrow> submit_answer env k db = (answer, db') \<Longrightarrow> api_error e'"
    for n k e' db db' answer
    by (rule GetOrAssign_error [of n "\<lambda>_. answer" k]) (use submit in \<open>auto dest!: spec [of _ k] spec [of _ db]\<close>)
  show ?thesis
    using gso assigner assign
    by (auto simp: handler_error_def handler_GetShardOwner_def split: sum.splits prod.splits if_splits dest: manager_Get_error)
       (auto simp: api_error_def)
next
  case (InspectShard_call req)
  then show ?thesis
    using call by (auto simp: handler_error_def apfst_def map_prod_def InspectShard_def
        split: sum.splits prod.splits if_splits dest: manager_Get_error) (auto simp: api_error_def)
next
  case (GetExecutorState_call req)
  let ?res = "sv_GetExecutorState (h_storage h) (sv_db st) (ges_Namespace req) (ges_ExecutorID req)"
  show ?thesis
  proof (cases ?res)
    case (Inl e')
    then show ?thesis
      using call GetExecutorState_call
      by (auto simp: handler_error_def handler_GetExecutorState_def in_namespace_def api_error_def apfst_def map_prod_def
          split: sum.splits if_splits dest: manager_Get_error)
  next
    case (Inr es)
    then obtain hb where "es_Heartbeat es = Some hb" using heartbeat by (metis not_None_eq)
    then show ?thesis
      using call GetExecutorState_call Inr
      by (auto simp: handler_error_def handler_GetExecutorState_def in_namespace_def apfst_def map_prod_def
          split: sum.splits dest: manager_Get_error)
  qed
next
  case (GetNamespaceStateIfNewer_call n)
  then show ?thesis using call by (auto simp: handler_error_def GetNamespaceStateIfNewer_def)
qed (use call in \<open>auto simp: handler_error_def apfst_def map_prod_def rpc_defs in_namespace_def Let_def
       split: sum.splits prod.splits dest: manager_Get_error internal_error validate_errors\<close>)


lemma etcd_executor_heartbeat:
  "sv_GetExecutorState (etcd_service_store ord oenv now s) db n e = Inr es \<Longrightarrow> es_Heartbeat es \<noteq> None"
  by (auto simp: etcd_service_store_def Store.extend_def ServiceStore.fields_def GetExecutorState_def
      split: sum.splits option.splits if_splits)

definition demo_yarpc :: "(Code \<times> string \<times> detail list) yarpc" where
  "demo_yarpc =
     \<lparr>NewError = (\<lambda>c msg ds. if c = CodeOK then None else Some (c, msg, ds)),
      UnimplementedErrorf = (\<lambda>msg. (CodeUnimplemented, msg, [])),
      status_Code = fst, status_Message = (\<lambda>(_, msg, _). msg), GetErrorDetails = (\<lambda>(_, _, ds). ds)\<rparr>"

lemma demo_yarpc_ok: "yarpc_ok demo_yarpc"
  by (simp add: yarpc_ok_def demo_yarpc_def)


text \<open>
  A heartbeat with invalid metadata is refused with a \<open>BadRequestError\<close> that is not a pointer. The
  translation looks for pointers only, so the client sees an unknown error in place of an invalid
  argument.
\<close>

theorem heartbeat_bad_metadata:
  assumes "yarpc_ok y" "registry_Get (ex_namespaces h) (ehr_Namespace req) = Inr n"
    and "sv_GetExecutorState (ex_storage h) db (ehr_Namespace req) (ehr_ExecutorID req) = Inr es"
    and "validateMetadata (hb_order env) (ehr_Metadata req) = Some e"
  shows "\<exists>s. ToError y (snd (fst (grpc_Heartbeat y ext h env req db))) = Some (RawStatus s)
    \<and> status_Code y s = CodeUnknown \<and> snd (grpc_Heartbeat y ext h env req db) = db"
proof -
  have "Heartbeat h env req db = (Inl (BadRequestValue ''invalid metadata''), db)"
    using assms(2-4) by (simp add: Heartbeat_def Heartbeat_record_def)
  moreover obtain s where "ToError y (FromError y ext (Some (BadRequestValue ''invalid metadata''))) = Some (RawStatus s)"
    "status_Code y s = CodeUnknown"
    by (rule ToError_unknown [OF assms(1), of "BadRequestValue ''invalid metadata''" ext]) (simp_all add: api_error_def)
  ultimately show ?thesis by (simp add: grpc_Heartbeat_def)
qed

end
