(* ===== verification/WatchStream.thy ===== *)
theory WatchStream
  imports Handler
begin

text \<open>
  The streaming RPC \<open>WatchNamespaceState\<close> of \<open>handler/handler.go\<close>: it subscribes to the cache of a
  namespace, sends the state of the namespace, and sends it again on every notification.

  \<^item> The handler's loop is a step relation: one rule per clause of its \<open>select\<close> and one for each send.
  \<^item> It runs beside the refreshes of the cache. A refresh replaces the state of the cache in one step
    and notifies the subscribers in a later one, as \<open>refresh\<close> in \<open>cache/namespaceshardcache.go\<close> does:
    it holds the lock of the cache for the first part only. \<open>ws_owed\<close> counts the refreshes between the
    two parts.
\<close>

section \<open>The handler's loop\<close>

datatype stream_phase = Starting | Sending | Waiting_update | Returned err

record stream_state =
  ws_cache :: shardCache
  ws_owed :: nat
  ws_phase :: stream_phase
  ws_sent :: "WatchNamespaceStateResponse list"

text \<open>The response of \<open>sendWatchResponse\<close>; it leaves the assignment revision at its zero value.\<close>

definition watchResponse :: "shardCache \<Rightarrow> WatchNamespaceStateResponse" where
  "watchResponse nsCache =
     (let state = GetShardAssignments nsCache
      in \<lparr>wns_Executors = toTypesExecutorShardAssignments (ExecutorToShards state),
          wns_DrainedShardKeys = sort (snap_DrainedShards state), wns_AssignmentRevision = 0\<rparr>)"

definition sendWatchResponse :: "err option \<Rightarrow> stream_state \<Rightarrow> err option \<times> stream_state" where
  "sendWatchResponse send_error \<sigma> =
     (case send_error of
        Some e \<Rightarrow> (Some (Errorf ''send response'' e), \<sigma>)
      | None \<Rightarrow> (None, \<sigma>\<lparr>ws_sent := ws_sent \<sigma> @ [watchResponse (ws_cache \<sigma>)]\<rparr>))"

definition stream_return :: "string \<Rightarrow> err \<Rightarrow> stream_state \<Rightarrow> stream_state" where
  "stream_return uniqueID e \<sigma> = \<sigma>\<lparr>ws_phase := Returned e, ws_cache := unSubscribe uniqueID (ws_cache \<sigma>)\<rparr>"

inductive stream_step :: "string \<Rightarrow> stream_state \<Rightarrow> stream_state \<Rightarrow> bool" for uniqueID where
  subscribe: "ws_phase \<sigma> = Starting \<Longrightarrow>
    stream_step uniqueID \<sigma> (\<sigma>\<lparr>ws_cache := cache_Subscribe uniqueID (ws_cache \<sigma>), ws_phase := Sending\<rparr>)"
| send: "ws_phase \<sigma> = Sending \<Longrightarrow> sendWatchResponse None \<sigma> = (None, \<sigma>') \<Longrightarrow>
    stream_step uniqueID \<sigma> (\<sigma>'\<lparr>ws_phase := Waiting_update\<rparr>)"
| notified: "ws_phase \<sigma> = Waiting_update \<Longrightarrow> mget (subscribers (ws_cache \<sigma>)) uniqueID = Some True \<Longrightarrow>
    stream_step uniqueID \<sigma> (\<sigma>\<lparr>ws_cache := receive uniqueID (ws_cache \<sigma>), ws_phase := Sending\<rparr>)"

text \<open>What the handler does not control: a send that fails, the client or the server going away.\<close>

inductive stream_end :: "string \<Rightarrow> stream_state \<Rightarrow> stream_state \<Rightarrow> bool" for uniqueID where
  send_fails: "ws_phase \<sigma> = Sending \<Longrightarrow> sendWatchResponse (Some e) \<sigma> = (Some e', \<sigma>') \<Longrightarrow>
    stream_end uniqueID \<sigma> (stream_return uniqueID e' \<sigma>')"
| client_done: "ws_phase \<sigma> = Waiting_update \<Longrightarrow> stream_end uniqueID \<sigma> (stream_return uniqueID e \<sigma>)"
| handler_stopped: "ws_phase \<sigma> = Waiting_update \<Longrightarrow> stream_end uniqueID \<sigma> (stream_return uniqueID ContextCanceled \<sigma>)"

text \<open>The refreshes of the cache, and the other subscribers.\<close>

inductive cache_step :: "string \<Rightarrow> stream_state \<Rightarrow> stream_state \<Rightarrow> bool" for uniqueID where
  replaced: "refreshNamespaceState rd (ws_cache \<sigma>) = (Inr True, c) \<Longrightarrow>
    cache_step uniqueID \<sigma> (\<sigma>\<lparr>ws_cache := c, ws_owed := Suc (ws_owed \<sigma>)\<rparr>)"
| unchanged: "refreshNamespaceState rd (ws_cache \<sigma>) = (res, c) \<Longrightarrow> res \<noteq> Inr True \<Longrightarrow>
    cache_step uniqueID \<sigma> (\<sigma>\<lparr>ws_cache := c\<rparr>)"
| notify: "ws_owed \<sigma> = Suc n \<Longrightarrow>
    cache_step uniqueID \<sigma> (\<sigma>\<lparr>ws_cache := notifySubscribers (ws_cache \<sigma>), ws_owed := n\<rparr>)"
| other_subscribes: "u \<noteq> uniqueID \<Longrightarrow> cache_step uniqueID \<sigma> (\<sigma>\<lparr>ws_cache := cache_Subscribe u (ws_cache \<sigma>)\<rparr>)"
| other_leaves: "u \<noteq> uniqueID \<Longrightarrow> cache_step uniqueID \<sigma> (\<sigma>\<lparr>ws_cache := unSubscribe u (ws_cache \<sigma>)\<rparr>)"
| other_receives: "u \<noteq> uniqueID \<Longrightarrow> cache_step uniqueID \<sigma> (\<sigma>\<lparr>ws_cache := receive u (ws_cache \<sigma>)\<rparr>)"

inductive stream_run :: "string \<Rightarrow> shardCache \<Rightarrow> stream_state \<Rightarrow> bool" for uniqueID c where
  start: "stream_run uniqueID c \<lparr>ws_cache = c, ws_owed = 0, ws_phase = Starting, ws_sent = []\<rparr>"
| stream: "stream_run uniqueID c \<sigma> \<Longrightarrow> stream_step uniqueID \<sigma> \<sigma>' \<Longrightarrow> stream_run uniqueID c \<sigma>'"
| ending: "stream_run uniqueID c \<sigma> \<Longrightarrow> stream_end uniqueID \<sigma> \<sigma>' \<Longrightarrow> stream_run uniqueID c \<sigma>'"
| cache: "stream_run uniqueID c \<sigma> \<Longrightarrow> cache_step uniqueID \<sigma> \<sigma>' \<Longrightarrow> stream_run uniqueID c \<sigma>'"

inductive_cases stream_stepE: "stream_step uniqueID \<sigma> \<sigma>'"
inductive_cases stream_endE: "stream_end uniqueID \<sigma> \<sigma>'"
inductive_cases cache_stepE: "cache_step uniqueID \<sigma> \<sigma>'"

section \<open>Invariant\<close>

lemma watchResponse_subscribers [simp]:
  "watchResponse (cache_Subscribe u c) = watchResponse c" "watchResponse (unSubscribe u c) = watchResponse c"
  "watchResponse (receive u c) = watchResponse c" "watchResponse (notifySubscribers c) = watchResponse c"
  by (simp_all add: watchResponse_def GetShardAssignments_def cache_Subscribe_def unSubscribe_def receive_def notifySubscribers_def)

lemma pending_simps [simp]:
  "mget (subscribers (cache_Subscribe u c)) v = (if v = u then Some False else mget (subscribers c) v)"
  "mget (subscribers (unSubscribe u c)) v = (if v = u then None else mget (subscribers c) v)"
  "mget (subscribers (notifySubscribers c)) v = map_option (\<lambda>_. True) (mget (subscribers c) v)"
  "mget (subscribers (receive u c)) v = (if v = u \<and> mhas (subscribers c) u then Some False else mget (subscribers c) v)"
proof -
  have "mget (map (\<lambda>(k, _). (k, True)) m) v = map_option (\<lambda>_. True) (mget m v)" for m :: "(string, bool) gomap"
    by (induction m) auto
  then show "mget (subscribers (notifySubscribers c)) v = map_option (\<lambda>_. True) (mget (subscribers c) v)"
    by (simp add: notifySubscribers_def)
qed (simp_all add: cache_Subscribe_def unSubscribe_def receive_def mget_mput mget_mdel)

lemma refreshNamespaceState_frame:
  assumes "refreshNamespaceState rd c = (res, c')"
  shows "subscribers c' = subscribers c" "res \<noteq> Inr True \<Longrightarrow> c' = c"
  using assms by (auto simp: refreshNamespaceState_def applyNamespaceState_def replaceNamespaceState_def
      split: sum.splits if_splits)

text \<open>
  The subscriber stays registered while the handler runs. The client may miss the state of the cache
  only while the handler is about to send it, a notification is pending, or a refresh has still to
  notify.
\<close>

definition stream_inv :: "string \<Rightarrow> stream_state \<Rightarrow> bool" where
  "stream_inv uniqueID \<sigma> \<longleftrightarrow>
     (ws_phase \<sigma> \<in> {Sending, Waiting_update} \<longrightarrow> mhas (subscribers (ws_cache \<sigma>)) uniqueID)
     \<and> (ws_phase \<sigma> = Waiting_update \<longrightarrow> ws_sent \<sigma> \<noteq> []
        \<and> (last (ws_sent \<sigma>) = watchResponse (ws_cache \<sigma>) \<or> 0 < ws_owed \<sigma>
           \<or> mget (subscribers (ws_cache \<sigma>)) uniqueID = Some True))"

lemma stream_inv_step: "stream_step u \<sigma> \<sigma>' \<Longrightarrow> stream_inv u \<sigma> \<Longrightarrow> stream_inv u \<sigma>'"
  by (erule stream_stepE) (auto simp: stream_inv_def mhas_def sendWatchResponse_def)

lemma stream_inv_end: "stream_end u \<sigma> \<sigma>' \<Longrightarrow> stream_inv u \<sigma> \<Longrightarrow> stream_inv u \<sigma>'"
  by (erule stream_endE) (auto simp: stream_inv_def stream_return_def sendWatchResponse_def)

lemma cache_step_effect:
  assumes "cache_step u \<sigma> \<sigma>'"
  shows "ws_phase \<sigma>' = ws_phase \<sigma>" "ws_sent \<sigma>' = ws_sent \<sigma>"
    and "mhas (subscribers (ws_cache \<sigma>')) u = mhas (subscribers (ws_cache \<sigma>)) u"
    and "watchResponse (ws_cache \<sigma>') = watchResponse (ws_cache \<sigma>) \<and> ws_owed \<sigma>' = ws_owed \<sigma>
        \<and> mget (subscribers (ws_cache \<sigma>')) u = mget (subscribers (ws_cache \<sigma>)) u
      \<or> 0 < ws_owed \<sigma>' \<or> (mhas (subscribers (ws_cache \<sigma>)) u \<longrightarrow> mget (subscribers (ws_cache \<sigma>')) u = Some True)"
proof -
  show "ws_phase \<sigma>' = ws_phase \<sigma>" "ws_sent \<sigma>' = ws_sent \<sigma>" using assms by (auto elim: cache_stepE)
  show "mhas (subscribers (ws_cache \<sigma>')) u = mhas (subscribers (ws_cache \<sigma>)) u"
    using assms by (rule cache_stepE) (simp_all add: mhas_def refreshNamespaceState_frame)
  show "watchResponse (ws_cache \<sigma>') = watchResponse (ws_cache \<sigma>) \<and> ws_owed \<sigma>' = ws_owed \<sigma>
        \<and> mget (subscribers (ws_cache \<sigma>')) u = mget (subscribers (ws_cache \<sigma>)) u
      \<or> 0 < ws_owed \<sigma>' \<or> (mhas (subscribers (ws_cache \<sigma>)) u \<longrightarrow> mget (subscribers (ws_cache \<sigma>')) u = Some True)"
    using assms
  proof (rule cache_stepE)
    fix rd res c
    assume "\<sigma>' = \<sigma>\<lparr>ws_cache := c\<rparr>" "refreshNamespaceState rd (ws_cache \<sigma>) = (res, c)" "res \<noteq> Inr True"
    then show ?thesis using refreshNamespaceState_frame [of rd "ws_cache \<sigma>" res c] by simp
  qed (auto simp: mhas_def)
qed

lemma stream_inv_cache:
  assumes "cache_step u \<sigma> \<sigma>'" "stream_inv u \<sigma>"
  shows "stream_inv u \<sigma>'"
  using assms(2) cache_step_effect [OF assms(1)] unfolding stream_inv_def by (auto simp: mhas_def)

lemma stream_inv_run: "stream_run u c \<sigma> \<Longrightarrow> stream_inv u \<sigma>"
proof (induction rule: stream_run.induct)
  case start
  then show ?case by (simp add: stream_inv_def)
qed (blast intro: stream_inv_step stream_inv_end stream_inv_cache)+

section \<open>Properties\<close>

text \<open>The steps the handler has left.\<close>

definition stream_work :: "string \<Rightarrow> stream_state \<Rightarrow> nat" where
  "stream_work uniqueID \<sigma> =
     (case ws_phase \<sigma> of
        Starting \<Rightarrow> 2
      | Sending \<Rightarrow> if mget (subscribers (ws_cache \<sigma>)) uniqueID = Some True then 3 else 1
      | Waiting_update \<Rightarrow> if mget (subscribers (ws_cache \<sigma>)) uniqueID = Some True then 2 else 0
      | Returned _ \<Rightarrow> 0)"

lemma stream_step_work: "stream_step u \<sigma> \<sigma>' \<Longrightarrow> stream_inv u \<sigma> \<Longrightarrow> Suc (stream_work u \<sigma>') = stream_work u \<sigma>"
  by (erule stream_stepE) (auto simp: stream_work_def stream_inv_def mhas_def sendWatchResponse_def)

lemma stream_step_owed: "stream_step u \<sigma> \<sigma>' \<Longrightarrow> ws_owed \<sigma>' = ws_owed \<sigma> \<and> watchResponse (ws_cache \<sigma>') = watchResponse (ws_cache \<sigma>)"
  by (erule stream_stepE) (auto simp: sendWatchResponse_def)

lemma stream_progress:
  assumes "stream_work u \<sigma> = Suc n"
  obtains \<sigma>' where "stream_step u \<sigma> \<sigma>'"
proof (cases "ws_phase \<sigma>")
  case Sending
  then show thesis using that stream_step.send [OF Sending, of _ u] by (auto simp: sendWatchResponse_def)
next
  case Waiting_update
  then have "mget (subscribers (ws_cache \<sigma>)) u = Some True" using assms by (auto simp: stream_work_def split: if_splits)
  then show thesis using that stream_step.notified [OF Waiting_update] by blast
qed (use assms that in \<open>auto simp: stream_work_def intro: stream_step.subscribe\<close>)

lemma stream_reaches:
  "stream_inv u \<sigma> \<Longrightarrow> \<exists>\<sigma>'. (stream_step u ^^ stream_work u \<sigma>) \<sigma> \<sigma>'"
proof (induction "stream_work u \<sigma>" arbitrary: \<sigma>)
  case (Suc n)
  then obtain \<sigma>\<^sub>1 where one: "stream_step u \<sigma> \<sigma>\<^sub>1" using stream_progress by metis
  then have "n = stream_work u \<sigma>\<^sub>1" "stream_inv u \<sigma>\<^sub>1"
    using stream_step_work [OF one] Suc.prems Suc.hyps(2) stream_inv_step [OF one] by auto
  then obtain \<sigma>\<^sub>2 where "(stream_step u ^^ n) \<sigma>\<^sub>1 \<sigma>\<^sub>2" using Suc.hyps(1) by metis
  then show ?case using one Suc.hyps(2) by (metis relpowp_Suc_I2)
qed auto

lemma stream_steps:
  assumes "(stream_step u ^^ n) \<sigma> \<sigma>'" "stream_inv u \<sigma>" "\<nexists>e. ws_phase \<sigma> = Returned e"
  shows "stream_inv u \<sigma>' \<and> n + stream_work u \<sigma>' = stream_work u \<sigma> \<and> ws_owed \<sigma>' = ws_owed \<sigma>
    \<and> watchResponse (ws_cache \<sigma>') = watchResponse (ws_cache \<sigma>) \<and> (\<nexists>e. ws_phase \<sigma>' = Returned e)"
  using assms
proof (induction n arbitrary: \<sigma>')
  case (Suc n)
  then obtain \<sigma>\<^sub>1 where mid: "(stream_step u ^^ n) \<sigma> \<sigma>\<^sub>1" "stream_step u \<sigma>\<^sub>1 \<sigma>'" by auto
  have "\<nexists>e. ws_phase \<sigma>' = Returned e" using mid(2) by (auto elim: stream_stepE)
  then show ?case
    using Suc.IH [OF mid(1) Suc.prems(2,3)] stream_inv_step [OF mid(2)] stream_step_work [OF mid(2)] stream_step_owed [OF mid(2)]
    by auto
qed simp

text \<open>
  C12. A watching client always catches up. Whatever refreshes, notifications and other subscribers
  came before, once they stop the handler makes at most three more steps, can always make them, and
  the last response it then has sent is the state of the cache.
\<close>

theorem watch_stream_current:
  assumes "stream_run u c \<sigma>" "ws_owed \<sigma> = 0" "\<nexists>e. ws_phase \<sigma> = Returned e"
  shows "(\<exists>\<sigma>'. (stream_step u ^^ stream_work u \<sigma>) \<sigma> \<sigma>') \<and> stream_work u \<sigma> \<le> 3
    \<and> (\<forall>n \<sigma>'. (stream_step u ^^ n) \<sigma> \<sigma>' \<longrightarrow> n \<le> stream_work u \<sigma>
        \<and> (n = stream_work u \<sigma> \<longrightarrow> ws_sent \<sigma>' \<noteq> [] \<and> last (ws_sent \<sigma>') = watchResponse (ws_cache \<sigma>)))"
proof (intro conjI allI impI)
  note inv = stream_inv_run [OF assms(1)]
  show "\<exists>\<sigma>'. (stream_step u ^^ stream_work u \<sigma>) \<sigma> \<sigma>'" by (rule stream_reaches [OF inv])
  show "stream_work u \<sigma> \<le> 3" by (simp add: stream_work_def split: stream_phase.splits)
  fix n \<sigma>'
  assume steps: "(stream_step u ^^ n) \<sigma> \<sigma>'"
  note after = stream_steps [OF steps inv assms(3)]
  then show "n \<le> stream_work u \<sigma>" by simp
  assume "n = stream_work u \<sigma>"
  then have "stream_work u \<sigma>' = 0" "\<nexists>e. ws_phase \<sigma>' = Returned e" using after by simp_all
  then have "ws_phase \<sigma>' = Waiting_update" "mget (subscribers (ws_cache \<sigma>')) u \<noteq> Some True"
    by (auto simp: stream_work_def split: stream_phase.splits if_splits)
  then show "ws_sent \<sigma>' \<noteq> []" "last (ws_sent \<sigma>') = watchResponse (ws_cache \<sigma>)"
    using after assms(2) by (auto simp: stream_inv_def)
qed

theorem watch_stream_current_witness:
  "\<exists>\<sigma>'. (stream_step ''u'' ^^ 2) \<lparr>ws_cache = snd (refresh (demo_read (Inr demo_new)) newShardCache), ws_owed = 0,
       ws_phase = Starting, ws_sent = []\<rparr> \<sigma>'
     \<and> wns_DrainedShardKeys (last (ws_sent \<sigma>')) = [''2'']"
proof -
  let ?c = "snd (refresh (demo_read (Inr demo_new)) newShardCache)"
  let ?s = "\<lparr>ws_cache = ?c, ws_owed = 0, ws_phase = Starting, ws_sent = []\<rparr>"
  have run: "stream_run ''u'' ?c ?s" by (rule stream_run.start)
  have two: "stream_work ''u'' ?s = 2" by (simp add: stream_work_def)
  note current = watch_stream_current [OF run]
  have "wns_DrainedShardKeys (watchResponse ?c) = [''2'']" by code_simp
  then show ?thesis using current by (auto simp: two)
qed

end
