(* ===== verification/Election.thy ===== *)
theory Election
  imports Types
begin

text \<open>
  How an instance becomes and stops being the leader of a namespace: one election attempt and the loop
  over attempts of \<open>leader/election/election.go\<close>, \<open>Run\<close> and \<open>Terminate\<close> of the leader's process in
  \<open>leader/process/processor.go\<close>, and the state machine of \<open>leader/namespace/manager.go\<close> that starts
  electors and stops them while the instance is drained.

  \<^item> An attempt meets an environment, \<open>attempt\<close>: the errors of the etcd session and of the campaign, what
    ends the leadership, and whether the context of the loop is done at each place the loop asks.
  \<^item> What the elector does to the outside is a trace of events. A trace that ends without \<open>Closed\<close> is
    that of a loop that still runs.
  \<^item> \<open>None\<close> is a panic. \<open>Run\<close> recovers it, closes its channel and returns.
\<close>

section \<open>The leader's process\<close>

record processor =
  pr_running :: bool
  pr_cancel :: bool

definition CreateProcessor :: processor where
  "CreateProcessor = \<lparr>pr_running = False, pr_cancel = False\<rparr>"

definition processor_Run :: "processor \<Rightarrow> err option \<times> processor" where
  "processor_Run p =
     (if pr_running p then (Some (ErrorString ''processor is already running''), p)
      else (None, p\<lparr>pr_cancel := True, pr_running := True\<rparr>))"

definition processor_Terminate :: "processor \<Rightarrow> err option \<times> processor" where
  "processor_Terminate p =
     (if \<not> pr_running p then (Some (ErrorString ''processor has not been started''), p)
      else (None, p\<lparr>pr_cancel := False, pr_running := False\<rparr>))"

section \<open>One election attempt\<close>

record Election =
  LeaderPeriod :: duration
  MaxRandomDelay :: duration
  FailedElectionCooldown :: duration

datatype leader_end = CtxDone | SessionExpired | PeriodEnded

record attempt =
  delay_cancelled :: "err option"
  create_error :: "err option"
  campaign_error :: "err option"
  leadership_end :: leader_end
  resign_error :: "err option"
  cleanup_error :: "err option"
  done_after_error :: bool
  done_in_cooldown :: bool
  done_at_end :: bool

datatype election_event =
    Created | Campaigned | ProcessStarted | ReportLeader bool | ProcessTerminated | Resigned | CleanedUp
  | Cooldown duration | Closed

definition errSelfResign :: err where
  "errSelfResign = ErrorString ''self-resigned''"

definition multierr_Append :: "err option \<Rightarrow> err \<Rightarrow> err option" where
  "multierr_Append l r = Some (case l of None \<Rightarrow> r | Some e \<Rightarrow> JoinError e r)"

definition resign :: "attempt \<Rightarrow> processor option \<Rightarrow> err option \<times> processor option \<times> election_event list" where
  "resign a p =
     (let (resignErr, p, stopped) =
            (case p of
               None \<Rightarrow> (None, None, [])
             | Some p \<Rightarrow>
                 (case processor_Terminate p of
                    (Some e, p) \<Rightarrow> (Some (Errorf ''terminate processor'' e), Some p, [])
                  | (None, p) \<Rightarrow> (None, Some p, [ProcessTerminated])));
          resignErr = (case resign_error a of None \<Rightarrow> resignErr | Some e \<Rightarrow> multierr_Append resignErr (Errorf ''resign election'' e));
          resignErr = (case cleanup_error a of None \<Rightarrow> resignErr | Some e \<Rightarrow> multierr_Append resignErr (Errorf ''cleanup election'' e))
      in (resignErr, p, stopped @ [Resigned, CleanedUp]))"

text \<open>From the campaign to the end of the leadership, before the deferred resignation.\<close>

definition lead :: "attempt \<Rightarrow> err option \<times> processor option \<times> election_event list" where
  "lead a =
     (case campaign_error a of
        Some e \<Rightarrow> (Some (Errorf ''failed to campaign'' e), None, [])
      | None \<Rightarrow>
          (case processor_Run CreateProcessor of
             (Some e, p) \<Rightarrow> (Some (Errorf ''onLeader'' e), Some p, [Campaigned])
           | (None, p) \<Rightarrow>
               (case leadership_end a of
                  CtxDone \<Rightarrow> None
                | SessionExpired \<Rightarrow> Some (ErrorString ''session expired'')
                | PeriodEnded \<Rightarrow> Some errSelfResign,
                Some p, [Campaigned, ProcessStarted, ReportLeader True])))"

definition runElection :: "Election \<Rightarrow> attempt \<Rightarrow> (err option \<times> election_event list) option" where
  "runElection cfg a =
     (if MaxRandomDelay cfg \<le> 0 then None
      else Some
        (case delay_cancelled a of
           Some e \<Rightarrow> (Some (Errorf ''context cancelled during pre-campaign delay'' e), [])
         | None \<Rightarrow>
             (case create_error a of
                Some e \<Rightarrow> (Some (Errorf ''create session'' e), [])
              | None \<Rightarrow>
                  let (e, p, led) = lead a; (resignErr, p, resigned) = resign a p
                  in (if e = None then resignErr else e, Created # led @ resigned @ [ReportLeader False]))))"

section \<open>The loop over attempts\<close>

fun Run :: "Election \<Rightarrow> attempt list \<Rightarrow> election_event list" where
  "Run cfg [] = []"
| "Run cfg (a # attempts) =
     (case runElection cfg a of
        None \<Rightarrow> [Closed]
      | Some (e, events) \<Rightarrow>
          events @
          (let again = (if done_at_end a then [Closed] else Run cfg attempts)
           in case e of
                None \<Rightarrow> again
              | Some e \<Rightarrow>
                  if done_after_error a then [Closed]
                  else if \<not> errors_Is e errSelfResign
                  then (if done_in_cooldown a then [Closed] else Cooldown (FailedElectionCooldown cfg) # again)
                  else again))"

section \<open>The state machine of a namespace\<close>

datatype handler_phase = Entering | Electing | Idle | Stopped

record namespaceHandler =
  nh_phase :: handler_phase
  nh_isLeader :: bool
  nh_gauge :: int
  nh_live :: nat

text \<open>
  \<open>nh_live\<close> counts the electors whose context is not cancelled. Leaving \<open>Electing\<close> cancels the one of
  the state and sets the gauge to zero, as the deferred calls do.
\<close>

definition leave_campaign :: "handler_phase \<Rightarrow> namespaceHandler \<Rightarrow> namespaceHandler" where
  "leave_campaign phase h = h\<lparr>nh_phase := phase, nh_gauge := 0, nh_live := nh_live h - 1\<rparr>"

definition gauge_of :: "bool \<Rightarrow> int" where "gauge_of isLeader = (if isLeader then 1 else 0)"

inductive handler_step :: "namespaceHandler \<Rightarrow> namespaceHandler \<Rightarrow> bool" where
  drained_before: "nh_phase h = Entering \<Longrightarrow> handler_step h (h\<lparr>nh_phase := Idle, nh_gauge := 0\<rparr>)"
| create_fails: "nh_phase h = Entering \<Longrightarrow> handler_step h (h\<lparr>nh_phase := Stopped, nh_gauge := 0\<rparr>)"
| startElection: "nh_phase h = Entering \<Longrightarrow>
    handler_step h (h\<lparr>nh_phase := Electing, nh_isLeader := False, nh_live := Suc (nh_live h)\<rparr>)"
| ctx_done: "nh_phase h = Electing \<Longrightarrow> handler_step h (leave_campaign Stopped h)"
| drain: "nh_phase h = Electing \<Longrightarrow> handler_step h (leave_campaign Idle h)"
| leader_message: "nh_phase h = Electing \<Longrightarrow>
    handler_step h (h\<lparr>nh_isLeader := isLeader, nh_gauge := gauge_of isLeader\<rparr>)"
| channel_closed: "nh_phase h = Electing \<Longrightarrow> handler_step h (leave_campaign Entering h)"
| metrics_tick: "nh_phase h = Electing \<Longrightarrow> handler_step h (h\<lparr>nh_gauge := gauge_of (nh_isLeader h)\<rparr>)"
| idle_ctx_done: "nh_phase h = Idle \<Longrightarrow> handler_step h (h\<lparr>nh_phase := Stopped\<rparr>)"
| undrain: "nh_phase h = Idle \<Longrightarrow> handler_step h (h\<lparr>nh_phase := Entering\<rparr>)"
| idle_tick: "nh_phase h = Idle \<Longrightarrow> handler_step h (h\<lparr>nh_gauge := 0\<rparr>)"

definition new_handler :: namespaceHandler where
  "new_handler = \<lparr>nh_phase = Entering, nh_isLeader = False, nh_gauge = 0, nh_live = 0\<rparr>"

text \<open>The manager starts one handler per configured namespace, up to the first name it already has.\<close>

definition handleNamespace ::
    "Namespace \<Rightarrow> (string, namespaceHandler) gomap \<Rightarrow> err option \<times> (string, namespaceHandler) gomap" where
  "handleNamespace ns handlers =
     (if mhas handlers (Name ns) then (Some (ErrorString ''namespace already running''), handlers)
      else (None, mput (Name ns) new_handler handlers))"

fun leader_manager_Start ::
    "Namespace list \<Rightarrow> (string, namespaceHandler) gomap \<Rightarrow> err option \<times> (string, namespaceHandler) gomap" where
  "leader_manager_Start [] handlers = (None, handlers)"
| "leader_manager_Start (ns # nss) handlers =
     (case handleNamespace ns handlers of
        (Some e, handlers) \<Rightarrow> (Some e, handlers)
      | (None, handlers) \<Rightarrow> leader_manager_Start nss handlers)"

lemma leader_manager_Start_all:
  assumes "distinct (map Name nss)" "\<forall>ns\<in>set nss. \<not> mhas handlers (Name ns)"
  shows "\<exists>handlers'. leader_manager_Start nss handlers = (None, handlers')
    \<and> (\<forall>n. mget handlers' n = (if n \<in> Name ` set nss then Some new_handler else mget handlers n))"
  using assms
proof (induction nss arbitrary: handlers)
  case (Cons ns nss)
  have "\<forall>n\<in>set nss. \<not> mhas (mput (Name ns) new_handler handlers) (Name n)"
    using Cons.prems by (auto simp: mhas_def mget_mput) (metis image_eqI)
  moreover have "distinct (map Name nss)" using Cons.prems(1) by simp
  ultimately obtain handlers' where h: "leader_manager_Start nss (mput (Name ns) new_handler handlers) = (None, handlers')"
    "\<forall>n. mget handlers' n = (if n \<in> Name ` set nss then Some new_handler else mget (mput (Name ns) new_handler handlers) n)"
    using Cons.IH by metis
  have "leader_manager_Start (ns # nss) handlers = (None, handlers')" using h(1) Cons.prems(2) by (simp add: handleNamespace_def)
  moreover have "\<forall>n. mget handlers' n = (if n \<in> Name ` set (ns # nss) then Some new_handler else mget handlers n)"
    using h(2) by (simp add: mget_mput)
  ultimately show ?case by blast
qed simp

section \<open>What an instance holds\<close>

text \<open>
  The resources behind the events: the session of the election, the leadership, the running process,
  and what the elector reported last. An event is allowed only in some states.
\<close>

record holding =
  session :: bool
  leadership :: bool
  process :: bool
  reported :: bool

definition nothing :: holding where
  "nothing = \<lparr>session = False, leadership = False, process = False, reported = False\<rparr>"

fun event_step :: "holding \<Rightarrow> election_event \<Rightarrow> holding option" where
  "event_step h Created = (if h = nothing then Some (h\<lparr>session := True\<rparr>) else None)"
| "event_step h Campaigned = (if session h \<and> \<not> leadership h then Some (h\<lparr>leadership := True\<rparr>) else None)"
| "event_step h ProcessStarted = (if leadership h \<and> \<not> process h then Some (h\<lparr>process := True\<rparr>) else None)"
| "event_step h (ReportLeader True) = (if process h then Some (h\<lparr>reported := True\<rparr>) else None)"
| "event_step h ProcessTerminated = (if process h \<and> leadership h then Some (h\<lparr>process := False\<rparr>) else None)"
| "event_step h Resigned = (if session h \<and> \<not> process h then Some (h\<lparr>leadership := False\<rparr>) else None)"
| "event_step h CleanedUp = (if session h \<and> \<not> leadership h \<and> \<not> process h then Some (h\<lparr>session := False\<rparr>) else None)"
| "event_step h (ReportLeader False) = (if \<not> session h \<and> \<not> process h then Some (h\<lparr>reported := False\<rparr>) else None)"
| "event_step h (Cooldown _) = (if h = nothing then Some h else None)"
| "event_step h Closed = (if h = nothing then Some h else None)"

fun events_run :: "holding \<Rightarrow> election_event list \<Rightarrow> holding option" where
  "events_run h [] = Some h"
| "events_run h (e # es) = (case event_step h e of None \<Rightarrow> None | Some h \<Rightarrow> events_run h es)"

lemma events_run_append:
  "events_run h (es @ es') = (case events_run h es of None \<Rightarrow> None | Some h \<Rightarrow> events_run h es')"
  by (induction es arbitrary: h) (auto split: option.splits)

lemma events_run_prefix: "events_run h (es @ es') = Some h' \<Longrightarrow> \<exists>h''. events_run h es = Some h''"
  by (auto simp: events_run_append split: option.splits)

lemma new_process [simp]: "processor_Run CreateProcessor = (None, \<lparr>pr_running = True, pr_cancel = True\<rparr>)"
  by (simp add: processor_Run_def CreateProcessor_def)

lemma attempt_holds_nothing:
  "runElection cfg a = Some (e, events) \<Longrightarrow> events_run nothing events = Some nothing"
  by (auto simp: runElection_def lead_def resign_def processor_Terminate_def nothing_def Let_def
      split: if_splits option.splits)

lemma Run_holds_nothing: "events_run nothing (Run cfg attempts) = Some nothing"
proof (induction attempts)
  case (Cons a attempts)
  then show ?case
    by (auto simp: events_run_append nothing_def [symmetric] Let_def dest!: attempt_holds_nothing split: option.splits)
qed simp

lemma attempt_not_closed: "runElection cfg a = Some (e, events) \<Longrightarrow> Closed \<notin> set events"
  by (auto simp: runElection_def lead_def resign_def processor_Terminate_def Let_def split: if_splits option.splits)

lemma Run_closed_last: "Closed \<notin> set (butlast (Run cfg attempts))"
proof (induction attempts)
  case (Cons a attempts)
  show ?case
  proof (cases "runElection cfg a")
    case (Some r)
    obtain e events where r: "r = (e, events)" by force
    have "Closed \<notin> set events" by (rule attempt_not_closed [of cfg a e]) (simp add: Some r)
    then show ?thesis
      using Cons by (cases e) (auto simp: Some r Let_def butlast_append dest: in_set_butlastD)
  qed simp
qed simp

lemma Run_closed_once:
  assumes "Closed \<in> set (Run cfg attempts)"
  shows "\<exists>es. Run cfg attempts = es @ [Closed] \<and> Closed \<notin> set es"
proof -
  let ?es = "Run cfg attempts"
  have split: "?es = butlast ?es @ [last ?es]" using assms by (intro append_butlast_last_id [symmetric]) auto
  have "Closed \<in> set (butlast ?es) \<union> {last ?es}" using assms by (subst (asm) split) auto
  then have "last ?es = Closed" using Run_closed_last by auto
  then show ?thesis using split Run_closed_last by metis
qed

text \<open>A process runs only for a leader, and only a session leads.\<close>

lemma events_run_invariant:
  assumes "events_run h es = Some h'" "(process h \<longrightarrow> leadership h) \<and> (leadership h \<longrightarrow> session h)"
  shows "(process h' \<longrightarrow> leadership h') \<and> (leadership h' \<longrightarrow> session h')"
  using assms
proof (induction es arbitrary: h)
  case (Cons e es)
  obtain k where k: "event_step h e = Some k" "events_run k es = Some h'"
    using Cons.prems(1) by (auto split: option.splits)
  have "(process k \<longrightarrow> leadership k) \<and> (leadership k \<longrightarrow> session k)"
    using k(1) Cons.prems(2) by (cases "(h, e)" rule: event_step.cases) (auto simp: nothing_def split: if_splits)
  then show ?case by (rule Cons.IH [OF k(2)])
qed simp

lemma Run_stops:
  "\<exists>a\<in>set attempts. done_after_error a \<and> done_at_end a \<Longrightarrow> Closed \<in> set (Run cfg attempts)"
  by (induction attempts) (auto simp: Let_def split: option.splits)


definition demo_attempt :: attempt where
  "demo_attempt =
     \<lparr>delay_cancelled = None, create_error = None, campaign_error = None, leadership_end = CtxDone,
      resign_error = Some DeadlineExceeded, cleanup_error = None, done_after_error = True,
      done_in_cooldown = True, done_at_end = True\<rparr>"


text \<open>
  A namespace never has two electors with a live context, has none while it is drained or stopped, and
  its gauge says leader only if the last message of its elector did.
\<close>

theorem one_elector:
  assumes "handler_step\<^sup>*\<^sup>* new_handler h"
  shows "nh_live h = (if nh_phase h = Electing then 1 else 0)
    \<and> (nh_gauge h \<noteq> 0 \<longrightarrow> nh_phase h = Electing \<and> nh_isLeader h)"
  using assms
proof (induction rule: rtranclp_induct)
  case (step h h')
  from step(2,3) show ?case by (cases rule: handler_step.cases) (auto simp: leave_campaign_def gauge_of_def)
qed (simp add: new_handler_def)

end
