(* ===== verification/LeaderLoop.thy ===== *)
theory LeaderLoop
  imports StoreRefinement
begin

text \<open>
  When the leader rebalances: \<open>runRebalancingLoop\<close> and \<open>rebalanceTriggeringLoop\<close> of
  \<open>leader/process/processor.go\<close>, with the watch on the status of executors that feeds them.

  \<^item> The goroutines share a channel of triggers with one slot and a channel of revisions with one slot,
    which the watch closes when it ends. A closed channel still delivers what is in its slot.
  \<^item> The steps are split in two: those the leader takes by itself when all goes well, and those that the
    clock, the ticker, the watch, other writers, failures and the end of the leadership bring.
  \<^item> \<open>lp_started\<close> is the history of the rebalances that a trigger started, \<open>lp_pending\<close> says that since
    the last rebalance began the watch delivered a status change or a rebalance failed.
\<close>

section \<open>The loops\<close>

record ('db, 'g, 'v) leader =
  ld_store :: "('db, 'g) Store"
  ld_guard :: 'g
  ld_sdConfig :: Config
  ld_cfg :: LeaderProcess
  ld_namespace :: Namespace
  ld_fixedShardNum :: int
  ld_watch :: "('db, 'v) executorStoreImpl"

datatype loop_phase = Initial | Subscribing | Ready | Sleeping gotime | Rebalancing | Ended

record 'db leader_loop =
  lp_db :: 'db
  lp_phase :: loop_phase
  lp_updates :: "int option"
  lp_closed :: bool
  lp_trigger :: "string option"
  lp_triggering :: bool
  lp_now :: gotime
  lp_allowed :: gotime
  lp_done :: bool
  lp_started :: "gotime list"
  lp_pending :: bool

definition tryTriggerRebalancing :: "string \<Rightarrow> 'db leader_loop \<Rightarrow> 'db leader_loop" where
  "tryTriggerRebalancing reason \<sigma> =
     (case lp_trigger \<sigma> of None \<Rightarrow> \<sigma>\<lparr>lp_trigger := Some reason\<rparr> | Some _ \<Rightarrow> \<sigma>)"

definition rebalances :: "('db, 'g, 'v) leader \<Rightarrow> 'db \<Rightarrow> unit result \<Rightarrow> 'db \<Rightarrow> bool" where
  "rebalances L db res db' \<longleftrightarrow>
     (\<exists>env \<omega> \<pi> i t. rebalanceShards (ld_store L) env (ld_guard L) \<omega> \<pi> i (ld_sdConfig L) (ld_cfg L) (ld_namespace L)
        (ld_fixedShardNum L) t db = Some (res, db'))"

inductive leader_step :: "('db, 'g, 'v) leader \<Rightarrow> 'db leader_loop \<Rightarrow> 'db leader_loop \<Rightarrow> bool" for L where
  initial: "lp_phase \<sigma> = Initial \<Longrightarrow> rebalances L (lp_db \<sigma>) res db \<Longrightarrow>
    leader_step L \<sigma> (\<sigma>\<lparr>lp_db := db, lp_phase := Subscribing\<rparr>)"
| subscribe: "lp_phase \<sigma> = Subscribing \<Longrightarrow>
    leader_step L \<sigma> (\<sigma>\<lparr>lp_phase := Ready, lp_updates := None, lp_closed := False, lp_triggering := True,
      lp_allowed := lp_now \<sigma>\<rparr>)"
| update: "lp_triggering \<sigma> \<Longrightarrow> lp_updates \<sigma> = Some revision \<Longrightarrow>
    leader_step L \<sigma> (tryTriggerRebalancing ''State change detected'' (\<sigma>\<lparr>lp_updates := None\<rparr>))"
| update_closed: "lp_triggering \<sigma> \<Longrightarrow> lp_updates \<sigma> = None \<Longrightarrow> lp_closed \<sigma> \<Longrightarrow>
    leader_step L \<sigma> (\<sigma>\<lparr>lp_triggering := False\<rparr>)"
| triggered: "lp_phase \<sigma> = Ready \<Longrightarrow> lp_trigger \<sigma> = Some reason \<Longrightarrow>
    leader_step L \<sigma> (\<sigma>\<lparr>lp_trigger := None,
      lp_phase := Sleeping (lp_now \<sigma> + max 0 (time_Sub (lp_allowed \<sigma>) (lp_now \<sigma>)))\<rparr>)"
| wake: "lp_phase \<sigma> = Sleeping until \<Longrightarrow> until \<le> lp_now \<sigma> \<Longrightarrow>
    leader_step L \<sigma> (\<sigma>\<lparr>lp_phase := Rebalancing, lp_allowed := lp_now \<sigma> + RebalanceCooldown (ld_cfg L),
      lp_started := lp_started \<sigma> @ [lp_now \<sigma>], lp_pending := False\<rparr>)"
| succeeds: "lp_phase \<sigma> = Rebalancing \<Longrightarrow> rebalances L (lp_db \<sigma>) (Inr ()) db \<Longrightarrow>
    leader_step L \<sigma> (\<sigma>\<lparr>lp_db := db, lp_phase := Ready\<rparr>)"

inductive leader_env_step :: "('db, 'g, 'v) leader \<Rightarrow> 'db leader_loop \<Rightarrow> 'db leader_loop \<Rightarrow> bool" for L where
  fails: "lp_phase \<sigma> = Rebalancing \<Longrightarrow> rebalances L (lp_db \<sigma>) (Inl e) db \<Longrightarrow>
    leader_env_step L \<sigma> (tryTriggerRebalancing ''Previous rebalance failed''
      (\<sigma>\<lparr>lp_db := db, lp_phase := Ready, lp_pending := True\<rparr>))"
| tick: "lp_triggering \<sigma> \<Longrightarrow>
    leader_env_step L \<sigma> (tryTriggerRebalancing ''Periodic reconciliation triggered'' \<sigma>)"
| watch: "lp_phase \<sigma> \<notin> {Initial, Subscribing} \<Longrightarrow> \<not> lp_closed \<sigma> \<Longrightarrow>
    status_watch_step (ld_watch L) (Name (ld_namespace L)) (Inr (events, revision)) (Some (lp_updates \<sigma>)) = Some slot \<Longrightarrow>
    leader_env_step L \<sigma> (\<sigma>\<lparr>lp_updates := slot,
      lp_pending := (lp_pending \<sigma> \<or> hasExecutorStatusChanged (ld_watch L) (Name (ld_namespace L)) events)\<rparr>)"
| watch_ends: "lp_phase \<sigma> \<notin> {Initial, Subscribing} \<Longrightarrow>
    status_watch_step (ld_watch L) (Name (ld_namespace L)) (Inl e) (Some (lp_updates \<sigma>)) = None \<Longrightarrow>
    leader_env_step L \<sigma> (\<sigma>\<lparr>lp_closed := True\<rparr>)"
| time_passes: "0 \<le> d \<Longrightarrow> leader_env_step L \<sigma> (\<sigma>\<lparr>lp_now := lp_now \<sigma> + d\<rparr>)"
| other_writes: "leader_env_step L \<sigma> (\<sigma>\<lparr>lp_db := db\<rparr>)"
| cancelled: "leader_env_step L \<sigma> (\<sigma>\<lparr>lp_done := True\<rparr>)"
| loop_ends: "lp_done \<sigma> \<Longrightarrow> lp_phase \<sigma> = Ready \<Longrightarrow> leader_env_step L \<sigma> (\<sigma>\<lparr>lp_phase := Ended\<rparr>)"
| triggering_ends: "lp_done \<sigma> \<Longrightarrow> leader_env_step L \<sigma> (\<sigma>\<lparr>lp_triggering := False\<rparr>)"
| subscribe_fails: "lp_phase \<sigma> = Subscribing \<Longrightarrow> leader_env_step L \<sigma> (\<sigma>\<lparr>lp_phase := Ended\<rparr>)"

definition leader_start :: "'db \<Rightarrow> gotime \<Rightarrow> 'db leader_loop" where
  "leader_start db now =
     \<lparr>lp_db = db, lp_phase = Initial, lp_updates = None, lp_closed = False, lp_trigger = None, lp_triggering = False,
      lp_now = now, lp_allowed = now, lp_done = False, lp_started = [], lp_pending = False\<rparr>"

inductive leader_run :: "('db, 'g, 'v) leader \<Rightarrow> 'db leader_loop \<Rightarrow> bool" for L where
  start: "leader_run L (leader_start db now)"
| own: "leader_run L \<sigma> \<Longrightarrow> leader_step L \<sigma> \<sigma>' \<Longrightarrow> leader_run L \<sigma>'"
| env: "leader_run L \<sigma> \<Longrightarrow> leader_env_step L \<sigma> \<sigma>' \<Longrightarrow> leader_run L \<sigma>'"

inductive_cases leader_stepE: "leader_step L \<sigma> \<sigma>'"
inductive_cases leader_env_stepE: "leader_env_step L \<sigma> \<sigma>'"

section \<open>No change is forgotten\<close>

lemma try_fields [simp]:
  "lp_db (tryTriggerRebalancing r \<sigma>) = lp_db \<sigma>" "lp_phase (tryTriggerRebalancing r \<sigma>) = lp_phase \<sigma>"
  "lp_updates (tryTriggerRebalancing r \<sigma>) = lp_updates \<sigma>" "lp_closed (tryTriggerRebalancing r \<sigma>) = lp_closed \<sigma>"
  "lp_triggering (tryTriggerRebalancing r \<sigma>) = lp_triggering \<sigma>" "lp_now (tryTriggerRebalancing r \<sigma>) = lp_now \<sigma>"
  "lp_allowed (tryTriggerRebalancing r \<sigma>) = lp_allowed \<sigma>" "lp_done (tryTriggerRebalancing r \<sigma>) = lp_done \<sigma>"
  "lp_started (tryTriggerRebalancing r \<sigma>) = lp_started \<sigma>" "lp_pending (tryTriggerRebalancing r \<sigma>) = lp_pending \<sigma>"
  "lp_trigger (tryTriggerRebalancing r \<sigma>) = Some (case lp_trigger \<sigma> of None \<Rightarrow> r | Some r' \<Rightarrow> r')"
  by (simp_all add: tryTriggerRebalancing_def split: option.splits)

text \<open>
  While the leadership lasts the triggering loop runs until the channel of the watch is closed and
  empty, and what is pending has left a mark: a revision it will read, a trigger, or a rebalance that
  is about to begin.
\<close>

definition subscribed :: "'db leader_loop \<Rightarrow> bool" where
  "subscribed \<sigma> \<longleftrightarrow> lp_phase \<sigma> \<notin> {Initial, Subscribing, Ended}"

definition loop_inv :: "'db leader_loop \<Rightarrow> bool" where
  "loop_inv \<sigma> \<longleftrightarrow>
     (lp_phase \<sigma> \<in> {Initial, Subscribing} \<longrightarrow> \<not> lp_pending \<sigma> \<and> \<not> lp_triggering \<sigma>)
     \<and> (\<not> lp_done \<sigma> \<and> subscribed \<sigma> \<longrightarrow>
          (lp_triggering \<sigma> \<or> lp_closed \<sigma> \<and> lp_updates \<sigma> = None)
          \<and> (lp_pending \<sigma> \<longrightarrow> lp_updates \<sigma> \<noteq> None \<or> lp_trigger \<sigma> \<noteq> None \<or> (\<exists>u. lp_phase \<sigma> = Sleeping u)))"

lemma loop_inv_step: "leader_step L \<sigma> \<sigma>' \<Longrightarrow> loop_inv \<sigma> \<Longrightarrow> loop_inv \<sigma>'"
  by (erule leader_stepE) (auto simp: loop_inv_def subscribed_def)

lemma loop_inv_env: "leader_env_step L \<sigma> \<sigma>' \<Longrightarrow> loop_inv \<sigma> \<Longrightarrow> loop_inv \<sigma>'"
  by (erule leader_env_stepE) (auto simp: loop_inv_def subscribed_def status_watch_step_def split: if_splits)

lemma loop_inv_start: "loop_inv (leader_start db now)"
  by (simp add: loop_inv_def leader_start_def subscribed_def)

lemma loop_inv_run: "leader_run L \<sigma> \<Longrightarrow> loop_inv \<sigma>"
  by (induction rule: leader_run.induct) (auto intro: loop_inv_start loop_inv_step loop_inv_env)

section \<open>Rebalances keep their distance\<close>

definition spaced :: "duration \<Rightarrow> gotime list \<Rightarrow> bool" where
  "spaced cooldown ts \<longleftrightarrow> (\<forall>i. Suc i < length ts \<longrightarrow> ts ! i + cooldown \<le> ts ! Suc i)"

lemma spaced_snoc: "spaced c (ts @ [t]) \<longleftrightarrow> spaced c ts \<and> (ts \<noteq> [] \<longrightarrow> last ts + c \<le> t)"
proof (cases ts rule: rev_cases)
  case (snoc us u)
  have "Suc i < length (ts @ [t]) \<longleftrightarrow> Suc i < length ts \<or> Suc i = length ts" for i by auto
  then show ?thesis unfolding spaced_def by (auto simp: snoc nth_append less_Suc_eq split: if_splits)
qed (simp add: spaced_def)

definition space_inv :: "duration \<Rightarrow> 'db leader_loop \<Rightarrow> bool" where
  "space_inv c \<sigma> \<longleftrightarrow> spaced c (lp_started \<sigma>)
     \<and> (lp_phase \<sigma> \<in> {Initial, Subscribing} \<longrightarrow> lp_started \<sigma> = [])
     \<and> (lp_started \<sigma> \<noteq> [] \<longrightarrow> lp_allowed \<sigma> = last (lp_started \<sigma>) + c \<and> last (lp_started \<sigma>) \<le> lp_now \<sigma>)
     \<and> (lp_started \<sigma> = [] \<longrightarrow> lp_allowed \<sigma> \<le> lp_now \<sigma>)
     \<and> (\<forall>u. lp_phase \<sigma> = Sleeping u \<longrightarrow> lp_allowed \<sigma> \<le> u)"

lemma space_inv_step:
  assumes "leader_step L \<sigma> \<sigma>'" "space_inv (RebalanceCooldown (ld_cfg L)) \<sigma>" "RebalanceCooldown (ld_cfg L) \<le> maxDuration"
  shows "space_inv (RebalanceCooldown (ld_cfg L)) \<sigma>'"
  using assms(1)
proof (cases rule: leader_step.cases)
  case (triggered reason)
  have "lp_allowed \<sigma> - lp_now \<sigma> \<le> maxDuration"
    using assms(2,3) triggered by (cases "lp_started \<sigma> = []") (auto simp: space_inv_def maxDuration_def)
  then have "lp_allowed \<sigma> \<le> lp_now \<sigma> + max 0 (time_Sub (lp_allowed \<sigma>) (lp_now \<sigma>))"
    by (auto simp: time_Sub_def)
  then show ?thesis using assms(2) triggered by (auto simp: space_inv_def)
next
  case (wake until)
  then show ?thesis using assms(2) by (auto simp: space_inv_def spaced_snoc)
qed (use assms(2) in \<open>auto simp: space_inv_def\<close>)

lemma space_inv_env: "leader_env_step L \<sigma> \<sigma>' \<Longrightarrow> space_inv c \<sigma> \<Longrightarrow> space_inv c \<sigma>'"
  by (erule leader_env_stepE) (auto simp: space_inv_def)

lemma space_inv_start: "space_inv c (leader_start db now)"
  by (simp add: space_inv_def leader_start_def spaced_def)

lemma space_inv_run:
  assumes "leader_run L \<sigma>" "RebalanceCooldown (ld_cfg L) \<le> maxDuration"
  shows "space_inv (RebalanceCooldown (ld_cfg L)) \<sigma>"
  using assms by (induction rule: leader_run.induct) (auto intro: space_inv_start space_inv_step space_inv_env)

section \<open>The leader comes to rest\<close>

text \<open>A bound on the steps the leader takes by itself.\<close>

definition loop_work :: "'db leader_loop \<Rightarrow> nat" where
  "loop_work \<sigma> =
     (case lp_phase \<sigma> of Initial \<Rightarrow> 11 | Subscribing \<Rightarrow> 10 | Ready \<Rightarrow> 0 | Sleeping _ \<Rightarrow> 2 | Rebalancing \<Rightarrow> 1 | Ended \<Rightarrow> 0)
     + (if lp_updates \<sigma> = None then 0 else 4) + (if lp_trigger \<sigma> = None then 0 else 3) + (if lp_triggering \<sigma> then 1 else 0)"

lemma leader_step_works: "leader_step L \<sigma> \<sigma>' \<Longrightarrow> loop_work \<sigma>' < loop_work \<sigma>"
  by (erule leader_stepE) (auto simp: loop_work_def split: option.splits)

lemma leader_steps_bounded:
  "(leader_step L ^^ n) \<sigma> \<sigma>' \<Longrightarrow> n + loop_work \<sigma>' \<le> loop_work \<sigma>"
proof (induction n arbitrary: \<sigma>')
  case (Suc n)
  then obtain \<rho> where "(leader_step L ^^ n) \<sigma> \<rho>" "leader_step L \<rho> \<sigma>'" by (auto elim: relpowp_Suc_E)
  then show ?case using Suc.IH leader_step_works by fastforce
qed auto

text \<open>
  Where the leader stops: it waits with nothing to do, or for the cooldown to pass, or in a rebalance
  that cannot succeed.
\<close>

lemma leader_at_rest:
  assumes "loop_inv \<sigma>" "\<not> lp_done \<sigma>" "subscribed \<sigma>" "\<nexists>\<sigma>'. leader_step L \<sigma> \<sigma>'"
  shows "(lp_phase \<sigma> = Ready \<and> lp_trigger \<sigma> = None \<and> lp_updates \<sigma> = None \<and> \<not> lp_pending \<sigma>)
    \<or> (\<exists>u. lp_phase \<sigma> = Sleeping u \<and> lp_now \<sigma> < u) \<or> (lp_phase \<sigma> = Rebalancing \<and> (\<nexists>db. rebalances L (lp_db \<sigma>) (Inr ()) db))"
proof -
  have update: "\<not> (lp_triggering \<sigma> \<and> lp_updates \<sigma> = Some r)" for r using assms(4) leader_step.update by blast
  have ready: "\<not> (lp_phase \<sigma> = Ready \<and> lp_trigger \<sigma> = Some r)" for r using assms(4) leader_step.triggered by blast
  have wake: "\<not> (lp_phase \<sigma> = Sleeping u \<and> u \<le> lp_now \<sigma>)" for u using assms(4) leader_step.wake by blast
  have succeeds: "\<not> (lp_phase \<sigma> = Rebalancing \<and> rebalances L (lp_db \<sigma>) (Inr ()) db)" for db
    using assms(4) leader_step.succeeds [of \<sigma> L db] by auto
  have updates: "lp_updates \<sigma> = None" using assms(1-3) update by (cases "lp_updates \<sigma>") (auto simp: loop_inv_def)
  show ?thesis
  proof (cases "lp_phase \<sigma>")
    case Ready
    then have "lp_trigger \<sigma> = None" using ready by (cases "lp_trigger \<sigma>") auto
    then show ?thesis using Ready updates assms(1-3) by (auto simp: loop_inv_def)
  next
    case (Sleeping u)
    then show ?thesis using wake [of u] by auto
  qed (use succeeds assms(3) in \<open>auto simp: subscribed_def\<close>)
qed

lemma leader_steps_run: "(leader_step L ^^ n) \<sigma> \<sigma>' \<Longrightarrow> leader_run L \<sigma> \<Longrightarrow> leader_run L \<sigma>'"
  by (induction n arbitrary: \<sigma>') (auto elim!: relpowp_Suc_E intro: leader_run.own)

lemma leader_steps_keep:
  assumes "(leader_step L ^^ n) \<sigma> \<sigma>'" "subscribed \<sigma>"
  shows "subscribed \<sigma>' \<and> lp_done \<sigma>' = lp_done \<sigma> \<and> lp_now \<sigma>' = lp_now \<sigma>"
  using assms
proof (induction n arbitrary: \<sigma>')
  case (Suc n)
  then obtain \<rho> where \<rho>: "(leader_step L ^^ n) \<sigma> \<rho>" "leader_step L \<rho> \<sigma>'" by (auto elim: relpowp_Suc_E)
  have "subscribed \<rho> \<and> lp_done \<rho> = lp_done \<sigma> \<and> lp_now \<rho> = lp_now \<sigma>" using Suc.IH [OF \<rho>(1) Suc.prems(2)] .
  then show ?case using \<rho>(2) by (auto elim!: leader_stepE simp: subscribed_def)
qed simp


text \<open>A leader on the etcd store of an empty namespace, in the rebalance that its first tick triggered.\<close>

definition demo_leader :: "(blob etcd, blob GuardFunc, blob) leader" where
  "demo_leader =
     \<lparr>ld_store = etcd_store (\<lambda>xs. xs) (\<lambda>_ db. db) demo_store, ld_guard = leader_Guard ''/p/ns/leader/1'' 1,
      ld_sdConfig = greedy_config, ld_cfg = leader_process, ld_namespace = fixed_ns, ld_fixedShardNum = 0,
      ld_watch = demo_store\<rparr>"

definition demo_ready :: "blob etcd leader_loop" where
  "demo_ready = (leader_start empty_etcd 5)\<lparr>lp_phase := Ready, lp_triggering := True\<rparr>"

definition demo_rebalancing :: "blob etcd leader_loop" where
  "demo_rebalancing = demo_ready\<lparr>lp_phase := Rebalancing,
     lp_allowed := 5 + RebalanceCooldown leader_process, lp_started := [5]\<rparr>"

lemma demo_rebalances: "rebalances demo_leader empty_etcd (Inr ()) empty_etcd"
proof -
  have "rebalanceShards (ld_store demo_leader) (\<lambda>_ db. db) (ld_guard demo_leader) id_orders id_orders 0
     (ld_sdConfig demo_leader) (ld_cfg demo_leader) (ld_namespace demo_leader) (ld_fixedShardNum demo_leader)
     (\<lambda>_. 12) empty_etcd = Some (Inr (), empty_etcd)"
    by code_simp
  then show ?thesis unfolding rebalances_def by blast
qed

lemma demo_ready_run: "leader_run demo_leader demo_ready"
proof -
  have "leader_step demo_leader (leader_start empty_etcd 5) ((leader_start empty_etcd 5)\<lparr>lp_db := empty_etcd, lp_phase := Subscribing\<rparr>)"
    by (rule leader_step.initial [where res = "Inr ()"]) (simp_all add: leader_start_def demo_rebalances)
  then have "leader_run demo_leader ((leader_start empty_etcd 5)\<lparr>lp_phase := Subscribing\<rparr>)"
    using leader_run.own [OF leader_run.start] by (simp add: leader_start_def)
  from leader_run.own [OF this leader_step.subscribe] show ?thesis
    by (simp add: demo_ready_def leader_start_def)
qed

lemma demo_rebalancing_run: "leader_run demo_leader demo_rebalancing"
proof -
  let ?\<sigma> = "demo_ready\<lparr>lp_trigger := Some ''Periodic reconciliation triggered''\<rparr>"
  have "leader_run demo_leader ?\<sigma>"
    using leader_run.env [OF demo_ready_run leader_env_step.tick]
    by (simp add: demo_ready_def leader_start_def tryTriggerRebalancing_def)
  from leader_run.own [OF this leader_step.triggered, of "''Periodic reconciliation triggered''"]
  have "leader_run demo_leader (demo_ready\<lparr>lp_phase := Sleeping 5\<rparr>)"
    by (simp add: demo_ready_def leader_start_def time_Sub_def minDuration_def maxDuration_def)
  from leader_run.own [OF this leader_step.wake, of 5] show ?thesis
    by (simp add: demo_rebalancing_def demo_ready_def leader_start_def demo_leader_def)
qed


section \<open>A watch that ends\<close>

definition any_step :: "('db, 'g, 'v) leader \<Rightarrow> 'db leader_loop \<Rightarrow> 'db leader_loop \<Rightarrow> bool" where
  "any_step L \<sigma> \<sigma>' \<longleftrightarrow> leader_step L \<sigma> \<sigma>' \<or> leader_env_step L \<sigma> \<sigma>'"

definition silent :: "'db leader_loop \<Rightarrow> bool" where
  "silent \<sigma> \<longleftrightarrow> lp_phase \<sigma> \<in> {Ready, Ended} \<and> lp_trigger \<sigma> = None \<and> \<not> lp_triggering \<sigma>"

lemma silent_step: "any_step L \<sigma> \<sigma>' \<Longrightarrow> silent \<sigma> \<Longrightarrow> silent \<sigma>' \<and> lp_started \<sigma>' = lp_started \<sigma>"
  by (auto simp: any_step_def silent_def elim!: leader_stepE leader_env_stepE)

lemma silent_steps: "(any_step L)\<^sup>*\<^sup>* \<sigma> \<sigma>' \<Longrightarrow> silent \<sigma> \<Longrightarrow> silent \<sigma>' \<and> lp_started \<sigma>' = lp_started \<sigma>"
  by (induction rule: rtranclp_induct) (auto dest: silent_step)



end
