(* ===== verification/ExecutorClient.thy ===== *)
theory ExecutorClient
  imports Api
begin

text \<open>
  The library an executor embeds, \<open>client/executorclient/clientimpl.go\<close>, with its heartbeats,
  \<open>client/executorclient/heartbeat/manager.go\<close>: it reports the shards it runs, and starts and stops shard
  processors as the answers say.

  \<^item> A managed processor is a pointer that goroutines share after it left the map, so processors are
    addresses and their states a store. \<open>xi_stopped\<close> is the history of calls of \<open>Stop\<close>, \<open>xi_marked\<close> that
    of \<open>SetShardStatus(DONE)\<close>; \<open>xi_starting\<close> holds the goroutines that call \<open>Start\<close>.
  \<^item> A map of assignments is an option: \<open>None\<close> is the nil map.
  \<^item> The processors are code of the user, and the singleflight group is not part of the repository: what
    they answer is in \<open>exec_env\<close>, with the server as a function on its own state.
  \<^item> Jitter, metrics, log lines and the watchers that only report a timeout are left out.
\<close>

section \<open>State\<close>

datatype processorState = processorStateStarting | processorStateStarted | processorStateStopping

record executorImpl =
  xi_managed :: "(string, nat) gomap"
  xi_state :: "nat \<Rightarrow> processorState"
  xi_lastUse :: "(string, gotime) gomap"
  xi_metadata :: "(string, string) gomap"
  xi_fresh :: nat
  xi_starting :: "(nat \<times> string) list"
  xi_stopped :: "nat list"
  xi_marked :: "nat list"

type_synonym shard_assignments = "(string, ShardAssignment) gomap option"

record heartbeat_Manager =
  hm_namespace :: string
  hm_executorID :: string
  hm_hostName :: string

record 'w exec_env =
  xv_create :: "string \<Rightarrow> err option"
  xv_report :: "nat \<Rightarrow> ShardStatusReport"
  xv_order :: "nat \<Rightarrow> order"
  xv_now :: gotime
  xv_enabled :: bool
  xv_client :: "ExecutorHeartbeatRequest \<Rightarrow> 'w \<Rightarrow> shard_assignments result \<times> 'w"
  xv_sf :: "('w \<Rightarrow> shard_assignments result \<times> 'w) \<Rightarrow> 'w \<Rightarrow> (shard_assignments result \<times> bool) \<times> 'w"

section \<open>Starting and stopping processors\<close>

definition setState :: "processorState \<Rightarrow> nat \<Rightarrow> executorImpl \<Rightarrow> executorImpl" where
  "setState st p e = e\<lparr>xi_state := (xi_state e)(p := st)\<rparr>"

definition stopManagerProcessor :: "string \<Rightarrow> executorImpl \<Rightarrow> nat option \<times> executorImpl" where
  "stopManagerProcessor shardID e =
     (case mget (xi_managed e) shardID of
        None \<Rightarrow> (None, e)
      | Some p \<Rightarrow>
          if xi_state e p = processorStateStopping then (None, e)
          else (Some p, (setState processorStateStopping p e)
                  \<lparr>xi_managed := mdel shardID (xi_managed e), xi_stopped := xi_stopped e @ [p]\<rparr>))"

definition addManagerProcessor :: "(string \<Rightarrow> err option) \<Rightarrow> gotime \<Rightarrow> string \<Rightarrow> executorImpl \<Rightarrow> executorImpl" where
  "addManagerProcessor create now shardID e =
     (case mget (xi_managed e) shardID of
        Some _ \<Rightarrow> e
      | None \<Rightarrow>
          (case create shardID of
             Some _ \<Rightarrow> e
           | None \<Rightarrow>
               (setState processorStateStarting (xi_fresh e) e)
                 \<lparr>xi_managed := mput shardID (xi_fresh e) (xi_managed e),
                  xi_lastUse := mput shardID now (xi_lastUse e),
                  xi_starting := xi_starting e @ [(xi_fresh e, shardID)],
                  xi_fresh := Suc (xi_fresh e)\<rparr>))"

text \<open>The goroutine of \<open>addManagerProcessor\<close> when \<open>Start\<close> has returned.\<close>

definition start_returns :: "nat \<times> string \<Rightarrow> err option \<Rightarrow> executorImpl \<Rightarrow> executorImpl" where
  "start_returns ps result e =
     (let e = e\<lparr>xi_starting := remove1 ps (xi_starting e)\<rparr>
      in case result of
           Some _ \<Rightarrow> e\<lparr>xi_managed := mdel (snd ps) (xi_managed e)\<rparr>
         | None \<Rightarrow> setState processorStateStarted (fst ps) e)"

definition updateShardAssignment ::
    "(nat \<Rightarrow> order) \<Rightarrow> (string \<Rightarrow> err option) \<Rightarrow> gotime \<Rightarrow> (string, ShardAssignment) gomap \<Rightarrow> executorImpl \<Rightarrow> executorImpl" where
  "updateShardAssignment ord create now shardAssignments e =
     fold (\<lambda>(shardID, assignment) e.
             if sa_Status assignment = AssignmentStatusREADY then addManagerProcessor create now shardID e else e)
       (mrange (ord 1) shardAssignments)
       (fold (\<lambda>(shardID, _) e.
                case mget shardAssignments shardID of
                  None \<Rightarrow> snd (stopManagerProcessor shardID e)
                | Some assignment \<Rightarrow>
                    if sa_Status assignment \<noteq> AssignmentStatusREADY then snd (stopManagerProcessor shardID e) else e)
          (mrange (ord 0) (xi_managed e)) e)"

definition stopShardProcessors :: "order \<Rightarrow> executorImpl \<Rightarrow> executorImpl" where
  "stopShardProcessors ord e =
     fold (\<lambda>(shardID, _) e. snd (stopManagerProcessor shardID e)) (mrange ord (xi_managed e)) e"

section \<open>Heartbeats\<close>

definition GetShardStatusReports :: "order \<Rightarrow> (nat \<Rightarrow> ShardStatusReport) \<Rightarrow> executorImpl \<Rightarrow> (string, ShardStatusReport) gomap" where
  "GetShardStatusReports ord report e =
     fold (\<lambda>(shardID, p) reports.
             if xi_state e p = processorStateStarted then mput shardID (report p) reports else reports)
       (mrange ord (xi_managed e)) []"

definition heartbeat_request ::
    "heartbeat_Manager \<Rightarrow> 'w exec_env \<Rightarrow> executorImpl \<Rightarrow> ExecutorStatus \<Rightarrow> ExecutorHeartbeatRequest" where
  "heartbeat_request m env e status =
     \<lparr>ehr_Namespace = hm_namespace m, ehr_ExecutorID = hm_executorID m, ehr_Status = status,
      ehr_ShardStatusReports = GetShardStatusReports (xv_order env 2) (xv_report env) e,
      ehr_Metadata = xi_metadata e,
      ehr_HostMetadata = (if hm_hostName m \<noteq> '''' then Some \<lparr>HostName = hm_hostName m\<rparr> else None)\<rparr>"

definition sendRPC ::
    "heartbeat_Manager \<Rightarrow> 'w exec_env \<Rightarrow> executorImpl \<Rightarrow> ExecutorStatus \<Rightarrow> 'w \<Rightarrow> shard_assignments result \<times> 'w" where
  "sendRPC m env e status w =
     (case xv_client env (heartbeat_request m env e status) w of
        (Inl err, w) \<Rightarrow> (Inl (Errorf ''send heartbeat'' err), w)
      | (Inr response, w) \<Rightarrow> (Inr response, w))"

definition doHeartbeat ::
    "heartbeat_Manager \<Rightarrow> 'w exec_env \<Rightarrow> executorImpl \<Rightarrow> 'w \<Rightarrow> (shard_assignments result \<times> bool) \<times> 'w" where
  "doHeartbeat m env e = xv_sf env (sendRPC m env e ExecutorStatusACTIVE)"

definition manager_Heartbeat ::
    "heartbeat_Manager \<Rightarrow> 'w exec_env \<Rightarrow> executorImpl \<Rightarrow> string \<Rightarrow> 'w \<Rightarrow> shard_assignments result \<times> 'w" where
  "manager_Heartbeat m env e shardID w =
     (case doHeartbeat m env e w of
        ((Inl err, _), w) \<Rightarrow> (Inl err, w)
      | ((Inr assignments, shared), w) \<Rightarrow>
          if \<not> shared then (Inr assignments, w)
          else if shardID \<noteq> '''' \<and> (case assignments of None \<Rightarrow> False | Some A \<Rightarrow> mhas A shardID)
          then (Inr assignments, w)
          else (case doHeartbeat m env e w of ((result, _), w) \<Rightarrow> (result, w)))"

definition sendDrainingHeartbeat :: "heartbeat_Manager \<Rightarrow> 'w exec_env \<Rightarrow> executorImpl \<times> 'w \<Rightarrow> executorImpl \<times> 'w" where
  "sendDrainingHeartbeat m env = (\<lambda>(e, w).
     if \<not> xv_enabled env then (e, w) else (e, snd (sendRPC m env e ExecutorStatusDRAINING w)))"

definition heartbeatAndUpdateAssignment ::
    "heartbeat_Manager \<Rightarrow> 'w exec_env \<Rightarrow> string \<Rightarrow> executorImpl \<times> 'w \<Rightarrow> err option \<times> executorImpl \<times> 'w" where
  "heartbeatAndUpdateAssignment m env shardID = (\<lambda>(e, w).
     case manager_Heartbeat m env e shardID w of
       (Inl err, w) \<Rightarrow> (Some err, e, w)
     | (Inr None, w) \<Rightarrow> (None, e, w)
     | (Inr (Some assignments), w) \<Rightarrow>
         (None, updateShardAssignment (xv_order env) (xv_create env) (xv_now env) assignments e, w))"

definition ErrShardProcessNotFound :: err where
  "ErrShardProcessNotFound = ErrorString ''shard process not found''"

definition GetShardProcess ::
    "heartbeat_Manager \<Rightarrow> 'w exec_env \<Rightarrow> string \<Rightarrow> executorImpl \<times> 'w \<Rightarrow> nat result \<times> executorImpl \<times> 'w" where
  "GetShardProcess m env shardID = (\<lambda>(e, w).
     let e = e\<lparr>xi_lastUse := mput shardID (xv_now env) (xi_lastUse e)\<rparr>
     in case mget (xi_managed e) shardID of
          Some p \<Rightarrow> (Inr p, e, w)
        | None \<Rightarrow>
            if \<not> xv_enabled env then (Inl (Errorf shardID ErrShardProcessNotFound), e, w)
            else (case heartbeatAndUpdateAssignment m env shardID (e, w) of
                    (Some err, e, w) \<Rightarrow> (Inl (Errorf ''heartbeat and assign shards'' err), e, w)
                  | (None, e, w) \<Rightarrow>
                      (case mget (xi_managed e) shardID of
                         Some p \<Rightarrow> (Inr p, e, w)
                       | None \<Rightarrow> (Inl (Errorf shardID ErrShardProcessNotFound), e, w))))"

section \<open>The loops\<close>

text \<open>
  What a round of the heartbeat loop receives. A drain carries what ends the wait for the undrain
  signal: the signal, or the end of the executor.
\<close>

datatype loop_signal = Context_done | Stop_signal | Drain_signal bool | Heartbeat_timer

definition quiesce :: "heartbeat_Manager \<Rightarrow> 'w exec_env \<Rightarrow> executorImpl \<times> 'w \<Rightarrow> executorImpl \<times> 'w" where
  "quiesce m env = (\<lambda>(e, w). sendDrainingHeartbeat m env (stopShardProcessors (xv_order env 3) e, w))"

fun heartbeatloop ::
    "heartbeat_Manager \<Rightarrow> (loop_signal \<times> 'w exec_env) list \<Rightarrow> executorImpl \<times> 'w \<Rightarrow> bool \<times> executorImpl \<times> 'w" where
  "heartbeatloop m [] s = (False, s)"
| "heartbeatloop m ((Context_done, env) # signals) s = (True, quiesce m env s)"
| "heartbeatloop m ((Stop_signal, env) # signals) s = (True, quiesce m env s)"
| "heartbeatloop m ((Drain_signal undrained, env) # signals) s =
     (if undrained then heartbeatloop m signals (quiesce m env s) else (True, quiesce m env s))"
| "heartbeatloop m ((Heartbeat_timer, env) # signals) s =
     (if \<not> xv_enabled env then heartbeatloop m signals s
      else heartbeatloop m signals (snd (heartbeatAndUpdateAssignment m env '''' s)))"

text \<open>One round of \<open>shardCleanUpLoop\<close>, which runs only for a positive \<open>ttlShard\<close>.\<close>

definition shardCleanUp :: "duration \<Rightarrow> bool \<Rightarrow> order \<Rightarrow> gotime \<Rightarrow> executorImpl \<Rightarrow> executorImpl" where
  "shardCleanUp ttlShard enabled ord now e =
     fold (\<lambda>(shardID, lastUse) e.
             if lastUse + ttlShard < now \<and> enabled
             then (let e = (case mget (xi_managed e) shardID of
                              None \<Rightarrow> e
                            | Some p \<Rightarrow> e\<lparr>xi_marked := xi_marked e @ [p]\<rparr>)
                   in e\<lparr>xi_lastUse := mdel shardID (xi_lastUse e)\<rparr>)
             else e)
       (mrange ord (xi_lastUse e)) e"

definition SetMetadata :: "(string, string) gomap \<Rightarrow> executorImpl \<Rightarrow> executorImpl" where
  "SetMetadata metadata e = e\<lparr>xi_metadata := metadata\<rparr>"

section \<open>Which processors are tracked\<close>

lemma stop_fields:
  assumes "\<forall>p. mget (xi_managed e) s = Some p \<longrightarrow> xi_state e p \<noteq> processorStateStopping"
  defines "e' \<equiv> snd (stopManagerProcessor s e)"
  shows "mget (xi_managed e') t = (if t = s then None else mget (xi_managed e) t)"
    "xi_stopped e' = xi_stopped e @ (case mget (xi_managed e) s of None \<Rightarrow> [] | Some p \<Rightarrow> [p])"
    "xi_state e' q = (if mget (xi_managed e) s = Some q then processorStateStopping else xi_state e q)"
    "xi_fresh e' = xi_fresh e" "xi_starting e' = xi_starting e" "xi_lastUse e' = xi_lastUse e"
    "wf_map (xi_managed e) \<Longrightarrow> wf_map (xi_managed e')"
  using assms(1) unfolding e'_def stopManagerProcessor_def setState_def
  by (auto simp: mget_mdel split: option.splits)

lemma add_fields:
  fixes now :: gotime
  assumes "mget (xi_managed e) s = None" "create s = None"
  defines "e' \<equiv> addManagerProcessor create now s e"
  shows "mget (xi_managed e') t = (if t = s then Some (xi_fresh e) else mget (xi_managed e) t)"
    "xi_stopped e' = xi_stopped e" "xi_state e' q = (if q = xi_fresh e then processorStateStarting else xi_state e q)"
    "xi_fresh e' = Suc (xi_fresh e)" "xi_starting e' = xi_starting e @ [(xi_fresh e, s)]"
    "wf_map (xi_managed e) \<Longrightarrow> wf_map (xi_managed e')"
  using assms(1,2) unfolding e'_def addManagerProcessor_def setState_def by (auto simp: mget_mput)

lemma add_skips: "mget (xi_managed e) s \<noteq> None \<or> create s \<noteq> None \<Longrightarrow> addManagerProcessor create now s e = e"
  by (auto simp: addManagerProcessor_def split: option.splits)

text \<open>Distinct keys of the map have distinct processors.\<close>

definition one_key :: "executorImpl \<Rightarrow> bool" where
  "one_key e \<longleftrightarrow> (\<forall>s t p. mget (xi_managed e) s = Some p \<and> mget (xi_managed e) t = Some p \<longrightarrow> s = t)"

definition wf_exec :: "executorImpl \<Rightarrow> bool" where
  "wf_exec e \<longleftrightarrow> wf_map (xi_managed e) \<and> one_key e \<and> distinct (xi_stopped e)
     \<and> (\<forall>s p. mget (xi_managed e) s = Some p \<longrightarrow>
          p < xi_fresh e \<and> p \<notin> set (xi_stopped e) \<and> xi_state e p \<noteq> processorStateStopping)
     \<and> (\<forall>p\<in>set (xi_stopped e). p < xi_fresh e) \<and> (\<forall>x\<in>set (xi_starting e). fst x < xi_fresh e)"

lemma wf_exec_tracked:
  assumes "wf_exec e" "mget (xi_managed e) s = Some p"
  shows "p < xi_fresh e" "p \<notin> set (xi_stopped e)" "xi_state e p \<noteq> processorStateStopping"
  using assms by (auto simp: wf_exec_def)

lemma wf_exec_stop:
  assumes "wf_exec e"
  shows "wf_exec (snd (stopManagerProcessor s e))"
proof -
  have stop: "\<forall>p. mget (xi_managed e) s = Some p \<longrightarrow> xi_state e p \<noteq> processorStateStopping"
    using assms by (auto simp: wf_exec_def)
  show ?thesis
    using assms unfolding wf_exec_def one_key_def
    by (auto simp: stop_fields [OF stop] split: option.splits if_splits)
qed

lemma wf_exec_add:
  assumes "wf_exec e"
  shows "wf_exec (addManagerProcessor create now s e)"
proof (cases "mget (xi_managed e) s = None \<and> create s = None")
  case True
  note add = add_fields [of e s create, OF conjunct1 [OF True] conjunct2 [OF True], of now]
  have fresh: "mget (xi_managed e) t \<noteq> Some (xi_fresh e)" for t
    using assms by (auto simp: wf_exec_def)
  show ?thesis
    using assms fresh unfolding wf_exec_def one_key_def by (auto simp: add less_Suc_eq)
next
  case False
  then show ?thesis using assms add_skips by metis
qed

lemma wf_exec_start_returns:
  assumes "wf_exec e" "ps \<in> set (xi_starting e)"
  shows "wf_exec (start_returns ps result e)"
proof -
  have "fst x < xi_fresh e" if "x \<in> set (remove1 ps (xi_starting e))" for x
    using assms(1) that by (auto simp: wf_exec_def dest: notin_set_remove1)
  then show ?thesis
    using assms unfolding wf_exec_def one_key_def start_returns_def setState_def Let_def
    by (auto simp: mget_mdel split: option.splits)
qed

section \<open>One round of an assignment\<close>

lemma set_map_filter_Some: "set (List.map_filter f xs) = {p. \<exists>x\<in>set xs. f x = Some p}"
  by (induction xs) (auto simp: map_filter_simps split: option.splits)

lemma values_of_map:
  assumes "wf_map m"
  shows "{p. \<exists>s\<in>set (mkeys m). mget m s = Some p} = snd ` set m"
proof (intro equalityI subsetI)
  fix p assume "p \<in> {p. \<exists>s\<in>set (mkeys m). mget m s = Some p}"
  then obtain s where "mget m s = Some p" by blast
  then have "(s, p) \<in> set m" by (rule map_of_SomeD)
  then show "p \<in> snd ` set m" by force
next
  fix p assume "p \<in> snd ` set m"
  then obtain s where "(s, p) \<in> set m" by force
  moreover from this have "mget m s = Some p" using assms by (simp add: wf_map_def)
  ultimately show "p \<in> {p. \<exists>s\<in>set (mkeys m). mget m s = Some p}" by force
qed

lemma stops_spec:
  assumes "wf_exec e" "distinct ss"
  defines "e' \<equiv> fold (\<lambda>s e. snd (stopManagerProcessor s e)) ss e"
  shows "wf_exec e' \<and> (\<forall>s. mget (xi_managed e') s = (if s \<in> set ss then None else mget (xi_managed e) s))
    \<and> xi_stopped e' = xi_stopped e @ List.map_filter (mget (xi_managed e)) ss
    \<and> (\<forall>p. xi_state e' p = (if \<exists>s\<in>set ss. mget (xi_managed e) s = Some p then processorStateStopping else xi_state e p))
    \<and> xi_fresh e' = xi_fresh e \<and> xi_starting e' = xi_starting e"
  using assms(1,2) unfolding e'_def
proof (induction ss arbitrary: e)
  case (Cons x ss)
  let ?e = "snd (stopManagerProcessor x e)"
  have "\<forall>p. mget (xi_managed e) x = Some p \<longrightarrow> xi_state e p \<noteq> processorStateStopping"
    using wf_exec_tracked(3) [OF Cons.prems(1)] by blast
  note stop = stop_fields [OF this]
  have "x \<notin> set ts \<Longrightarrow> List.map_filter (\<lambda>a. if a = x then None else mget (xi_managed e) a) ts = List.map_filter (mget (xi_managed e)) ts"
    for ts by (induction ts) (auto simp: map_filter_simps split: option.splits)
  then have same: "List.map_filter (\<lambda>a. if a = x then None else mget (xi_managed e) a) ss = List.map_filter (mget (xi_managed e)) ss"
    using Cons.prems(2) by simp
  have IH: "wf_exec (fold (\<lambda>s e. snd (stopManagerProcessor s e)) ss ?e)" using Cons.IH [OF wf_exec_stop] Cons.prems by simp
  then show ?case
    using Cons.IH [OF wf_exec_stop [OF Cons.prems(1), of x]] Cons.prems(2)
    by (auto simp: stop same map_filter_simps split: option.splits)
qed (simp add: map_filter_simps)

lemma adds_spec:
  fixes create :: "string \<Rightarrow> err option" and now :: gotime
  assumes "wf_exec e" "distinct ss"
  defines "e' \<equiv> fold (addManagerProcessor create now) ss e"
  shows "wf_exec e' \<and> xi_stopped e' = xi_stopped e \<and> xi_fresh e \<le> xi_fresh e'
    \<and> (\<forall>p < xi_fresh e. xi_state e' p = xi_state e p) \<and> set (xi_starting e) \<subseteq> set (xi_starting e')
    \<and> (\<forall>s. mget (xi_managed e) s \<noteq> None \<or> s \<notin> set ss \<or> create s \<noteq> None \<longrightarrow> mget (xi_managed e') s = mget (xi_managed e) s)
    \<and> (\<forall>s. mget (xi_managed e) s = None \<and> s \<in> set ss \<and> create s = None \<longrightarrow>
        (\<exists>p. xi_fresh e \<le> p \<and> mget (xi_managed e') s = Some p \<and> xi_state e' p = processorStateStarting
          \<and> (p, s) \<in> set (xi_starting e')))"
  using assms(1,2) unfolding e'_def
proof (induction ss arbitrary: e)
  case (Cons x ss)
  let ?e = "addManagerProcessor create now x e"
  note IH = Cons.IH [OF wf_exec_add [OF Cons.prems(1), of create now x]]
  show ?case
  proof (cases "mget (xi_managed e) x = None \<and> create x = None")
    case True
    note add = add_fields [of e x create, OF conjunct1 [OF True] conjunct2 [OF True], of now]
    let ?f = "fold (addManagerProcessor create now) ss ?e"
    have f: "wf_exec ?f" "xi_stopped ?f = xi_stopped e" "xi_fresh e < xi_fresh ?f"
      "\<forall>p < Suc (xi_fresh e). xi_state ?f p = xi_state ?e p" "set (xi_starting ?e) \<subseteq> set (xi_starting ?f)"
      "\<forall>s. mget (xi_managed ?e) s \<noteq> None \<or> s \<notin> set ss \<or> create s \<noteq> None \<longrightarrow> mget (xi_managed ?f) s = mget (xi_managed ?e) s"
      "\<forall>s. mget (xi_managed ?e) s = None \<and> s \<in> set ss \<and> create s = None \<longrightarrow>
        (\<exists>p. Suc (xi_fresh e) \<le> p \<and> mget (xi_managed ?f) s = Some p \<and> xi_state ?f p = processorStateStarting
          \<and> (p, s) \<in> set (xi_starting ?f))"
      using IH Cons.prems(2) by (simp_all add: add)
    have x: "mget (xi_managed ?f) x = Some (xi_fresh e)" "xi_state ?f (xi_fresh e) = processorStateStarting"
      "(xi_fresh e, x) \<in> set (xi_starting ?f)"
      using f(4-6) by (auto simp: add)
    have "\<exists>p. xi_fresh e \<le> p \<and> mget (xi_managed ?f) s = Some p \<and> xi_state ?f p = processorStateStarting \<and> (p, s) \<in> set (xi_starting ?f)"
      if "mget (xi_managed e) s = None" "s \<in> set (x # ss)" "create s = None" for s
    proof (cases "s = x")
      case False
      then show ?thesis using f(7) that by (auto simp: add dest: Suc_leD)
    qed (use x in auto)
    moreover have "mget (xi_managed ?f) s = mget (xi_managed e) s"
      if "mget (xi_managed e) s \<noteq> None \<or> s \<notin> set (x # ss) \<or> create s \<noteq> None" for s
    proof -
      have "s \<noteq> x" using that True by auto
      then show ?thesis using f(6) [rule_format, of s] that by (auto simp: add)
    qed
    moreover have "xi_state ?f p = xi_state e p" if "p < xi_fresh e" for p using f(4) that by (simp add: add)
    moreover have "set (xi_starting e) \<subseteq> set (xi_starting ?f)" using f(5) by (auto simp: add)
    ultimately show ?thesis using f(1-3) by simp
  next
    case False
    then have skip: "?e = e" using add_skips by metis
    show ?thesis using IH Cons.prems(2) False by (simp only: fold.simps comp_def skip) auto
  qed
qed simp

definition ready :: "(string, ShardAssignment) gomap \<Rightarrow> string \<Rightarrow> bool" where
  "ready A s = (case mget A s of None \<Rightarrow> False | Some a \<Rightarrow> sa_Status a = AssignmentStatusREADY)"

lemma fold_if: "fold (\<lambda>x e. if P x then f x e else e) xs e = fold f (filter P xs) e"
  by (induction xs arbitrary: e) auto

lemma updateShardAssignment_folds:
  assumes "is_order (ord 0)" "is_order (ord 1)" "wf_map A"
  shows "updateShardAssignment ord create now A e =
    fold (addManagerProcessor create now) (filter (ready A) (ord 1 (mkeys A)))
      (fold (\<lambda>s e. snd (stopManagerProcessor s e)) (filter (\<lambda>s. \<not> ready A s) (ord 0 (mkeys (xi_managed e)))) e)"
proof -
  have stop: "(\<lambda>(shardID, _) e. case mget A shardID of
        None \<Rightarrow> snd (stopManagerProcessor shardID e)
      | Some assignment \<Rightarrow> if sa_Status assignment \<noteq> AssignmentStatusREADY then snd (stopManagerProcessor shardID e) else e)
    = (\<lambda>x e. if \<not> ready A (fst x) then snd (stopManagerProcessor (fst x) e) else e)" for A :: "(string, ShardAssignment) gomap"
    by (auto simp: ready_def fun_eq_iff split: option.splits)
  have stops: "fold (\<lambda>(shardID, _) e. case mget A shardID of
        None \<Rightarrow> snd (stopManagerProcessor shardID e)
      | Some assignment \<Rightarrow> if sa_Status assignment \<noteq> AssignmentStatusREADY then snd (stopManagerProcessor shardID e) else e)
      (mrange (ord 0) (xi_managed e)) e
    = fold (\<lambda>s e. snd (stopManagerProcessor s e)) (filter (\<lambda>s. \<not> ready A s) (ord 0 (mkeys (xi_managed e)))) e"
    unfolding stop fold_if mkeys_mrange [OF assms(1), symmetric] by (simp add: filter_map fold_map comp_def)
  have adds: "fold (\<lambda>(shardID, assignment) e.
        if sa_Status assignment = AssignmentStatusREADY then addManagerProcessor create now shardID e else e) xs e
    = fold (addManagerProcessor create now) (map fst (filter (\<lambda>(_, a). sa_Status a = AssignmentStatusREADY) xs)) e" for xs e
    by (induction xs arbitrary: e) auto
  have keys: "map fst (filter (\<lambda>(_, a). sa_Status a = AssignmentStatusREADY) (mrange (ord 1) A))
    = filter (ready A) (ord 1 (mkeys A))"
  proof -
    have "filter (\<lambda>(_, a). sa_Status a = AssignmentStatusREADY) (mrange (ord 1) A) = filter (ready A \<circ> fst) (mrange (ord 1) A)"
      using wf_mrange [OF assms(2,3)] mget_mrange [OF assms(2,3)]
      by (intro filter_cong) (auto simp: ready_def wf_map_def dest!: map_of_is_SomeI)
    then show ?thesis by (simp only: filter_map [symmetric] mkeys_mrange [OF assms(2)])
  qed
  show ?thesis unfolding updateShardAssignment_def stops adds keys ..
qed

text \<open>
  What an answer changes: afterwards the processors of the shards it gives and no others are tracked,
  those that ran already are the same processors in the same state, and \<open>Stop\<close> was called once for
  each of the others.
\<close>

lemma updateShardAssignment_spec:
  fixes create :: "string \<Rightarrow> err option" and now :: gotime
  assumes "is_order (ord 0)" "is_order (ord 1)" "wf_map A" "wf_exec e"
  defines "e' \<equiv> updateShardAssignment ord create now A e"
  shows "wf_exec e'"
    and "mget (xi_managed e') s \<noteq> None \<longleftrightarrow> ready A s \<and> (mget (xi_managed e) s \<noteq> None \<or> create s = None)"
    and "mget (xi_managed e) s = Some p \<Longrightarrow> ready A s \<Longrightarrow> mget (xi_managed e') s = Some p \<and> xi_state e' p = xi_state e p"
    and "mget (xi_managed e) s = None \<Longrightarrow> mget (xi_managed e') s = Some p \<Longrightarrow>
      xi_fresh e \<le> p \<and> xi_state e' p = processorStateStarting \<and> (p, s) \<in> set (xi_starting e')"
    and "\<exists>stops. xi_stopped e' = xi_stopped e @ stops \<and> distinct stops
      \<and> set stops = {p. \<exists>s. mget (xi_managed e) s = Some p \<and> \<not> ready A s}"
proof -
  let ?ss = "filter (\<lambda>s. \<not> ready A s) (ord 0 (mkeys (xi_managed e)))" and ?as = "filter (ready A) (ord 1 (mkeys A))"
  let ?m = "fold (\<lambda>s e. snd (stopManagerProcessor s e)) ?ss e"
  have e': "e' = fold (addManagerProcessor create now) ?as ?m"
    unfolding e'_def by (rule updateShardAssignment_folds [OF assms(1-3)])
  have wf: "wf_map (xi_managed e)" using assms(4) by (simp add: wf_exec_def)
  have ss: "distinct ?ss" "set ?ss = {s. mget (xi_managed e) s \<noteq> None \<and> \<not> ready A s}"
    using wf is_order_distinct [OF assms(1)] is_order_set [OF assms(1)] by (auto simp: wf_map_def map_of_eq_None_iff)
  have as: "distinct ?as" "set ?as = {s. ready A s}"
    using assms(3) is_order_distinct [OF assms(2)] is_order_set [OF assms(2)]
    by (auto simp: wf_map_def ready_def map_of_eq_None_iff split: option.splits)
  note stops = stops_spec [OF assms(4) ss(1)]
  note adds = adds_spec [OF conjunct1 [OF stops] as(1), of create now, folded e']
  show "wf_exec e'" using adds by blast
  show tracked: "mget (xi_managed e') s \<noteq> None \<longleftrightarrow> ready A s \<and> (mget (xi_managed e) s \<noteq> None \<or> create s = None)"
  proof -
    have m: "mget (xi_managed ?m) s = (if \<not> ready A s then None else mget (xi_managed e) s)"
      using stops unfolding ss(2) by (cases "mget (xi_managed e) s") auto
    have old: "mget (xi_managed e') s = mget (xi_managed ?m) s"
      if "mget (xi_managed ?m) s \<noteq> None \<or> \<not> ready A s \<or> create s \<noteq> None" using adds that unfolding as(2) by blast
    have new: "mget (xi_managed e') s \<noteq> None" if "mget (xi_managed ?m) s = None" "ready A s" "create s = None"
      using adds that unfolding as(2) by blast
    show ?thesis using m old new by (cases "ready A s"; cases "mget (xi_managed e) s"; cases "create s") auto
  qed
  show "\<exists>stops. xi_stopped e' = xi_stopped e @ stops \<and> distinct stops
      \<and> set stops = {p. \<exists>s. mget (xi_managed e) s = Some p \<and> \<not> ready A s}"
  proof (intro exI conjI)
    show eq: "xi_stopped e' = xi_stopped e @ List.map_filter (mget (xi_managed e)) ?ss" using adds stops by simp
    show "distinct (List.map_filter (mget (xi_managed e)) ?ss)"
      using adds eq by (simp add: wf_exec_def)
    show "set (List.map_filter (mget (xi_managed e)) ?ss) = {p. \<exists>s. mget (xi_managed e) s = Some p \<and> \<not> ready A s}"
      by (simp only: set_map_filter_Some ss(2)) auto
  qed
  show "mget (xi_managed e') s = Some p \<and> xi_state e' p = xi_state e p" if "mget (xi_managed e) s = Some p" "ready A s"
  proof -
    have m: "mget (xi_managed ?m) s = Some p" using stops that unfolding ss(2) by simp
    have "\<not> (\<exists>t\<in>set ?ss. mget (xi_managed e) t = Some p)"
      using assms(4) that unfolding ss(2) wf_exec_def one_key_def by blast
    then have "xi_state ?m p = xi_state e p" using stops by presburger
    moreover have "xi_state e' p = xi_state ?m p" using adds stops wf_exec_tracked(1) [OF assms(4) that(1)] by simp
    ultimately show ?thesis using adds m by auto
  qed
  show "xi_fresh e \<le> p \<and> xi_state e' p = processorStateStarting \<and> (p, s) \<in> set (xi_starting e')"
    if "mget (xi_managed e) s = None" "mget (xi_managed e') s = Some p"
  proof -
    have "ready A s" "create s = None" using tracked that by auto
    moreover have "mget (xi_managed ?m) s = None" using stops that(1) by auto
    ultimately obtain q where "xi_fresh ?m \<le> q \<and> mget (xi_managed e') s = Some q \<and> xi_state e' q = processorStateStarting
      \<and> (q, s) \<in> set (xi_starting e')" using adds unfolding as(2) by blast
    then show ?thesis using that(2) stops by auto
  qed
qed

lemma stopShardProcessors_spec:
  assumes "is_order ord" "wf_exec e"
  shows "wf_exec (stopShardProcessors ord e)" "xi_managed (stopShardProcessors ord e) = []"
    "\<exists>stops. xi_stopped (stopShardProcessors ord e) = xi_stopped e @ stops \<and> set stops = snd ` set (xi_managed e)"
proof -
  let ?ss = "ord (mkeys (xi_managed e))"
  have eq: "stopShardProcessors ord e = fold (\<lambda>s e. snd (stopManagerProcessor s e)) ?ss e"
    unfolding stopShardProcessors_def mkeys_mrange [OF assms(1), symmetric] by (simp add: fold_map comp_def case_prod_unfold)
  have wf: "wf_map (xi_managed e)" using assms(2) by (simp add: wf_exec_def)
  have ss: "distinct ?ss" "set ?ss = set (mkeys (xi_managed e))"
    using wf is_order_distinct [OF assms(1)] is_order_set [OF assms(1)] by (simp_all add: wf_map_def)
  note stops = stops_spec [OF assms(2) ss(1), folded eq]
  show "wf_exec (stopShardProcessors ord e)" using stops by blast
  have "mget (xi_managed (stopShardProcessors ord e)) s = None" for s
    using stops unfolding ss(2) by (simp add: map_of_eq_None_iff)
  then have "map_of (xi_managed (stopShardProcessors ord e)) = Map.empty" by (intro ext)
  then show "xi_managed (stopShardProcessors ord e) = []" by simp
  have "set (List.map_filter (mget (xi_managed e)) ?ss) = snd ` set (xi_managed e)"
    by (simp only: set_map_filter_Some ss(2) values_of_map [OF wf])
  then show "\<exists>stops. xi_stopped (stopShardProcessors ord e) = xi_stopped e @ stops \<and> set stops = snd ` set (xi_managed e)"
    using stops by blast
qed

text \<open>The orders of loops are orders, and a map of assignments has distinct keys.\<close>

definition good_env :: "'w exec_env \<Rightarrow> bool" where
  "good_env env \<longleftrightarrow> (\<forall>i. is_order (xv_order env i))
     \<and> (\<forall>rpc w A shared w'. xv_sf env rpc w = ((Inr (Some A), shared), w') \<longrightarrow> wf_map A)"

lemma manager_Heartbeat_wf:
  assumes "good_env env" "manager_Heartbeat m env e shardID w = (Inr (Some A), w')"
  shows "wf_map A"
proof -
  obtain r shared w1 where first: "doHeartbeat m env e w = ((r, shared), w1)" by (metis surj_pair)
  obtain r' shared' w2 where second: "doHeartbeat m env e w1 = ((r', shared'), w2)" by (metis surj_pair)
  have "r = Inr (Some A) \<or> r' = Inr (Some A)"
    using assms(2) by (auto simp: manager_Heartbeat_def first second split: sum.splits option.splits if_splits)
  then show ?thesis using assms(1) first second unfolding good_env_def doHeartbeat_def by metis
qed

lemma wf_exec_heartbeat:
  assumes "good_env env" "wf_exec e" "heartbeatAndUpdateAssignment m env shardID (e, w) = (err, e', w')"
  shows "wf_exec e'"
proof -
  obtain r w1 where r: "manager_Heartbeat m env e shardID w = (r, w1)" by force
  have "wf_exec (updateShardAssignment (xv_order env) (xv_create env) (xv_now env) A e)" if "r = Inr (Some A)" for A
    using updateShardAssignment_spec(1) assms(1,2) manager_Heartbeat_wf [OF assms(1)] r that by (simp add: good_env_def)
  then show ?thesis
    using assms(2,3) by (auto simp: heartbeatAndUpdateAssignment_def r split: sum.splits option.splits)
qed

lemma wf_exec_quiesce:
  assumes "good_env env" "wf_exec e" "quiesce m env (e, w) = (e', w')"
  shows "wf_exec e' \<and> xi_managed e' = []"
  using stopShardProcessors_spec [of "xv_order env 3" e] assms
  by (auto simp: good_env_def quiesce_def sendDrainingHeartbeat_def split: if_splits)

text \<open>An executor that stopped tracks nothing.\<close>

lemma heartbeatloop_stopped:
  assumes "heartbeatloop m signals (e, w) = (True, e', w')" "wf_exec e" "list_all (good_env \<circ> snd) signals"
  shows "xi_managed e' = []"
  using assms
proof (induction signals arbitrary: e w)
  case (Cons x signals)
  obtain signal env where x: "x = (signal, env)" by force
  obtain eq wq where q: "quiesce m env (e, w) = (eq, wq)" by force
  obtain err eh wh where h: "heartbeatAndUpdateAssignment m env '''' (e, w) = (err, eh, wh)" by (metis surj_pair)
  have env: "good_env env" using Cons.prems(3) by (simp add: x)
  note quiet = wf_exec_quiesce [OF env Cons.prems(2) q] and beat = wf_exec_heartbeat [OF env Cons.prems(2) h]
  show ?case
    using Cons quiet beat by (cases signal) (auto simp: x q h split: if_splits)
qed simp

section \<open>All interleavings\<close>

text \<open>
  The actions on the map of processors, in any order: heartbeats that add and stop, a drain that
  stops, \<open>Start\<close> calls that return.
\<close>

inductive exec_step :: "executorImpl \<Rightarrow> executorImpl \<Rightarrow> bool" where
  added: "exec_step e (addManagerProcessor create now shardID e)"
| stopped: "exec_step e (snd (stopManagerProcessor shardID e))"
| start_returned: "ps \<in> set (xi_starting e) \<Longrightarrow> exec_step e (start_returns ps result e)"
| used: "exec_step e (e\<lparr>xi_lastUse := m, xi_marked := ps\<rparr>)"
| metadata_set: "exec_step e (SetMetadata metadata e)"

definition new_executor :: "(string, string) gomap \<Rightarrow> executorImpl" where
  "new_executor metadata = \<lparr>xi_managed = [], xi_state = (\<lambda>_. processorStateStarting), xi_lastUse = [], xi_metadata = metadata,
     xi_fresh = 0, xi_starting = [], xi_stopped = [], xi_marked = []\<rparr>"

lemma wf_exec_used: "wf_exec e \<Longrightarrow> wf_exec (e\<lparr>xi_lastUse := m, xi_marked := ps\<rparr>)"
  unfolding wf_exec_def one_key_def by simp

lemma wf_exec_SetMetadata: "wf_exec e \<Longrightarrow> wf_exec (SetMetadata metadata e)"
  unfolding wf_exec_def one_key_def SetMetadata_def by simp

lemma wf_exec_step: "exec_step e e' \<Longrightarrow> wf_exec e \<Longrightarrow> wf_exec e'"
  by (induction rule: exec_step.induct) (auto intro: wf_exec_add wf_exec_stop wf_exec_start_returns wf_exec_used wf_exec_SetMetadata)

lemma wf_exec_steps: "exec_step\<^sup>*\<^sup>* e e' \<Longrightarrow> wf_exec e \<Longrightarrow> wf_exec e'"
  by (induction rule: rtranclp_induct) (auto intro: wf_exec_step)

lemma wf_new_executor: "wf_exec (new_executor metadata)"
  by (simp add: wf_exec_def one_key_def new_executor_def)

text \<open>A processor that is neither tracked nor stopped stays so.\<close>

definition lost :: "nat \<Rightarrow> executorImpl \<Rightarrow> bool" where
  "lost p e \<longleftrightarrow> p < xi_fresh e \<and> p \<notin> set (xi_stopped e) \<and> (\<forall>s. mget (xi_managed e) s \<noteq> Some p)"

lemma lost_step: "exec_step e e' \<Longrightarrow> lost p e \<Longrightarrow> lost p e'"
  by (induction rule: exec_step.induct)
     (auto simp: lost_def addManagerProcessor_def stopManagerProcessor_def start_returns_def setState_def SetMetadata_def Let_def
        mget_mput mget_mdel split: option.splits if_splits)

lemma lost_steps: "exec_step\<^sup>*\<^sup>* e e' \<Longrightarrow> lost p e \<Longrightarrow> lost p e'"
  by (induction rule: rtranclp_induct) (auto intro: lost_step)


end
