(* ===== verification/ExecutorRound.thy ===== *)
theory ExecutorRound
  imports ExecutorClient ExecutorHandler StoreHeartbeat
begin

text \<open>
  A heartbeat from end to end: the executor's library (\<open>ExecutorClient\<close>), the conversion of the answer to
  protocol buffers and back (\<open>common/types/mapper/proto/sharddistributor.go\<close>, and the generated coding
  of \<open>HeartbeatResponse\<close> in \<open>.gen/proto/sharddistributor/v1/executor.pb.go\<close>), the server's handler
  (\<open>ExecutorHandler\<close>) and the records in etcd.

  \<^item> A message on the wire is the list of its fields; a map is one field per entry, and a field that is
    not there is not decoded. The bytes of a field are not modelled.
  \<^item> The request reaches the server as it was sent, and an error of the server reaches the executor.
\<close>

section \<open>The answer on the wire\<close>

datatype wire_AssignmentStatus = ASSIGNMENT_STATUS_INVALID | ASSIGNMENT_STATUS_READY

fun fromShardDistributorAssignmentStatus :: "AssignmentStatus \<Rightarrow> wire_AssignmentStatus" where
  "fromShardDistributorAssignmentStatus AssignmentStatusINVALID = ASSIGNMENT_STATUS_INVALID"
| "fromShardDistributorAssignmentStatus AssignmentStatusREADY = ASSIGNMENT_STATUS_READY"

fun toShardDistributorAssignmentStatus :: "wire_AssignmentStatus \<Rightarrow> AssignmentStatus" where
  "toShardDistributorAssignmentStatus ASSIGNMENT_STATUS_READY = AssignmentStatusREADY"
| "toShardDistributorAssignmentStatus ASSIGNMENT_STATUS_INVALID = AssignmentStatusINVALID"

definition fromShardDistributorShardAssignments ::
    "order \<Rightarrow> shard_assignments \<Rightarrow> (string, wire_AssignmentStatus) gomap option" where
  "fromShardDistributorShardAssignments ord assignments =
     (case assignments of
        None \<Rightarrow> None
      | Some m \<Rightarrow> Some (fold (\<lambda>(shardKey, a). mput shardKey (fromShardDistributorAssignmentStatus (sa_Status a)))
                          (mrange ord m) []))"

definition Marshal_ShardAssignments ::
    "order \<Rightarrow> (string, wire_AssignmentStatus) gomap option \<Rightarrow> (string \<times> wire_AssignmentStatus) list" where
  "Marshal_ShardAssignments ord assignments =
     (case assignments of None \<Rightarrow> [] | Some m \<Rightarrow> if length m > 0 then mrange ord m else [])"

definition Unmarshal_ShardAssignments ::
    "(string \<times> wire_AssignmentStatus) list \<Rightarrow> (string, wire_AssignmentStatus) gomap option" where
  "Unmarshal_ShardAssignments entries =
     fold (\<lambda>(mapkey, mapvalue) assignments.
             Some (mput mapkey mapvalue (case assignments of None \<Rightarrow> [] | Some m \<Rightarrow> m))) entries None"

definition toShardDistributorShardAssignments ::
    "order \<Rightarrow> (string, wire_AssignmentStatus) gomap option \<Rightarrow> shard_assignments" where
  "toShardDistributorShardAssignments ord assignments =
     (case assignments of
        None \<Rightarrow> None
      | Some m \<Rightarrow> Some (fold (\<lambda>(shardKey, a). mput shardKey \<lparr>sa_Status = toShardDistributorAssignmentStatus a\<rparr>)
                          (mrange ord m) []))"

definition over_wire :: "(nat \<Rightarrow> order) \<Rightarrow> shard_assignments \<Rightarrow> shard_assignments" where
  "over_wire ord assignments =
     toShardDistributorShardAssignments (ord 2) (Unmarshal_ShardAssignments
       (Marshal_ShardAssignments (ord 1) (fromShardDistributorShardAssignments (ord 0) assignments)))"

definition server_client ::
    "('db, 'g) executor \<Rightarrow> 'db heartbeat_env \<Rightarrow> (nat \<Rightarrow> order) \<Rightarrow> ExecutorHeartbeatRequest \<Rightarrow> 'db
      \<Rightarrow> shard_assignments result \<times> 'db" where
  "server_client h henv ord request db =
     (case Heartbeat h henv request db of
        (Inl e, db) \<Rightarrow> (Inl e, db)
      | (Inr response, db) \<Rightarrow> (Inr (over_wire ord (Some (ehp_ShardAssignments response))), db))"

text \<open>A heartbeat that no other caller shares.\<close>

definition own_flight :: "('w \<Rightarrow> shard_assignments result \<times> 'w) \<Rightarrow> 'w \<Rightarrow> (shard_assignments result \<times> bool) \<times> 'w" where
  "own_flight rpc w = (case rpc w of (result, w) \<Rightarrow> ((result, False), w))"

section \<open>What the wire keeps\<close>

lemma status_roundtrip [simp]: "toShardDistributorAssignmentStatus (fromShardDistributorAssignmentStatus a) = a"
  by (cases a) simp_all

text \<open>A loop that fills a map with one entry per entry of another.\<close>

lemma mget_fill:
  assumes "wf_map xs"
  shows "mget (fold (\<lambda>(k, v). mput k (f v)) xs m) k = (case mget xs k of None \<Rightarrow> mget m k | Some v \<Rightarrow> Some (f v))"
  using assms
proof (induction xs arbitrary: m)
  case (Cons x xs)
  then have "mget xs (fst x) = None" by (cases x) (simp add: map_of_eq_None_iff)
  then show ?case using Cons by (cases x) (auto simp: mget_mput split: option.splits)
qed simp

lemma wf_fill: "wf_map m \<Longrightarrow> wf_map (fold (\<lambda>(k, v). mput k (f v)) xs m)"
  by (induction xs arbitrary: m) auto

lemma Unmarshal_fold: "Unmarshal_ShardAssignments (x # xs) = Some (fold (\<lambda>(k, v). mput k v) (x # xs) [])"
proof -
  let ?f = "\<lambda>(mapkey, mapvalue) assignments. Some (mput mapkey mapvalue (case assignments of None \<Rightarrow> [] | Some m \<Rightarrow> m))"
  have "fold ?f ys (Some m) = Some (fold (\<lambda>(k, v). mput k v) ys m)" for ys :: "(string \<times> wire_AssignmentStatus) list" and m
    by (induction ys arbitrary: m) auto
  then show ?thesis by (cases x) (simp add: Unmarshal_ShardAssignments_def)
qed

lemma mrange_Nil [simp]: "mrange ord [] = []"
  by (simp add: mrange_def List.map_filter_def)

lemma over_wire_empty: "over_wire ord (Some []) = None" "over_wire ord None = None"
  by (simp_all add: over_wire_def fromShardDistributorShardAssignments_def Marshal_ShardAssignments_def
      Unmarshal_ShardAssignments_def toShardDistributorShardAssignments_def)

lemma over_wire_some:
  assumes "\<forall>i. is_order (ord i)" "wf_map m" "m \<noteq> []"
  shows "\<exists>m'. over_wire ord (Some m) = Some m' \<and> wf_map m' \<and> mget m' = mget m"
proof -
  let ?from = "\<lambda>a. fromShardDistributorAssignmentStatus (sa_Status a)"
  let ?m1 = "fold (\<lambda>(k, a). mput k (?from a)) (mrange (ord 0) m) []"
  have wf0: "wf_map (mrange (ord 0) m)" "mget (mrange (ord 0) m) = mget m"
    using wf_mrange mget_mrange assms(1,2) by blast+
  have m1: "wf_map ?m1" "mget ?m1 k = map_option ?from (mget m k)" for k
    using wf_fill [of "[]"] mget_fill [OF wf0(1), of ?from "[]" k] by (simp_all add: wf0(2) split: option.splits)
  obtain k v where "(k, v) \<in> set m" using assms(3) by (cases m) auto
  then have "mget m k = Some v" using assms(2) by (simp add: wf_map_def)
  then have "?m1 \<noteq> []" using m1(2) [of k] by (metis map_of.simps(1) option.simps(3,9))
  moreover have m2: "wf_map (mrange (ord 1) ?m1)" "mget (mrange (ord 1) ?m1) = mget ?m1" "set (mrange (ord 1) ?m1) = set ?m1"
    using wf_mrange mget_mrange set_mrange assms(1) m1(1) by blast+
  ultimately obtain x xs where range1: "mrange (ord 1) ?m1 = x # xs" by (cases "mrange (ord 1) ?m1") auto
  define n where "n = fold (\<lambda>(k, v). mput k v) (x # xs) []"
  have copy: "wf_map (fold (\<lambda>(k, v). mput k v) ys []) \<and> mget (fold (\<lambda>(k, v). mput k v) ys []) = mget ys"
    if "wf_map ys" for ys :: "(string \<times> wire_AssignmentStatus) list"
    using wf_fill [of "[]" "\<lambda>v. v" ys] mget_fill [OF that, of "\<lambda>v. v" "[]"]
    by (auto simp: fun_eq_iff split: option.splits)
  have n: "wf_map n" "mget n = mget ?m1" using copy [OF m2(1)] m2(2) unfolding range1 n_def by metis+
  let ?to = "\<lambda>a. \<lparr>sa_Status = toShardDistributorAssignmentStatus a\<rparr>"
  let ?m3 = "fold (\<lambda>(k, a). mput k (?to a)) (mrange (ord 2) n) []"
  have wf2: "wf_map (mrange (ord 2) n)" "mget (mrange (ord 2) n) = mget n"
    using wf_mrange mget_mrange assms(1) n(1) by blast+
  have "mget ?m3 k = mget m k" for k
    using mget_fill [OF wf2(1), of ?to "[]" k] by (simp add: wf2(2) n(2) m1(2) split: option.splits)
  moreover have "wf_map ?m3" by (rule wf_fill) simp
  moreover have "over_wire ord (Some m) = Some ?m3"
    using \<open>?m1 \<noteq> []\<close> Unmarshal_fold [of x xs]
    by (simp only: over_wire_def fromShardDistributorShardAssignments_def Marshal_ShardAssignments_def option.case
        length_greater_0_conv if_True simp_thms range1 toShardDistributorShardAssignments_def n_def)
  ultimately show ?thesis by blast
qed

section \<open>What the server answers\<close>

lemma Heartbeat_answer:
  assumes "Heartbeat h henv req db = (Inr resp, db')"
    and "sv_GetExecutorState (ex_storage h) db (ehr_Namespace req) (ehr_ExecutorID req) = Inr st"
  shows "ehp_ShardAssignments resp = (case es_Assignment st of None \<Rightarrow> [] | Some a \<Rightarrow> AssignedShards a)"
  using assms by (auto simp: Heartbeat_def Heartbeat_record_def convertResponse_def split: sum.splits option.splits prod.splits)

context etcd_backed
begin

lemma GetExecutorState_assignment:
  assumes "GetExecutorState s db ns e = Inr st" "CHR ''/'' \<notin> set e"
  shows "es_Assignment st = stored_assignment K (st_prefix s) ns (kvs db) e"
proof -
  obtain kvs' data d where get: "GetPrefix C (BuildExecutorIDPrefix (st_prefix s) ns e) db = Inr kvs'"
    and data: "ParseExecutorKVs K (st_prefix s) ns kvs' = Inr data" and d: "mget data e = Some d"
    and st: "es_Assignment st = map_option ToAssignedState (pd_AssignedState d)"
    using assms(1) by (auto simp: GetExecutorState_def split: sum.splits option.splits if_splits)
  have kvs': "kvs' = range_prefix (BuildExecutorIDPrefix (st_prefix s) ns e) (kvs db)" by (rule get_done [OF get])
  show ?thesis
    using parsed_assignment [OF data [unfolded kvs'] wf_kvs assms(2)] d
    by (simp add: st mzero_def assigned_key_def namespace_prefix_of)
qed

end

section \<open>A round\<close>

text \<open>The executor's library, connected to a server.\<close>

definition connected :: "('db, 'g) executor \<Rightarrow> 'db heartbeat_env \<Rightarrow> (nat \<Rightarrow> order) \<Rightarrow> 'db exec_env \<Rightarrow> bool" where
  "connected h henv ord env \<longleftrightarrow> xv_client env = server_client h henv ord \<and> xv_sf env = own_flight
     \<and> (\<forall>i. is_order (xv_order env i)) \<and> (\<forall>i. is_order (ord i))"

lemma heartbeat_round:
  assumes "connected h henv ord env" "heartbeatAndUpdateAssignment m env shardID (e, db) = (None, e', db')"
    and "sv_GetExecutorState (ex_storage h) db (hm_namespace m) (hm_executorID m) = Inr st"
  shows "e' = (case over_wire ord (Some (case es_Assignment st of None \<Rightarrow> [] | Some a \<Rightarrow> AssignedShards a)) of
      None \<Rightarrow> e
    | Some A \<Rightarrow> updateShardAssignment (xv_order env) (xv_create env) (xv_now env) A e)"
proof -
  let ?req = "heartbeat_request m env e ExecutorStatusACTIVE"
  have env: "xv_sf env = own_flight" "xv_client env = server_client h henv ord" using assms(1) by (simp_all add: connected_def)
  have req: "ehr_Namespace ?req = hm_namespace m" "ehr_ExecutorID ?req = hm_executorID m" by (simp_all add: heartbeat_request_def)
  note defs = heartbeatAndUpdateAssignment_def manager_Heartbeat_def doHeartbeat_def own_flight_def sendRPC_def server_client_def env
  obtain result db1 where beat: "Heartbeat h henv ?req db = (result, db1)" by force
  show ?thesis
  proof (cases result)
    case (Inl err)
    then show ?thesis using assms(2) by (simp add: defs beat)
  next
    case (Inr resp)
    then have "ehp_ShardAssignments resp = (case es_Assignment st of None \<Rightarrow> [] | Some a \<Rightarrow> AssignedShards a)"
      using Heartbeat_answer [of h henv ?req db resp db1 st] assms(3) beat by (simp add: req)
    then show ?thesis using assms(2) Inr by (simp add: defs beat split: option.splits)
  qed
qed

text \<open>When a heartbeat succeeds.\<close>

lemma Heartbeat_succeeds:
  assumes "registry_Get (ex_namespaces h) (ehr_Namespace req) = Inr n"
    and "sv_GetExecutorState (ex_storage h) db (ehr_Namespace req) (ehr_ExecutorID req) = Inr st"
    and "validateMetadata (hb_order henv) (ehr_Metadata req) = None"
    and "fst (sv_RecordHeartbeat (ex_storage h) (hb_other henv 0 db) (ehr_Namespace req) (ehr_ExecutorID req)
      (newHeartbeat (hb_now henv) req st)) = Inr ()"
  shows "\<exists>resp db'. Heartbeat h henv req db = (Inr resp, db')"
  using assms by (auto simp: Heartbeat_def Heartbeat_record_def split: prod.splits)

lemma heartbeat_round_succeeds:
  assumes "connected h henv ord env" "\<exists>resp db'. Heartbeat h henv (heartbeat_request m env e ExecutorStatusACTIVE) db = (Inr resp, db')"
  shows "fst (heartbeatAndUpdateAssignment m env shardID (e, db)) = None"
  using assms by (auto simp: heartbeatAndUpdateAssignment_def manager_Heartbeat_def doHeartbeat_def own_flight_def sendRPC_def
      server_client_def connected_def split: option.splits)

lemma etcd_read_executor [simp]: "sv_GetExecutorState (etcd_service_store ord env now s) = GetExecutorState s"
  by (simp add: etcd_service_store_def Store.extend_def ServiceStore.fields_def)

text \<open>
  C4. An executor runs what etcd says. After a heartbeat that read a record with at least one shard,
  the executor tracks the processors of the shards that the record assigns to it (unless a processor
  could not be created) and no others; those that ran already are untouched, and every other one was
  stopped exactly once.
\<close>

theorem executor_follows_store:
  assumes "etcd_backed C view K s" "connected h henv ord env" "ex_storage h = etcd_service_store sord senv snow s"
    and "heartbeatAndUpdateAssignment m env shardID (e, db) = (None, e', db')" "wf_exec e"
    and "GetExecutorState s db (hm_namespace m) (hm_executorID m) = Inr st" "CHR ''/'' \<notin> set (hm_executorID m)"
    and "stored_assignment K (st_prefix s) (hm_namespace m) (et_kvs (view db)) (hm_executorID m) = Some a"
    and "wf_map (AssignedShards a)" "AssignedShards a \<noteq> []"
  shows "wf_exec e'
    \<and> (\<forall>sh. mget (xi_managed e') sh \<noteq> None \<longleftrightarrow>
         ready (AssignedShards a) sh \<and> (mget (xi_managed e) sh \<noteq> None \<or> xv_create env sh = None))
    \<and> (\<forall>sh p. mget (xi_managed e) sh = Some p \<and> ready (AssignedShards a) sh \<longrightarrow>
         mget (xi_managed e') sh = Some p \<and> xi_state e' p = xi_state e p)
    \<and> (\<exists>stops. xi_stopped e' = xi_stopped e @ stops \<and> distinct stops
         \<and> set stops = {p. \<exists>sh. mget (xi_managed e) sh = Some p \<and> \<not> ready (AssignedShards a) sh})"
proof -
  have st: "es_Assignment st = Some a"
    using etcd_backed.GetExecutorState_assignment [OF assms(1,6,7)] assms(8) by simp
  have ord: "\<forall>i. is_order (ord i)" "is_order (xv_order env 0)" "is_order (xv_order env 1)"
    using assms(2) by (simp_all add: connected_def)
  obtain A where A: "over_wire ord (Some (AssignedShards a)) = Some A" "wf_map A" "mget A = mget (AssignedShards a)"
    using over_wire_some [OF ord(1) assms(9,10)] by blast
  have ready: "ready A = ready (AssignedShards a)" using A(3) by (simp add: ready_def fun_eq_iff)
  have "sv_GetExecutorState (ex_storage h) db (hm_namespace m) (hm_executorID m) = Inr st" using assms(3,6) by simp
  from heartbeat_round [OF assms(2,4) this]
  have e': "e' = updateShardAssignment (xv_order env) (xv_create env) (xv_now env) A e" by (simp add: st A(1))
  show ?thesis
    using updateShardAssignment_spec [OF ord(2,3) A(2) assms(5), where create = "xv_create env" and now = "xv_now env"]
    unfolding e' ready by blast
qed

text \<open>
  C39. An executor that lost its last shard goes on running it. When its record assigns it no shard, the
  answer has an empty map, which on the wire is no map; the library takes that for an answer
  without assignments and changes nothing.
\<close>

theorem last_shard_keeps_running:
  assumes "etcd_backed C view K s" "connected h henv ord env" "ex_storage h = etcd_service_store sord senv snow s"
    and "heartbeatAndUpdateAssignment m env shardID (e, db) = (None, e', db')"
    and "GetExecutorState s db (hm_namespace m) (hm_executorID m) = Inr st" "CHR ''/'' \<notin> set (hm_executorID m)"
    and "\<nexists>sh. stored_owner K (st_prefix s) (hm_namespace m) (et_kvs (view db)) (hm_executorID m) sh"
  shows "e' = e"
proof -
  have "(case es_Assignment st of None \<Rightarrow> [] | Some a \<Rightarrow> AssignedShards a) = []"
    using etcd_backed.GetExecutorState_assignment [OF assms(1,5,6)] assms(6,7)
    by (auto simp: stored_owner_def mhas_def neq_Nil_conv split: option.splits) (metis fst_conv map_of_Cons_code(2) option.simps(3) surj_pair list.exhaust)
  moreover have "sv_GetExecutorState (ex_storage h) db (hm_namespace m) (hm_executorID m) = Inr st" using assms(3,5) by simp
  ultimately show ?thesis using heartbeat_round [OF assms(2,4)] by (simp add: over_wire_empty)
qed


section \<open>An executor of the reference store\<close>

definition demo_executor :: "(blob etcd, blob GuardFunc) executor" where
  "demo_executor = \<lparr>ex_namespaces = [(''ns'', fixed_ns)], ex_storage = etcd_service_store (\<lambda>xs. xs) (\<lambda>_ db. db) 0 demo_store,
     ex_sdConfig = (\<lambda>_. greedy_config)\<rparr>"

definition demo_heartbeat_env :: "blob etcd heartbeat_env" where
  "demo_heartbeat_env = \<lparr>hb_now = 20, hb_order = (\<lambda>xs. xs), hb_other = (\<lambda>_ db. db)\<rparr>"

definition demo_exec_env :: "blob etcd exec_env" where
  "demo_exec_env = \<lparr>xv_create = (\<lambda>_. None), xv_report = (\<lambda>_. \<lparr>ssr_Status = ShardStatusREADY, ShardLoad = Fin 1\<rparr>),
     xv_order = (\<lambda>_ xs. xs), xv_now = 20, xv_enabled = True,
     xv_client = server_client demo_executor demo_heartbeat_env (\<lambda>_ xs. xs), xv_sf = own_flight\<rparr>"

definition demo_manager :: heartbeat_Manager where
  "demo_manager = \<lparr>hm_namespace = ''ns'', hm_executorID = ''a'', hm_hostName = ''h''\<rparr>"

text \<open>It runs a processor for shard 7.\<close>

definition demo_running :: executorImpl where
  "demo_running = addManagerProcessor (\<lambda>_. None) 0 ''7'' (new_executor [(''zone'', ''z'')])"

lemma demo_connected:
  "connected demo_executor demo_heartbeat_env (\<lambda>_ xs. xs) demo_exec_env" "wf_exec demo_running"
  "ex_storage demo_executor = etcd_service_store (\<lambda>xs. xs) (\<lambda>_ db. db) 0 demo_store"
  "CHR ''/'' \<notin> set (hm_executorID demo_manager)"
  by (simp_all add: connected_def demo_exec_env_def demo_running_def wf_exec_add wf_new_executor demo_executor_def demo_manager_def)

text \<open>Its heartbeat succeeds on a store that reads it and takes its record.\<close>

lemma demo_heartbeat_succeeds:
  assumes "GetExecutorState demo_store db ''ns'' ''a'' = Inr st"
    and "fst (RecordHeartbeat demo_store db ''ns'' ''a''
      (newHeartbeat 20 (heartbeat_request demo_manager demo_exec_env demo_running ExecutorStatusACTIVE) st)) = Inr ()"
  shows "fst (heartbeatAndUpdateAssignment demo_manager demo_exec_env '''' (demo_running, db)) = None"
proof (rule heartbeat_round_succeeds [OF demo_connected(1)], rule Heartbeat_succeeds)
  let ?req = "heartbeat_request demo_manager demo_exec_env demo_running ExecutorStatusACTIVE"
  have req: "ehr_Namespace ?req = ''ns''" "ehr_ExecutorID ?req = ''a''" "ehr_Metadata ?req = [(''zone'', ''z'')]"
    by (simp_all add: heartbeat_request_def demo_manager_def demo_running_def addManagerProcessor_def new_executor_def setState_def)
  show "registry_Get (ex_namespaces demo_executor) (ehr_Namespace ?req) = Inr fixed_ns"
    by (simp add: req demo_executor_def registry_Get_def)
  show "sv_GetExecutorState (ex_storage demo_executor) db (ehr_Namespace ?req) (ehr_ExecutorID ?req) = Inr st"
    using assms(1) by (simp add: req demo_executor_def)
  show "validateMetadata (hb_order demo_heartbeat_env) (ehr_Metadata ?req) = None"
    by (simp add: req(3) demo_heartbeat_env_def validateMetadata_def maxMetadataKeys_def maxMetadataKeyLength_def
        maxMetadataValueSize_def mrange_def map_filter_simps)
  show "fst (sv_RecordHeartbeat (ex_storage demo_executor) (hb_other demo_heartbeat_env 0 db) (ehr_Namespace ?req) (ehr_ExecutorID ?req)
      (newHeartbeat (hb_now demo_heartbeat_env) ?req st)) = Inr ()"
    using assms(2) by (simp add: req demo_executor_def demo_heartbeat_env_def etcd_service_store_def Store.extend_def ServiceStore.fields_def)
qed

definition demo_record :: "blob etcd \<Rightarrow> unit result" where
  "demo_record db = fst (RecordHeartbeat demo_store db ''ns'' ''a'' (newHeartbeat 20
     \<lparr>ehr_Namespace = ''ns'', ehr_ExecutorID = ''a'', ehr_Status = ExecutorStatusACTIVE, ehr_ShardStatusReports = [],
      ehr_Metadata = [(''zone'', ''z'')], ehr_HostMetadata = Some \<lparr>HostName = ''h''\<rparr>\<rparr> (projr (GetExecutorState demo_store db ''ns'' ''a''))))"

lemma demo_request_sent:
  "heartbeat_request demo_manager demo_exec_env demo_running ExecutorStatusACTIVE =
     \<lparr>ehr_Namespace = ''ns'', ehr_ExecutorID = ''a'', ehr_Status = ExecutorStatusACTIVE, ehr_ShardStatusReports = [],
      ehr_Metadata = [(''zone'', ''z'')], ehr_HostMetadata = Some \<lparr>HostName = ''h''\<rparr>\<rparr>"
  by (simp add: heartbeat_request_def demo_manager_def demo_running_def addManagerProcessor_def new_executor_def setState_def
      GetShardStatusReports_def demo_exec_env_def mrange_def map_filter_simps)

lemma demo_round:
  assumes "\<not> isl (GetExecutorState demo_store db ''ns'' ''a'')" "demo_record db = Inr ()"
  defines "r \<equiv> heartbeatAndUpdateAssignment demo_manager demo_exec_env '''' (demo_running, db)"
  shows "r = (None, fst (snd r), snd (snd r))"
    "GetExecutorState demo_store db (hm_namespace demo_manager) (hm_executorID demo_manager) = Inr (projr (GetExecutorState demo_store db ''ns'' ''a''))"
proof -
  have read: "GetExecutorState demo_store db ''ns'' ''a'' = Inr (projr (GetExecutorState demo_store db ''ns'' ''a''))"
    using assms(1) by (cases "GetExecutorState demo_store db ''ns'' ''a''") auto
  then show "GetExecutorState demo_store db (hm_namespace demo_manager) (hm_executorID demo_manager) = Inr (projr (GetExecutorState demo_store db ''ns'' ''a''))"
    by (simp add: demo_manager_def)
  have "fst r = None"
    unfolding r_def by (rule demo_heartbeat_succeeds [OF read]) (use assms(2) in \<open>simp add: demo_request_sent demo_record_def\<close>)
  then show "r = (None, fst (snd r), snd (snd r))" by (metis prod.collapse)
qed

theorem executor_follows_store_witness:
  "\<exists>e'. fst (snd (heartbeatAndUpdateAssignment demo_manager demo_exec_env ''''
       (demo_running, snd (etcd_AssignShards demo_store demo_db ''ns'' demo_request NopGuard)))) = e'
     \<and> mget (xi_managed e') ''3'' \<noteq> None \<and> mget (xi_managed e') ''7'' = None \<and> xi_stopped e' = [0]"
proof -
  let ?db = "snd (etcd_AssignShards demo_store demo_db ''ns'' demo_request NopGuard)"
  let ?r = "heartbeatAndUpdateAssignment demo_manager demo_exec_env '''' (demo_running, ?db)"
  have "\<not> isl (GetExecutorState demo_store ?db ''ns'' ''a'')" "demo_record ?db = Inr ()" by code_simp+
  note run = demo_round(1) [OF this] and read = demo_round(2) [OF this]
  let ?a = "\<lparr>AssignedShards = assignedShardsMap [''3'', ''1''], as_HandoverStats = [], LastUpdated = 12, ModRevision = 3\<rparr>"
  have stored: "stored_assignment reference_codec (st_prefix demo_store) (hm_namespace demo_manager)
      (et_kvs (as_etcd ?db)) (hm_executorID demo_manager) = Some ?a"
    by code_simp
  have ready: "ready (AssignedShards ?a) ''3''" "\<not> ready (AssignedShards ?a) ''7''" by code_simp+
  have wf: "wf_map (AssignedShards ?a)" "AssignedShards ?a \<noteq> []" by code_simp+
  have running: "mget (xi_managed demo_running) sh = (if sh = ''7'' then Some 0 else None)" "xi_stopped demo_running = []" for sh
    by (simp_all add: demo_running_def addManagerProcessor_def new_executor_def setState_def)
  have create: "xv_create demo_exec_env sh = None" for sh by (simp add: demo_exec_env_def)
  note round = executor_follows_store [OF demo_backed demo_connected(1,3) run demo_connected(2) read demo_connected(4) stored wf]
  have "mget (xi_managed (fst (snd ?r))) ''3'' \<noteq> None" "mget (xi_managed (fst (snd ?r))) ''7'' = None"
    using round ready create by blast+
  moreover obtain stops where stops: "xi_stopped (fst (snd ?r)) = xi_stopped demo_running @ stops" "distinct stops"
    "set stops = {p. \<exists>sh. mget (xi_managed demo_running) sh = Some p \<and> \<not> ready (AssignedShards ?a) sh}"
    using round by blast
  have "set stops = {0}" unfolding stops(3) using ready(2) by (auto simp: running)
  then have "stops = [0]" using stops(2) by (cases stops) (auto simp: subset_singleton_iff)
  then have "xi_stopped (fst (snd ?r)) = [0]" unfolding stops(1) running(2) by simp
  ultimately show ?thesis by blast
qed

theorem last_shard_keeps_running_witness:
  "fst (snd (heartbeatAndUpdateAssignment demo_manager demo_exec_env '''' (demo_running, demo_db))) = demo_running"
proof -
  let ?r = "heartbeatAndUpdateAssignment demo_manager demo_exec_env '''' (demo_running, demo_db)"
  have "\<not> isl (GetExecutorState demo_store demo_db ''ns'' ''a'')" "demo_record demo_db = Inr ()" by code_simp+
  note run = demo_round(1) [OF this] and read = demo_round(2) [OF this]
  have none: "\<nexists>sh. stored_owner reference_codec (st_prefix demo_store) (hm_namespace demo_manager)
      (et_kvs (as_etcd demo_db)) (hm_executorID demo_manager) sh"
    using demo_no_records [of "''a''"] by (simp add: stored_owner_def demo_namespace(2) demo_manager_def demo_wf)
  show ?thesis by (rule last_shard_keeps_running [OF demo_backed demo_connected(1,3) run read demo_connected(4) none])
qed


end
