(* ===== verification/Spec2Isabelle.thy ===== *)
theory Spec2Isabelle
  imports StoreProperties StoreHeartbeat NamespaceWatch Batcher EphemeralStore Service WatchStream Election LeaderLoop ExecutorRound
begin

text \<open>
  \<^bold>\<open>The shard manager.\<close> The service assigns the shards of a namespace to executors. Executors send
  heartbeats, and their answers say which shards they own. One instance of the service is the leader of
  a namespace: it reads the state of the namespace, computes a new distribution of its shards, and
  writes it. All state is in etcd. A namespace is fixed, with a configured number of shards, or
  ephemeral: a shard of it exists from the first lookup of its owner to the executor's report that it
  is done. Paths below are relative to \<open>src/service/sharddistributor\<close> unless they begin with
  \<open>common\<close>.

  \<^bold>\<open>How the program is modelled.\<close> Functions of the source are functions here, with the names of the
  source; a prefix tells two functions of one name apart (\<open>naive_PlanRebalance\<close>,
  \<open>greedy_PlanRebalance\<close>, \<open>cache_GetShardOwner\<close>). A struct is a record and an enumeration a datatype. A Go map is
  an association list with distinct keys; the order in which \<open>range\<close> visits it is an argument of every
  function that depends on it, and theorems hold for every order. Times and durations are integers of
  nanoseconds, with the saturation of \<open>time.Sub\<close>. A \<open>float64\<close> is a rational or one of the special
  values; rounding is not modelled. An error is a value of \<open>err\<close>, a fallible result a sum; a panic is
  \<open>None\<close>, or an error value where the source recovers it. State is passed explicitly. Where goroutines
  share state, their atomic actions are the rules of a step relation, and the theorems quantify over
  all interleavings. What other instances do to the database between two of its calls is an argument of
  the function that makes them (\<open>env\<close>), and theorems hold for every such interference. Metrics and log
  lines are left out, except where a value they publish is computed by code of its own.

  \<^bold>\<open>Foundations.\<close>
  \<^item> \<open>Prelude\<close>: \<open>float64\<close>, times, maps, orders of iteration, and the lemmas on them that all components
    share. \<open>Types\<close>: enumerations, errors and configuration (\<open>common/types/sharddistributor.go\<close>,
    \<open>config/config.go\<close>). \<open>State\<close>: the state of a namespace and its views (\<open>store/state.go\<close>). \<open>Api\<close>: the
    requests and responses. \<open>StoreInterface\<close>: the store as its clients see it (\<open>store/store.go\<close>).
  \<^item> \<open>Enumer\<close>: names and JSON of the enumerations; every value survives a round trip.
  \<^item> \<open>Backoff\<close>: retry policies, the retry loop and jitter (\<open>common/backoff\<close>). Delays are bounded. The
    loop may run for ever, so it is a partial function; it returns when the policy bounds the attempts,
    after at most one more call than that bound. It is the only such loop: all others are structural
    or come with a measure, and no definition takes fuel.

  \<^bold>\<open>Load balancing.\<close>
  \<^item> \<open>Plan\<close>, \<open>Naive\<close>, \<open>Greedy\<close>, \<open>Statistics\<close>, \<open>LoadBalancer\<close>: placements and moves, the two strategies, the
    smoothed loads they rest on, and the dispatch between them (\<open>loadbalancer\<close>, \<open>statistics\<close>). Initial
    placement gives each shard one assignable executor. A greedy plan keeps its budget, moves no shard twice,
    moves only eligible shards, and lowers the sum of the squared loads with every move. The naive strategy plans at
    most one move, from the hottest executor to the coldest; negative loads break it.

  \<^bold>\<open>The leader.\<close>
  \<^item> \<open>Processor\<close>, \<open>Distribution\<close>: one rebalance and one clean-up (\<open>leader/process/processor.go\<close>). In a fixed
    namespace every undrained shard gets one owner; in an ephemeral one exactly the live shards keep
    one; only assignable executors own shards; the request to the store covers every record the
    decision rested on; a rebalance fails only with the store.
  \<^item> \<open>LeaderLoop\<close>: when the leader rebalances. Delivered changes and failures are followed by a
    rebalance, rebalances keep the cooldown, and the loops come to rest; a watch that ends silences them.
  \<^item> \<open>Election\<close>: electors and the state machine that runs them (\<open>leader/election\<close>, \<open>leader/namespace\<close>). The
    process of a leader runs only within its leadership, and everything is released in order.

  \<^bold>\<open>The store.\<close>
  \<^item> \<open>EtcdKeys\<close>, \<open>EtcdTypes\<close>: keys, host names, and the persisted form of every structure. Keys and values
    round-trip; the exact side conditions on names are part of the statements.
  \<^item> \<open>Etcd\<close>: the client of etcd is a parameter. The locale of the clients that behave as the documentation of etcd says has a
    reference interpretation on a list of keys with revisions and transactions.
  \<^item> \<open>EtcdStore\<close>: every operation of \<open>store/etcd/executorstore\<close> and the guard of a leader.
  \<^item> \<open>StoreRefinement\<close>, \<open>StoreProperties\<close>, \<open>StoreDrain\<close>, \<open>StoreHeartbeat\<close>: what the operations do to the records in etcd. \<open>AssignShards\<close> is
    all or nothing and only against the revisions it was computed from, so a successful rebalance
    leaves each shard of a fixed namespace one owner in etcd; a deposed leader writes nothing;
    heartbeats, drains and resets have exactly their effect.

  \<^bold>\<open>Lookups.\<close>
  \<^item> \<open>Cache\<close>, \<open>NamespaceWatch\<close>: the cache of a namespace, its refresh loop and the watch that drives it
    (\<open>cache\<close>, \<open>store/etcd/executorstore/namespacewatch.go\<close>). The cache answers from the newest snapshot read; once writes stop, it
    comes to answer from the current state of etcd, after boundedly many steps.
  \<^item> \<open>EphemeralAssigner\<close>, \<open>Batcher\<close>, \<open>EphemeralStore\<close>: the assignment of ephemeral shards on lookup
    (\<open>ephemeralassigner\<close>). Every accepted request is answered once; an answer is recorded in etcd for that executor;
    two assigners can give a new shard two owners.

  \<^bold>\<open>The API.\<close>
  \<^item> \<open>Namespaces\<close>: the registry and the manager that starts and stops the components of each namespace.
  \<^item> \<open>Handler\<close>, \<open>ExecutorHandler\<close>, \<open>WatchStream\<close>: the RPCs of clients and of executors, and the stream
    (\<open>handler\<close>). A client of the stream that waits has, or is about to get, the state of the cache.
  \<^item> \<open>Service\<close>: access control, the errors on the wire, and the gRPC layer (\<open>wrappers\<close>,
    \<open>common/types/mapper/proto/errors.go\<close>). Only administrators change a namespace, and API errors reach
    the client with their type.

  \<^bold>\<open>The executors.\<close>
  \<^item> \<open>ExecutorClient\<close>: the library an executor embeds (\<open>client/executorclient\<close>): its processors as addresses, the
    heartbeats, drains, and the clean-up of idle shards; the actions of its goroutines are a step
    relation. Every tracked processor has one key and is not stopped, whatever the interleaving; a
    start that fails late loses a processor that is never stopped.
  \<^item> \<open>ExecutorRound\<close>: a heartbeat from the executor through the wire, the handler and the records in etcd and back.
    The executor then runs the shards its record assigns to it, except that one whose record lost its last shard
    goes on running it.

  \<^bold>\<open>Not modelled.\<close> Generated code that only moves data: the bytes of the protocol buffers, the wrappers for metrics,
  retries, timeouts and injected errors. The conversion of messages to protocol buffers, which copies
  field by field, other than that of the assignments in a heartbeat. Reading configuration files and dynamic
  configuration, whose values are arguments here. Logging, metrics and clocks. The wiring of the
  components and the start of the server. The spectator client, the canary and the command line
  tool, which use the API. The etcd session of an election and the RPC framework, which are not part of the
  repository.
\<close>

end
